(* ===== verification/Go_Prelude.thy ===== *)
theory Go_Prelude
  imports Main "HOL-Library.Sublist"
begin

text \<open>
  The vocabulary shared by every component of the development: how a Go call ends
  (a value or a panic), the error values of the program, and the generic lemmas the component
  proofs rest on. Go strings are byte sequences, here \<^typ>\<open>string\<close>.

  The collections: \<open>go_eval\<close> holds the equations that evaluate the string library on
  literals, \<open>outcome_simps\<close> the rules that thread panics.
\<close>

named_theorems go_eval \<open>evaluation of the string library on literals\<close>
named_theorems outcome_simps \<open>threading of panics\<close>

section \<open>How a call ends\<close>

text \<open>A Go call returns a value or panics; the text of the panic is kept.\<close>

datatype 'a outcome = Ret 'a | Panic string

primrec obind :: "'a outcome \<Rightarrow> ('a \<Rightarrow> 'b outcome) \<Rightarrow> 'b outcome" where
  "obind (Ret x) f = f x"
| "obind (Panic e) f = Panic e"

primrec is_Ret :: "'a outcome \<Rightarrow> bool" where
  "is_Ret (Ret _) = True"
| "is_Ret (Panic _) = False"

lemma obind_eq_Ret [outcome_simps]:
  "obind x f = Ret y \<longleftrightarrow> (\<exists>a. x = Ret a \<and> f a = Ret y)"
  by (cases x) auto

lemma obind_eq_Panic [outcome_simps]:
  "obind x f = Panic e \<longleftrightarrow> x = Panic e \<or> (\<exists>a. x = Ret a \<and> f a = Panic e)"
  by (cases x) auto

lemma is_Ret_iff [outcome_simps]: "is_Ret x \<longleftrightarrow> (\<exists>a. x = Ret a)"
  by (cases x) auto

section \<open>Error values\<close>

text \<open>
  The sentinel errors of \<open>store.go\<close> and \<open>job.go\<close>, errors made by \<open>errors.New\<close> or
  \<open>fmt.Errorf\<close>, and errors wrapped with \<open>%w\<close>, which keep the wrapped error.
\<close>

datatype go_error =
    ErrNotLeader
  | ErrOpenTimeout
  | ErrDealerNoExists
  | ErrDealerContinue
  | Err string
  | ErrWrap string go_error

primrec err_Error :: "go_error \<Rightarrow> string" where
  "err_Error ErrNotLeader = ''not leader''"
| "err_Error ErrOpenTimeout = ''timeout waiting for initial logs application''"
| "err_Error ErrDealerNoExists = ''dealer does not exist''"
| "err_Error ErrDealerContinue = ''dealer bypass and should continue''"
| "err_Error (Err t) = t"
| "err_Error (ErrWrap t e) = t @ err_Error e"

text \<open>\<open>errors.Is\<close>: equality with the target somewhere in the chain of wrapped errors.\<close>

primrec errors_Is :: "go_error \<Rightarrow> go_error \<Rightarrow> bool" where
  "errors_Is ErrNotLeader t = (t = ErrNotLeader)"
| "errors_Is ErrOpenTimeout t = (t = ErrOpenTimeout)"
| "errors_Is ErrDealerNoExists t = (t = ErrDealerNoExists)"
| "errors_Is ErrDealerContinue t = (t = ErrDealerContinue)"
| "errors_Is (Err m) t = (t = Err m)"
| "errors_Is (ErrWrap m e) t = (t = ErrWrap m e \<or> errors_Is e t)"

lemma errors_Is_refl [simp]: "errors_Is e e"
  by (cases e) auto

section \<open>Lists and maps\<close>

lemma find_SomeD: "find P xs = Some x \<Longrightarrow> x \<in> set xs \<and> P x"
  by (induction xs) (auto split: if_splits)

lemma find_skip: "\<forall>x \<in> set xs. \<not> P x \<Longrightarrow> find P (xs @ ys) = find P ys"
  by (induction xs) auto

lemma length_filter_not: "length (filter (\<lambda>x. \<not> P x) xs) + length (filter P xs) = length xs"
  by (induction xs) auto

end
