(* ===== verification/Go_Strings.thy ===== *)
theory Go_Strings
  imports Go_Prelude
begin

text \<open>
  Go strings are byte sequences; \<^typ>\<open>char\<close> is a byte. This theory models the functions of
  \<open>strings\<close>, \<open>bytes\<close>, \<open>strconv\<close> and \<open>fmt\<close> the program calls, with the lemmas about them
  that the components share: splitting and joining are inverse, decimal printing and
  \<open>strconv.Atoi\<close> are inverse on 64-bit values.
\<close>

section \<open>Prefixes, splitting and trimming\<close>

text \<open>\<open>strings.HasPrefix\<close> and \<open>strings.TrimPrefix\<close>.\<close>

definition str_HasPrefix :: "string \<Rightarrow> string \<Rightarrow> bool" where
  "str_HasPrefix s p = prefix p s"

definition str_TrimPrefix :: "string \<Rightarrow> string \<Rightarrow> string" where
  "str_TrimPrefix s p = (if prefix p s then drop (length p) s else s)"

text \<open>\<open>strings.Split(s, sep)\<close> and \<open>strings.SplitN(s, sep, -1)\<close> for a one-byte separator.\<close>

fun str_Split :: "char \<Rightarrow> string \<Rightarrow> string list" where
  "str_Split c [] = [[]]"
| "str_Split c (x # xs) =
     (if x = c then [] # str_Split c xs
      else (case str_Split c xs of [] \<Rightarrow> [[x]] | y # ys \<Rightarrow> (x # y) # ys))"

text \<open>\<open>strings.Join\<close> with a one-byte separator, the reference \<open>str_Split\<close> is compared with.\<close>

fun str_Join :: "char \<Rightarrow> string list \<Rightarrow> string" where
  "str_Join c [] = []"
| "str_Join c [x] = x"
| "str_Join c (x # y # ys) = x @ c # str_Join c (y # ys)"

text \<open>\<open>strings.ReplaceAll(s, old, "")\<close> for a non-empty \<open>old\<close>, left to right, no overlaps.\<close>

function str_RemoveAll :: "string \<Rightarrow> string \<Rightarrow> string" where
  "str_RemoveAll old [] = []"
| "str_RemoveAll old (x # xs) =
     (if old \<noteq> [] \<and> prefix old (x # xs) then str_RemoveAll old (drop (length old) (x # xs))
      else x # str_RemoveAll old xs)"
  by pat_completeness auto
termination
  by (relation "measure (\<lambda>(old, s). length s)") auto

text \<open>\<open>bytes.TrimRight(data, cutset)\<close> for an ASCII cutset.\<close>

definition bytes_TrimRight :: "string \<Rightarrow> string \<Rightarrow> string" where
  "bytes_TrimRight s cutset = rev (dropWhile (\<lambda>c. c \<in> set cutset) (rev s))"

text \<open>
  \<open>strings.TrimSpace\<close> removes leading and trailing white space as Unicode defines it;
  \<open>space_runes\<close> lists the UTF-8 encodings of the white-space code points.
\<close>

definition space_runes :: "string list" where
  "space_runes =
     [[CHR 0x09], [CHR 0x0A], [CHR 0x0B], [CHR 0x0C], [CHR 0x0D], [CHR 0x20],
      [CHR 0xC2, CHR 0x85], [CHR 0xC2, CHR 0xA0], [CHR 0xE1, CHR 0x9A, CHR 0x80],
      [CHR 0xE2, CHR 0x80, CHR 0x80], [CHR 0xE2, CHR 0x80, CHR 0x81],
      [CHR 0xE2, CHR 0x80, CHR 0x82], [CHR 0xE2, CHR 0x80, CHR 0x83],
      [CHR 0xE2, CHR 0x80, CHR 0x84], [CHR 0xE2, CHR 0x80, CHR 0x85],
      [CHR 0xE2, CHR 0x80, CHR 0x86], [CHR 0xE2, CHR 0x80, CHR 0x87],
      [CHR 0xE2, CHR 0x80, CHR 0x88], [CHR 0xE2, CHR 0x80, CHR 0x89],
      [CHR 0xE2, CHR 0x80, CHR 0x8A], [CHR 0xE2, CHR 0x80, CHR 0xA8],
      [CHR 0xE2, CHR 0x80, CHR 0xA9], [CHR 0xE2, CHR 0x80, CHR 0xAF],
      [CHR 0xE2, CHR 0x81, CHR 0x9F], [CHR 0xE3, CHR 0x80, CHR 0x80]]"

text \<open>Strip encodings from \<open>runes\<close> (none of them empty) off the front, as long as one fits.\<close>

function strip_runes :: "string list \<Rightarrow> string \<Rightarrow> string" where
  "strip_runes runes s =
     (case find (\<lambda>r. r \<noteq> [] \<and> prefix r s) runes of
        None \<Rightarrow> s
      | Some r \<Rightarrow> strip_runes runes (drop (length r) s))"
  by pat_completeness auto
termination
  by (relation "measure (\<lambda>(runes, s). length s)")
    (auto simp: find_Some_iff prefix_def)

definition str_TrimSpace :: "string \<Rightarrow> string" where
  "str_TrimSpace s =
     rev (strip_runes (map rev space_runes) (rev (strip_runes space_runes s)))"

section \<open>Decimal numbers\<close>

definition digit_char :: "nat \<Rightarrow> char" where
  "digit_char d = ''0123456789'' ! d"

definition digit_val :: "char \<Rightarrow> nat option" where
  "digit_val c =
     (let n = (of_char c :: nat) in if 48 \<le> n \<and> n \<le> 57 then Some (n - 48) else None)"

fun dec_nat :: "nat \<Rightarrow> string" where
  "dec_nat n = (if n < 10 then [digit_char n] else dec_nat (n div 10) @ [digit_char (n mod 10)])"

declare dec_nat.simps [simp del]

text \<open>The verb \<open>%d\<close> of \<open>fmt\<close> on an \<open>int\<close>.\<close>

definition fmt_d :: "int \<Rightarrow> string" where
  "fmt_d i = (if i < 0 then ''-'' @ dec_nat (nat (- i)) else dec_nat (nat i))"

text \<open>
  \<open>strconv.ParseUint(s, 10, 64)\<close>: digit by digit; the first byte that is no digit is a
  syntax error, the first digit that passes the largest 64-bit value a range error.
\<close>

datatype num_error = ErrSyntax | ErrRange

fun parse_uint :: "nat \<Rightarrow> string \<Rightarrow> num_error + nat" where
  "parse_uint acc [] = Inr acc"
| "parse_uint acc (c # cs) =
     (case digit_val c of
        None \<Rightarrow> Inl ErrSyntax
      | Some d \<Rightarrow> if 10 * acc + d < 2 ^ 64 then parse_uint (10 * acc + d) cs else Inl ErrRange)"

text \<open>
  \<open>strconv.Atoi\<close> with the error dropped, as in \<open>por, _ := strconv.Atoi(port)\<close>: a syntax error
  yields 0, a range error the nearest 64-bit value.
\<close>

definition parse_mag :: "bool \<Rightarrow> string \<Rightarrow> int" where
  "parse_mag neg s =
     (case parse_uint 0 s of
        Inl ErrSyntax \<Rightarrow> 0
      | Inl ErrRange \<Rightarrow> if neg then - (2 ^ 63) else 2 ^ 63 - 1
      | Inr n \<Rightarrow> if neg then (if n > 2 ^ 63 then - (2 ^ 63) else - int n)
                else (if n \<ge> 2 ^ 63 then 2 ^ 63 - 1 else int n))"

fun strconv_Atoi :: "string \<Rightarrow> int" where
  "strconv_Atoi [] = 0"
| "strconv_Atoi (c # cs) =
     (if c = CHR ''-'' then (if cs = [] then 0 else parse_mag True cs)
      else if c = CHR ''+'' then (if cs = [] then 0 else parse_mag False cs)
      else parse_mag False (c # cs))"

section \<open>Valid UTF-8\<close>

text \<open>JSON carries text: what a JSON codec preserves are the strings that are valid UTF-8.\<close>

definition byte_in :: "nat \<Rightarrow> nat \<Rightarrow> char \<Rightarrow> bool" where
  "byte_in lo hi c = (lo \<le> (of_char c :: nat) \<and> (of_char c :: nat) \<le> hi)"

fun valid_utf8 :: "string \<Rightarrow> bool" where
  "valid_utf8 [] = True"
| "valid_utf8 (a # s) =
     (if byte_in 0 0x7F a then valid_utf8 s
      else (case s of
        b # s1 \<Rightarrow>
          if byte_in 0xC2 0xDF a \<and> byte_in 0x80 0xBF b then valid_utf8 s1
          else (case s1 of
            c # s2 \<Rightarrow>
              if (byte_in 0xE0 0xE0 a \<and> byte_in 0xA0 0xBF b \<or>
                  (byte_in 0xE1 0xEC a \<or> byte_in 0xEE 0xEF a) \<and> byte_in 0x80 0xBF b \<or>
                  byte_in 0xED 0xED a \<and> byte_in 0x80 0x9F b) \<and> byte_in 0x80 0xBF c
              then valid_utf8 s2
              else (case s2 of
                d # s3 \<Rightarrow>
                  (byte_in 0xF0 0xF0 a \<and> byte_in 0x90 0xBF b \<or>
                   byte_in 0xF1 0xF3 a \<and> byte_in 0x80 0xBF b \<or>
                   byte_in 0xF4 0xF4 a \<and> byte_in 0x80 0x8F b) \<and>
                  byte_in 0x80 0xBF c \<and> byte_in 0x80 0xBF d \<and> valid_utf8 s3
              | [] \<Rightarrow> False)
          | [] \<Rightarrow> False)
      | [] \<Rightarrow> False))"

section \<open>Facts about splitting and trimming\<close>

lemma str_HasPrefix_append [simp]: "str_HasPrefix (p @ s) p"
  by (simp add: str_HasPrefix_def)

lemma str_TrimPrefix_append [simp]: "str_TrimPrefix (p @ s) p = s"
  by (simp add: str_TrimPrefix_def)

lemma str_Split_nonempty [simp]: "str_Split c s \<noteq> []"
  by (cases s) (auto split: list.splits)

lemma str_Split_no_sep: "c \<notin> set s \<Longrightarrow> str_Split c s = [s]"
  by (induction s) auto

lemma str_Split_append: "c \<notin> set a \<Longrightarrow> str_Split c (a @ c # b) = a # str_Split c b"
  by (induction a) auto

lemma str_Split_parts: "p \<in> set (str_Split c s) \<Longrightarrow> c \<notin> set p"
  by (induction c s arbitrary: p rule: str_Split.induct)
    (fastforce split: if_splits list.splits)+

lemma str_Join_Cons_hd:
  "ys \<noteq> [] \<Longrightarrow> str_Join c ((x # hd ys) # tl ys) = x # str_Join c ys"
  by (cases ys; cases "tl ys") auto

text \<open>Splitting loses nothing: joining the parts with the separator gives the string back.\<close>

lemma str_Join_Split: "str_Join c (str_Split c s) = s"
proof (induction s)
  case (Cons x xs)
  obtain y ys where y: "str_Split c xs = y # ys"
    by (cases "str_Split c xs") auto
  with Cons str_Join_Cons_hd [of "y # ys" c x] show ?case by simp
qed simp

lemma hd_str_Split: "hd (str_Split c s) = takeWhile (\<lambda>x. x \<noteq> c) s"
proof (induction s)
  case (Cons x xs)
  then show ?case by (cases "str_Split c xs") auto
qed simp

section \<open>Facts about decimal numbers\<close>

lemma less_10_cases: "(d::nat) < 10 \<Longrightarrow> d \<in> {0, 1, 2, 3, 4, 5, 6, 7, 8, 9}"
  by auto

lemma digit_val_char [simp]: "d < 10 \<Longrightarrow> digit_val (digit_char d) = Some d"
  by (drule less_10_cases) (auto simp: digit_char_def digit_val_def)

lemma digit_char_no_sign:
  "d < 10 \<Longrightarrow> digit_char d \<noteq> CHR ''-'' \<and> digit_char d \<noteq> CHR ''+''"
  by (drule less_10_cases) (auto simp: digit_char_def)

lemma dec_nat_nonempty [simp]: "dec_nat n \<noteq> []"
  by (subst dec_nat.simps) simp

lemma set_dec_nat: "set (dec_nat n) \<subseteq> set ''0123456789''"
proof (induction n rule: dec_nat.induct)
  case (1 n)
  have d: "digit_char (n mod 10) \<in> set ''0123456789''"
    unfolding digit_char_def by (rule nth_mem) simp
  show ?case
    using 1 d by (subst dec_nat.simps) (auto simp: digit_char_def)
qed

lemma hd_dec_nat_no_sign: "hd (dec_nat n) \<noteq> CHR ''-'' \<and> hd (dec_nat n) \<noteq> CHR ''+''"
  using subsetD [OF set_dec_nat hd_in_set [OF dec_nat_nonempty], of n] by auto

lemma parse_uint_snoc:
  "parse_uint acc (xs @ [c]) =
     (case parse_uint acc xs of
        Inl e \<Rightarrow> Inl e
      | Inr n \<Rightarrow> (case digit_val c of
          None \<Rightarrow> Inl ErrSyntax
        | Some d \<Rightarrow> if 10 * n + d < 2 ^ 64 then Inr (10 * n + d) else Inl ErrRange))"
  by (induction xs arbitrary: acc) (auto split: option.splits)

lemma parse_uint_dec_nat: "n < 2 ^ 64 \<Longrightarrow> parse_uint 0 (dec_nat n) = Inr n"
proof (induction n rule: dec_nat.induct)
  case (1 n)
  show ?case
  proof (cases "n < 10")
    case True
    then show ?thesis by (subst dec_nat.simps) simp
  next
    case False
    have eq: "10 * (n div 10) + n mod 10 = n" by simp
    have "parse_uint 0 (dec_nat (n div 10)) = Inr (n div 10)"
      using False 1 by simp
    then show ?thesis
      using False 1 eq
      by (subst dec_nat.simps) (simp add: parse_uint_snoc)
  qed
qed

lemma parse_mag_dec_nat:
  "n < 2 ^ 63 \<Longrightarrow> parse_mag neg (dec_nat n) = (if neg then - int n else int n)"
  by (simp add: parse_mag_def parse_uint_dec_nat)

lemma strconv_Atoi_dec_nat: "n < 2 ^ 63 \<Longrightarrow> strconv_Atoi (dec_nat n) = int n"
  using parse_mag_dec_nat [of n False] hd_dec_nat_no_sign [of n]
  by (cases "dec_nat n") auto

text \<open>Printing with \<open>%d\<close> and reading with \<open>Atoi\<close> gives every 64-bit integer back.\<close>

lemma strconv_Atoi_fmt_d:
  assumes "- (2 ^ 63) < i" "i < 2 ^ 63"
  shows "strconv_Atoi (fmt_d i) = i"
proof (cases "i < 0")
  case True
  then have "nat (- i) < 2 ^ 63" using assms(1) by simp
  with True show ?thesis by (simp add: fmt_d_def parse_mag_dec_nat)
next
  case False
  then have "nat i < 2 ^ 63" using assms(2) by simp
  with False show ?thesis by (simp add: fmt_d_def strconv_Atoi_dec_nat)
qed

lemma set_fmt_d: "set (fmt_d i) \<subseteq> insert (CHR ''-'') (set ''0123456789'')"
proof (cases "i < 0")
  case True
  then have "set (fmt_d i) = insert (CHR ''-'') (set (dec_nat (nat (- i))))"
    by (simp add: fmt_d_def)
  then show ?thesis using set_dec_nat [of "nat (- i)"] by blast
next
  case False
  then have "set (fmt_d i) = set (dec_nat (nat i))"
    by (simp add: fmt_d_def)
  then show ?thesis using set_dec_nat [of "nat i"] by blast
qed

text \<open>\<open>Atoi\<close> always returns a value a 64-bit \<open>int\<close> holds.\<close>

lemma parse_mag_lower: "- (2 ^ 63) \<le> parse_mag neg s"
  by (auto simp: parse_mag_def split: sum.splits num_error.splits)

lemma parse_mag_upper: "parse_mag neg s < 2 ^ 63"
  by (auto simp: parse_mag_def split: sum.splits num_error.splits)

lemma strconv_Atoi_range: "- (2 ^ 63) \<le> strconv_Atoi s \<and> strconv_Atoi s < 2 ^ 63"
  using parse_mag_lower parse_mag_upper
  by (cases s rule: strconv_Atoi.cases) (simp_all del: power_numeral)

lemmas [go_eval] = digit_char_def digit_val_def dec_nat.simps fmt_d_def parse_mag_def
  str_HasPrefix_def str_TrimPrefix_def

end
