(* ===== verification/Go_Net.thy ===== *)
theory Go_Net
  imports Go_Strings
begin

text \<open>
  The address functions of package \<open>net\<close> the program calls: \<open>net.SplitHostPort\<close>, with the
  lemmas that invert it, and \<open>net.ParseIP\<close>, of which the program uses only whether the text
  is an IP address (the versions of the library that accept leading zeros, as the one of
  \<open>go.mod\<close> does).
\<close>

section \<open>Splitting host and port\<close>

fun last_index :: "char \<Rightarrow> string \<Rightarrow> nat option" where
  "last_index c [] = None"
| "last_index c (x # xs) =
     (case last_index c xs of
        Some i \<Rightarrow> Some (Suc i)
      | None \<Rightarrow> if x = c then Some 0 else None)"

fun first_index :: "char \<Rightarrow> string \<Rightarrow> nat option" where
  "first_index c [] = None"
| "first_index c (x # xs) = (if x = c then Some 0 else map_option Suc (first_index c xs))"

definition addr_error :: "string \<Rightarrow> string \<Rightarrow> go_error" where
  "addr_error a why = Err (if a = [] then why else ''address '' @ a @ '': '' @ why)"

text \<open>
  \<open>net.SplitHostPort\<close>. The port starts after the last colon; a host in square brackets may
  hold colons; no bracket may occur elsewhere.
\<close>

definition split_finish ::
    "string \<Rightarrow> string \<Rightarrow> nat \<Rightarrow> nat \<Rightarrow> nat \<Rightarrow> go_error + string \<times> string" where
  "split_finish hp host j k i =
     (if CHR ''['' \<in> set (drop j hp) then Inl (addr_error hp ''unexpected '[' in address'')
      else if CHR '']'' \<in> set (drop k hp) then Inl (addr_error hp ''unexpected ']' in address'')
      else Inr (host, drop (i + 1) hp))"

definition SplitHostPort :: "string \<Rightarrow> go_error + string \<times> string" where
  "SplitHostPort hp =
     (case last_index (CHR '':'') hp of
        None \<Rightarrow> Inl (addr_error hp ''missing port in address'')
      | Some i \<Rightarrow>
          if hd hp = CHR ''['' then
            (case first_index (CHR '']'') hp of
               None \<Rightarrow> Inl (addr_error hp ''missing ']' in address'')
             | Some e \<Rightarrow>
                 if e + 1 = length hp then Inl (addr_error hp ''missing port in address'')
                 else if e + 1 = i then split_finish hp (take (e - 1) (drop 1 hp)) 1 (e + 1) i
                 else if hp ! (e + 1) = CHR '':'' then Inl (addr_error hp ''too many colons in address'')
                 else Inl (addr_error hp ''missing port in address''))
          else if CHR '':'' \<in> set (take i hp) then Inl (addr_error hp ''too many colons in address'')
          else split_finish hp (take i hp) 0 0 i)"

text \<open>The call with its error dropped, \<open>host, port, _ := net.SplitHostPort(addr)\<close>.\<close>

definition SplitHostPort0 :: "string \<Rightarrow> string \<times> string" where
  "SplitHostPort0 hp = (case SplitHostPort hp of Inl _ \<Rightarrow> ([], []) | Inr r \<Rightarrow> r)"

section \<open>IP addresses\<close>

definition hex_val :: "char \<Rightarrow> nat option" where
  "hex_val c =
     (let n = (of_char c :: nat) in
      if 48 \<le> n \<and> n \<le> 57 then Some (n - 48)
      else if 97 \<le> n \<and> n \<le> 102 then Some (n - 87)
      else if 65 \<le> n \<and> n \<le> 70 then Some (n - 55) else None)"

text \<open>\<open>dtoi\<close> and \<open>xtoi\<close> of package \<open>net\<close>: the number at the front and what follows it.\<close>

fun scan_num :: "(char \<Rightarrow> nat option) \<Rightarrow> nat \<Rightarrow> nat \<Rightarrow> string \<Rightarrow> (nat \<times> string) option" where
  "scan_num dv b n [] = Some (n, [])"
| "scan_num dv b n (c # cs) =
     (case dv c of
        None \<Rightarrow> Some (n, c # cs)
      | Some d \<Rightarrow> if n * b + d \<ge> 0xFFFFFF then None else scan_num dv b (n * b + d) cs)"

definition num_front :: "(char \<Rightarrow> nat option) \<Rightarrow> nat \<Rightarrow> string \<Rightarrow> (nat \<times> string) option" where
  "num_front dv b s =
     (case s of [] \<Rightarrow> None | c # _ \<Rightarrow> if dv c = None then None else scan_num dv b 0 s)"

definition v4_octet :: "string \<Rightarrow> string option" where
  "v4_octet s =
     (case num_front digit_val 10 s of
        None \<Rightarrow> None
      | Some (n, r) \<Rightarrow> if n > 0xFF then None else Some r)"

fun v4_rest :: "nat \<Rightarrow> string \<Rightarrow> bool" where
  "v4_rest 0 s = (s = [])"
| "v4_rest (Suc k) [] = False"
| "v4_rest (Suc k) (c # s) =
     (c = CHR ''.'' \<and> (case v4_octet s of None \<Rightarrow> False | Some r \<Rightarrow> v4_rest k r))"

definition parseIPv4 :: "string \<Rightarrow> bool" where
  "parseIPv4 s = (case v4_octet s of None \<Rightarrow> False | Some r \<Rightarrow> v4_rest 3 r)"

text \<open>
  The loop of \<open>parseIPv6\<close>: \<open>k\<close> 16-bit chunks are still to come, so \<open>16 - 2 * k\<close> bytes are
  filled; the result is the number of bytes filled, the position of the ellipsis and the
  rest of the text.
\<close>

fun v6_loop :: "nat \<Rightarrow> nat option \<Rightarrow> string \<Rightarrow> (nat \<times> nat option \<times> string) option" where
  "v6_loop 0 ell s = Some (16, ell, s)"
| "v6_loop (Suc k) ell s =
     (let i = 16 - 2 * Suc k in
      case num_front hex_val 16 s of
        None \<Rightarrow> None
      | Some (n, r) \<Rightarrow>
          if n > 0xFFFF then None
          else if r \<noteq> [] \<and> hd r = CHR ''.'' then
            (if ell = None \<and> i \<noteq> 12 \<or> i + 4 > 16 \<or> \<not> parseIPv4 s then None
             else Some (i + 4, ell, []))
          else if r = [] then Some (i + 2, ell, [])
          else if hd r \<noteq> CHR '':'' \<or> length r = 1 then None
          else if hd (tl r) = CHR '':'' then
            (if ell \<noteq> None then None
             else if tl (tl r) = [] then Some (i + 2, Some (i + 2), [])
             else v6_loop k (Some (i + 2)) (tl (tl r)))
          else v6_loop k ell (tl r))"

definition parseIPv6 :: "string \<Rightarrow> bool" where
  "parseIPv6 s =
     (let lead = prefix ''::'' s; s1 = (if lead then drop 2 s else s) in
      if lead \<and> s1 = [] then True
      else (case v6_loop 8 (if lead then Some 0 else None) s1 of
              None \<Rightarrow> False
            | Some (i, ell, r) \<Rightarrow> r = [] \<and> (if i < 16 then ell \<noteq> None else ell = None)))"

text \<open>\<open>net.ParseIP(s) != nil\<close>: the first dot or colon decides the kind of address.\<close>

definition ParseIP :: "string \<Rightarrow> bool" where
  "ParseIP s =
     (case find (\<lambda>c. c = CHR ''.'' \<or> c = CHR '':'') s of
        None \<Rightarrow> False
      | Some c \<Rightarrow> if c = CHR ''.'' then parseIPv4 s else parseIPv6 s)"

section \<open>Facts about splitting\<close>

lemma last_index_None: "last_index c s = None \<longleftrightarrow> c \<notin> set s"
  by (induction s) (auto split: option.splits)

lemma last_index_append [simp]: "c \<notin> set b \<Longrightarrow> last_index c (a @ c # b) = Some (length a)"
  by (induction a) (auto simp: last_index_None [THEN iffD2])

lemma last_index_Some:
  "last_index c s = Some i \<Longrightarrow> s = take i s @ c # drop (Suc i) s \<and> c \<notin> set (drop (Suc i) s)"
  by (induction s arbitrary: i) (auto simp: last_index_None split: option.splits if_splits)

lemma first_index_Some:
  "first_index c s = Some i \<Longrightarrow> s = take i s @ c # drop (Suc i) s \<and> c \<notin> set (take i s)"
  by (induction s arbitrary: i) (auto split: if_splits)

text \<open>The bytes that \<open>SplitHostPort\<close> treats specially.\<close>

definition addr_plain :: "string \<Rightarrow> bool" where
  "addr_plain s \<longleftrightarrow> CHR '':'' \<notin> set s \<and> CHR ''['' \<notin> set s \<and> CHR '']'' \<notin> set s"

lemma addr_plain_simps [simp]:
  "addr_plain []"
  "addr_plain (a @ b) \<longleftrightarrow> addr_plain a \<and> addr_plain b"
  by (auto simp: addr_plain_def)

lemma addr_plain_fmt_d [simp]: "addr_plain (fmt_d i)"
  using set_fmt_d [of i] by (auto simp: addr_plain_def)

text \<open>\<open>host:port\<close> splits into what it was made of.\<close>

lemma SplitHostPort_join [simp]:
  "addr_plain h \<Longrightarrow> addr_plain p \<Longrightarrow> SplitHostPort (h @ CHR '':'' # p) = Inr (h, p)"
  by (cases h)
    (auto simp: SplitHostPort_def split_finish_def addr_plain_def last_index_None [THEN iffD2])

lemma SplitHostPort0_join [simp]:
  "addr_plain h \<Longrightarrow> addr_plain p \<Longrightarrow> SplitHostPort0 (h @ CHR '':'' # p) = (h, p)"
  by (simp add: SplitHostPort0_def)

text \<open>What a successful split says of its argument: it is \<open>host:port\<close> or \<open>[host]:port\<close>.\<close>

lemma split_finish_Inr:
  "split_finish hp host j k i = Inr (h, p) \<longleftrightarrow>
     CHR ''['' \<notin> set (drop j hp) \<and> CHR '']'' \<notin> set (drop k hp) \<and>
     h = host \<and> p = drop (Suc i) hp"
  by (auto simp: split_finish_def)

lemma SplitHostPort_cases:
  assumes "SplitHostPort hp = Inr (h, p)"
  obtains
    (plain) i where "last_index (CHR '':'') hp = Some i" "hd hp \<noteq> CHR ''[''"
      "CHR '':'' \<notin> set (take i hp)" "split_finish hp (take i hp) 0 0 i = Inr (h, p)"
  | (bracket) e where "last_index (CHR '':'') hp = Some (e + 1)" "hd hp = CHR ''[''"
      "first_index (CHR '']'') hp = Some e"
      "split_finish hp (take (e - 1) (drop 1 hp)) 1 (e + 1) (e + 1) = Inr (h, p)"
  using assms unfolding SplitHostPort_def
  by (auto split: option.splits if_splits)

lemma SplitHostPort_inv:
  assumes "SplitHostPort hp = Inr (h, p)"
  shows "addr_plain p \<and> (addr_plain h \<and> hp = h @ CHR '':'' # p \<or> hp = ''['' @ h @ '']:'' @ p)"
  using assms
proof (cases rule: SplitHostPort_cases)
  case (plain i)
  from last_index_Some [OF plain(1)] plain(3,4) show ?thesis
    by (auto simp: split_finish_Inr addr_plain_def dest: in_set_dropD in_set_takeD)
next
  case (bracket e)
  from bracket(3) have e: "hp = take e hp @ CHR '']'' # drop (Suc e) hp" "CHR '']'' \<notin> set (take e hp)"
    using first_index_Some by blast+
  from last_index_Some [OF bracket(1)]
  have c: "hp = take (Suc e) hp @ CHR '':'' # drop (Suc (Suc e)) hp"
      "CHR '':'' \<notin> set (drop (Suc (Suc e)) hp)" by simp_all
  from bracket(2,3) have "e \<noteq> 0" by (cases hp) (auto split: if_splits)
  with e(1) have "hp \<noteq> []" by auto
  then have hd: "hp = CHR ''['' # tl hp" using bracket(2) by (cases hp) auto
  have t: "take e hp = CHR ''['' # take (e - 1) (tl hp)"
    using \<open>e \<noteq> 0\<close> hd by (cases e; cases hp) auto
  have d: "drop (Suc e) hp = CHR '':'' # drop (Suc (Suc e)) hp"
    using c(1) by (metis Cons_nth_drop_Suc append_eq_conv_conj append_take_drop_id)
  have hpp: "h = take (e - 1) (tl hp)" "p = drop (Suc (Suc e)) hp"
      "CHR ''['' \<notin> set (tl hp)" "CHR '']'' \<notin> set (drop (Suc e) hp)"
    using bracket(4) by (auto simp: split_finish_Inr drop_Suc)
  have "hp = ''['' @ h @ '']:'' @ p"
    using e(1) t d hpp(1,2) by simp
  moreover have "addr_plain p"
    using c(2) hpp d
    by (auto simp: addr_plain_def drop_Suc dest: in_set_dropD intro: list.set_sel(2))
  ultimately show ?thesis by simp
qed

end
