(* ===== verification/Hraftd_Model.thy ===== *)
theory Hraftd_Model
  imports Go_Net
begin

text \<open>
  The data of \<open>model.go\<close>, the HTTP paths of \<open>const.go\<close>, the string helpers of \<open>util.go\<close> and
  the methods of \<open>NodeID\<close> and \<open>BindAddr\<close> from \<open>arg.go\<close>. A struct is a record whose fields
  carry the struct's name as a prefix (\<open>peer_ID\<close> for \<open>Peer.ID\<close>), since two structs share
  field names.
\<close>

section \<open>Paths and helpers\<close>

definition RaftPath :: string where "RaftPath = ''/hraftd/raft''"
definition KeyPath :: string where "KeyPath = ''/hraftd/key''"
definition DoJobPath :: string where "DoJobPath = ''/hraftd/dojob''"

definition EmptyThen :: "string \<Rightarrow> string \<Rightarrow> string" where
  "EmptyThen s t = (if s = [] then t else s)"

definition EqualsThen :: "string \<Rightarrow> string \<Rightarrow> string \<Rightarrow> string" where
  "EqualsThen s e t = (if s = e then t else s)"

definition If_str :: "bool \<Rightarrow> string \<Rightarrow> string \<Rightarrow> string" where
  "If_str i s t = (if i then s else t)"

section \<open>Structures\<close>

type_synonym NodeID = string

definition StateLeader :: string where "StateLeader = ''Leader''"
definition StateFollower :: string where "StateFollower = ''Follower''"

record Peer =
  peer_Address :: string
  peer_ID :: NodeID
  peer_State :: string
  peer_Suffrage :: string

definition zero_Peer :: Peer where
  "zero_Peer = \<lparr>peer_Address = [], peer_ID = [], peer_State = [], peer_Suffrage = []\<rparr>"

fun AnyStateOf :: "Peer \<Rightarrow> string list \<Rightarrow> bool" where
  "AnyStateOf p [] = False"
| "AnyStateOf p (state # states) = (if peer_State p = state then True else AnyStateOf p states)"

definition IsActive :: "Peer \<Rightarrow> bool" where
  "IsActive p = AnyStateOf p [StateLeader, StateFollower]"

record RaftCluster =
  rc_Current :: Peer
  rc_Leader :: Peer
  rc_Servers :: "Peer list"

definition zero_RaftCluster :: RaftCluster where
  "zero_RaftCluster = \<lparr>rc_Current = zero_Peer, rc_Leader = zero_Peer, rc_Servers = []\<rparr>"

fun active_loop :: "Peer list \<Rightarrow> Peer list \<Rightarrow> Peer list" where
  "active_loop [] actives = actives"
| "active_loop (server # servers) actives =
     active_loop servers (if IsActive server then actives @ [server] else actives)"

definition ActivePeers :: "RaftCluster \<Rightarrow> Peer list" where
  "ActivePeers r = active_loop (rc_Servers r) []"

record Command =
  cmd_Op :: string
  cmd_Key :: string
  cmd_Value :: string
  cmd_Time :: string

text \<open>\<open>Data interface{}\<close> of \<open>Rsp\<close> is a value of the type parameter, \<open>None\<close> for nil.\<close>

record 'v Rsp =
  rsp_OK :: bool
  rsp_Msg :: string
  rsp_Data :: "'v option"

section \<open>Node identifiers and addresses\<close>

definition BindAddr_URL :: "string \<Rightarrow> string \<Rightarrow> string" where
  "BindAddr_URL a path =
     (let (host, port) = SplitHostPort0 a; path' = str_TrimPrefix path ''/'' in
      ''http://'' @ host @ '':'' @ port @ ''/'' @ path')"

text \<open>A node ID is \<open>httpAddr,raftAddr\<close>; \<open>RaftAddr\<close> indexes the second part and panics without one.\<close>

definition NodeID_HTTPAddr :: "NodeID \<Rightarrow> string" where
  "NodeID_HTTPAddr r = hd (str_Split (CHR '','') r)"

definition NodeID_RaftAddr :: "NodeID \<Rightarrow> string outcome" where
  "NodeID_RaftAddr r =
     (case str_Split (CHR '','') r of
        _ # x # _ \<Rightarrow> Ret x
      | _ \<Rightarrow> Panic ''runtime error: index out of range'')"

definition NodeID_URL :: "NodeID \<Rightarrow> string \<Rightarrow> string" where
  "NodeID_URL r relativePath = BindAddr_URL (NodeID_HTTPAddr r) relativePath"

definition URLRaftCluster :: "NodeID \<Rightarrow> string" where
  "URLRaftCluster r = NodeID_URL r (RaftPath @ ''/cluster'')"

definition URLRaftState :: "NodeID \<Rightarrow> string" where
  "URLRaftState r = NodeID_URL r (RaftPath @ ''/state'')"

definition NodeID_URLRaftJoin :: "NodeID \<Rightarrow> string" where
  "NodeID_URLRaftJoin r = NodeID_URL r (RaftPath @ ''/join'')"

definition BindAddr_URLRaftJoin :: "string \<Rightarrow> string" where
  "BindAddr_URLRaftJoin a = BindAddr_URL a (RaftPath @ ''/join'')"

definition NodeID_Fix :: "string \<Rightarrow> NodeID \<Rightarrow> NodeID outcome" where
  "NodeID_Fix host r =
     (let hPort = snd (SplitHostPort0 (NodeID_HTTPAddr r)) in
      obind (NodeID_RaftAddr r) (\<lambda>ra.
        let rPort = snd (SplitHostPort0 ra) in
        Ret (host @ '':'' @ hPort @ '','' @ host @ '':'' @ rPort)))"

record JoinRequest =
  jr_Addr :: string
  jr_NodeID :: NodeID

definition JoinRequest_Fix :: "string \<Rightarrow> JoinRequest \<Rightarrow> JoinRequest outcome" where
  "JoinRequest_Fix remoteAddr r =
     (let remoteHost = fst (SplitHostPort0 remoteAddr);
          host = EqualsThen remoteHost ''127.0.0.1'' [];
          port = snd (SplitHostPort0 (jr_Addr r));
          addr = host @ '':'' @ port
      in obind (NodeID_Fix host (jr_NodeID r)) (\<lambda>nid.
           Ret (r\<lparr>jr_Addr := addr, jr_NodeID := nid\<rparr>)))"

section \<open>Facts\<close>

lemma AnyStateOf_iff [simp]: "AnyStateOf p states \<longleftrightarrow> peer_State p \<in> set states"
  by (induction states) auto

lemma active_loop_filter: "active_loop servers actives = actives @ filter IsActive servers"
  by (induction servers arbitrary: actives) auto

text \<open>The parts a node ID is made of come back.\<close>

lemma NodeID_HTTPAddr_join [simp]:
  "CHR '','' \<notin> set a \<Longrightarrow> NodeID_HTTPAddr (a @ CHR '','' # b) = a"
  by (simp add: NodeID_HTTPAddr_def str_Split_append)

lemma NodeID_RaftAddr_join [simp]:
  "CHR '','' \<notin> set a \<Longrightarrow> CHR '','' \<notin> set b \<Longrightarrow> NodeID_RaftAddr (a @ CHR '','' # b) = Ret b"
  by (simp add: NodeID_RaftAddr_def str_Split_append str_Split_no_sep)

lemma NodeID_RaftAddr_no_comma [simp]:
  "CHR '','' \<notin> set r \<Longrightarrow> NodeID_RaftAddr r = Panic ''runtime error: index out of range''"
  by (simp add: NodeID_RaftAddr_def str_Split_no_sep)

text \<open>A host or port that can stand in a node ID: no comma and nothing \<open>SplitHostPort\<close> treats
  specially.\<close>

definition id_plain :: "string \<Rightarrow> bool" where
  "id_plain s \<longleftrightarrow> addr_plain s \<and> CHR '','' \<notin> set s"

lemma id_plain_simps [simp]:
  "id_plain []"
  "id_plain (a @ b) \<longleftrightarrow> id_plain a \<and> id_plain b"
  by (auto simp: id_plain_def)

lemma id_plainD: "id_plain s \<Longrightarrow> addr_plain s" "id_plain s \<Longrightarrow> CHR '','' \<notin> set s"
  by (auto simp: id_plain_def)

text \<open>\<open>host:hPort,host:rPort\<close>, the shape of every node ID the program makes.\<close>

definition mk_NodeID :: "string \<Rightarrow> string \<Rightarrow> string \<Rightarrow> NodeID" where
  "mk_NodeID host hPort rPort = host @ '':'' @ hPort @ '','' @ host @ '':'' @ rPort"

lemma mk_NodeID_parts:
  assumes "id_plain h" "id_plain hp" "id_plain rp"
  shows "NodeID_HTTPAddr (mk_NodeID h hp rp) = h @ '':'' @ hp"
    and "NodeID_RaftAddr (mk_NodeID h hp rp) = Ret (h @ '':'' @ rp)"
  using assms NodeID_HTTPAddr_join [of "h @ '':'' @ hp" "h @ '':'' @ rp"]
    NodeID_RaftAddr_join [of "h @ '':'' @ hp" "h @ '':'' @ rp"]
  by (auto simp: mk_NodeID_def id_plainD)

lemma NodeID_Fix_mk:
  assumes "id_plain h" "id_plain hp" "id_plain rp"
  shows "NodeID_Fix host (mk_NodeID h hp rp) = Ret (mk_NodeID host hp rp)"
  using assms by (simp add: NodeID_Fix_def mk_NodeID_parts id_plainD) (simp add: mk_NodeID_def)

end
