(* ===== verification/Go_Reflect.thy ===== *)
theory Go_Reflect
  imports Go_Prelude
begin

text \<open>
  The part of package \<open>reflect\<close> that \<open>distribute.go\<close> and \<open>job.go\<close> inspect: the shape of a
  type. Which interfaces a named type implements is decided by the code that declares the
  type, so it is a parameter \<open>implements\<close> of the definitions that ask. An \<open>interface{}\<close> that
  holds nil has no dynamic type: \<^term>\<open>None\<close>.
\<close>

datatype go_type =
    TNamed string
  | TPtr go_type
  | TSlice go_type
  | TFunc "go_type list" "go_type list"

abbreviation error_type :: go_type where
  "error_type \<equiv> TNamed ''error''"

definition nil_panic :: string where
  "nil_panic = ''runtime error: invalid memory address or nil pointer dereference''"

definition is_func :: "go_type \<Rightarrow> bool" where
  "is_func t = (case t of TFunc _ _ \<Rightarrow> True | _ \<Rightarrow> False)"

end
