(* ===== verification/Distributor.thy ===== *)
theory Distributor
  imports Hraftd_Model Go_Reflect "HOL-Library.Multiset"
begin

text \<open>
  \<open>distribute.go\<close>: the distributor shares items out among the peers of a cluster. It first
  keeps the items that already have a living peer (\<open>StickyMap\<close>), then gives the others to
  the first peer whose quota is not used up.

  The items are values of a type \<open>'i\<close> whose \<open>ID\<close> method is the parameter \<open>ident\<close>; the
  receiver that \<open>Distribute\<close> makes for a node and an item, a value of the caller's type, is
  \<open>ap rt node item\<close>. A Go map read without the key gives the zero value: the map of quotas
  is a total function, the sticky map is read by \<open>sticky_get\<close>.
\<close>

section \<open>The code\<close>

record Distributor =
  StickyMap :: "string \<rightharpoonup> NodeID"

definition NewDistributor :: Distributor where
  "NewDistributor = \<lparr>StickyMap = Map.empty\<rparr>"

definition Put :: "string \<Rightarrow> NodeID \<Rightarrow> Distributor \<Rightarrow> Distributor" where
  "Put iid nodeID d = d\<lparr>StickyMap := (StickyMap d)(iid \<mapsto> nodeID)\<rparr>"

definition CleanSticky :: "Distributor \<Rightarrow> Distributor" where
  "CleanSticky d = d\<lparr>StickyMap := Map.empty\<rparr>"

definition sticky_get :: "Distributor \<Rightarrow> string \<Rightarrow> NodeID" where
  "sticky_get d iid = (case StickyMap d iid of None \<Rightarrow> [] | Some n \<Rightarrow> n)"

definition checkReceiverType ::
    "(go_type \<Rightarrow> string \<Rightarrow> bool) \<Rightarrow> go_type option \<Rightarrow> go_type outcome" where
  "checkReceiverType implements emptyReceiver =
     (case emptyReceiver of
        None \<Rightarrow> Panic nil_panic
      | Some t \<Rightarrow>
          let (rt, rtPtr) = (case t of TPtr e \<Rightarrow> (e, t) | _ \<Rightarrow> (t, TPtr t)) in
          if \<not> implements rtPtr ''DistributedApplier''
          then Panic ''receiver type should implement *DistributedApplier''
          else Ret rt)"

definition checkDataType ::
    "(go_type \<Rightarrow> string \<Rightarrow> bool) \<Rightarrow> (go_type \<times> 'i list) option \<Rightarrow> 'i list outcome" where
  "checkDataType implements data =
     (case data of
        None \<Rightarrow> Panic ''reflect: call of reflect.Value.Type on zero Value''
      | Some (t, items) \<Rightarrow>
          (case t of
             TSlice e \<Rightarrow>
               if \<not> implements e ''Identifier'' then Panic ''data should implements Identifier''
               else Ret items
           | _ \<Rightarrow> Panic ''data should be slice''))"

text \<open>
  The deletions of \<open>cleanKeysNotIn\<close> while it ranges over the map: each entry is visited once
  and deleted when its node is no key of \<open>peersMap\<close>. \<open>clean_loop\<close> is the loop in an order
  \<open>iids\<close> of the runtime's choice.
\<close>

definition peers_set :: "Peer list \<Rightarrow> NodeID \<rightharpoonup> bool" where
  "peers_set peers = fold (\<lambda>p m. m(peer_ID p \<mapsto> True)) peers Map.empty"

fun clean_loop :: "(NodeID \<rightharpoonup> bool) \<Rightarrow> string list \<Rightarrow> (string \<rightharpoonup> NodeID) \<Rightarrow> (string \<rightharpoonup> NodeID)" where
  "clean_loop peersMap [] m = m"
| "clean_loop peersMap (iid # iids) m =
     clean_loop peersMap iids
       (case m iid of
          None \<Rightarrow> m
        | Some nodeID \<Rightarrow> if peersMap nodeID = None then m(iid := None) else m)"

definition cleanKeysNotIn :: "Peer list \<Rightarrow> Distributor \<Rightarrow> Distributor" where
  "cleanKeysNotIn peers d =
     d\<lparr>StickyMap := (\<lambda>iid. case StickyMap d iid of
         None \<Rightarrow> None
       | Some nodeID \<Rightarrow> if peers_set peers nodeID = None then None else Some nodeID)\<rparr>"

definition makePeersMap :: "Peer list \<Rightarrow> nat \<Rightarrow> (NodeID \<Rightarrow> int) outcome" where
  "makePeersMap peers dataLen =
     (if dataLen > 0 \<and> peers = [] then Panic ''runtime error: integer divide by zero''
      else Ret (fold (\<lambda>i num.
          let p = peers ! (i mod length peers) in num(peer_ID p := num (peer_ID p) + 1))
        [0..<dataLen] (\<lambda>_. 0)))"

text \<open>The first loop of \<open>Distribute\<close>: keep what is sticky, collect the rest in \<open>newItems\<close>.\<close>

fun sticky_pass ::
    "('i \<Rightarrow> string) \<Rightarrow> (NodeID \<Rightarrow> 'i \<Rightarrow> 'r) \<Rightarrow> Distributor \<Rightarrow> 'i list \<Rightarrow>
     (NodeID \<Rightarrow> int) \<times> 'r list \<times> 'i list \<Rightarrow> (NodeID \<Rightarrow> int) \<times> 'r list \<times> 'i list" where
  "sticky_pass ident ap d [] st = st"
| "sticky_pass ident ap d (item # items) (num, distributed, newItems) =
     (let nodeID = sticky_get d (ident item) in
      if nodeID \<noteq> [] then
        sticky_pass ident ap d items
          (num(nodeID := num nodeID - 1), distributed @ [ap nodeID item], newItems)
      else sticky_pass ident ap d items (num, distributed, newItems @ [item]))"

text \<open>The inner loop over the peers stops at the first one with quota left.\<close>

fun pick_peer :: "(NodeID \<Rightarrow> int) \<Rightarrow> Peer list \<Rightarrow> NodeID option" where
  "pick_peer num [] = None"
| "pick_peer num (peer # peers) =
     (if num (peer_ID peer) \<le> 0 then pick_peer num peers else Some (peer_ID peer))"

fun new_pass ::
    "('i \<Rightarrow> string) \<Rightarrow> (NodeID \<Rightarrow> 'i \<Rightarrow> 'r) \<Rightarrow> Peer list \<Rightarrow> 'i list \<Rightarrow>
     (NodeID \<Rightarrow> int) \<times> 'r list \<times> Distributor \<Rightarrow> (NodeID \<Rightarrow> int) \<times> 'r list \<times> Distributor" where
  "new_pass ident ap peers [] st = st"
| "new_pass ident ap peers (item # items) (num, distributed, d) =
     (case pick_peer num peers of
        None \<Rightarrow> new_pass ident ap peers items (num, distributed, d)
      | Some n \<Rightarrow> new_pass ident ap peers items
          (num(n := num n - 1), distributed @ [ap n item], Put (ident item) n d))"

text \<open>
  The whole call: the result and the distributor after it. A panic leaves the distributor as
  the statements before it made it.
\<close>

definition Distribute ::
    "(go_type \<Rightarrow> string \<Rightarrow> bool) \<Rightarrow> ('i \<Rightarrow> string) \<Rightarrow> (go_type \<Rightarrow> NodeID \<Rightarrow> 'i \<Rightarrow> 'r) \<Rightarrow>
     Peer list \<Rightarrow> (go_type \<times> 'i list) option \<Rightarrow> go_type option \<Rightarrow> Distributor \<Rightarrow>
     'r list outcome \<times> Distributor" where
  "Distribute implements ident ap peers data emptyReceiver d =
     (case checkReceiverType implements emptyReceiver of
        Panic e \<Rightarrow> (Panic e, d)
      | Ret rt \<Rightarrow>
          (case checkDataType implements data of
             Panic e \<Rightarrow> (Panic e, d)
           | Ret items \<Rightarrow>
               let d1 = cleanKeysNotIn peers d in
               (case makePeersMap peers (length items) of
                  Panic e \<Rightarrow> (Panic e, d1)
                | Ret num \<Rightarrow>
                    let (num1, distributed, newItems) = sticky_pass ident (ap rt) d1 items (num, [], []);
                        (num2, distributed2, d2) = new_pass ident (ap rt) peers newItems (num1, distributed, d1)
                    in (Ret distributed2, d2))))"

section \<open>The sticky map\<close>

abbreviation peer_IDs :: "Peer list \<Rightarrow> NodeID set" where
  "peer_IDs peers \<equiv> peer_ID ` set peers"

lemma peers_set_fold:
  "fold (\<lambda>p m. m(peer_ID p \<mapsto> True)) peers m n = (if n \<in> peer_IDs peers then Some True else m n)"
  by (induction peers arbitrary: m) auto

lemma peers_set_iff: "peers_set peers n = None \<longleftrightarrow> n \<notin> peer_IDs peers"
  by (simp add: peers_set_def peers_set_fold)

lemma clean_loop_at:
  "clean_loop pm iids m iid =
     (case m iid of
        None \<Rightarrow> None
      | Some n \<Rightarrow> if iid \<in> set iids \<and> pm n = None then None else Some n)"
  by (induction iids arbitrary: m) (auto split: option.splits if_splits)

lemma StickyMap_clean:
  "StickyMap (cleanKeysNotIn peers d) iid = Some n \<longleftrightarrow>
     StickyMap d iid = Some n \<and> n \<in> peer_IDs peers"
  by (auto simp: cleanKeysNotIn_def peers_set_iff split: option.splits)

lemma sticky_get_clean:
  "sticky_get (cleanKeysNotIn peers d) iid =
     (if sticky_get d iid \<in> peer_IDs peers then sticky_get d iid else [])"
  by (auto simp: sticky_get_def cleanKeysNotIn_def peers_set_iff split: option.splits)

lemma sticky_get_Put: "sticky_get (Put iid n d) j = (if j = iid then n else sticky_get d j)"
  by (simp add: sticky_get_def Put_def)

section \<open>The two passes\<close>

text \<open>What the passes compute, said without accumulators.\<close>

abbreviation is_sticky :: "('i \<Rightarrow> string) \<Rightarrow> Distributor \<Rightarrow> 'i \<Rightarrow> bool" where
  "is_sticky ident d i \<equiv> sticky_get d (ident i) \<noteq> []"

definition sticky_asg :: "('i \<Rightarrow> string) \<Rightarrow> Distributor \<Rightarrow> 'i list \<Rightarrow> (NodeID \<times> 'i) list" where
  "sticky_asg ident d items = map (\<lambda>i. (sticky_get d (ident i), i)) (filter (is_sticky ident d) items)"

text \<open>How many of a list of assignments go to a node.\<close>

definition share :: "(NodeID \<times> 'i) list \<Rightarrow> NodeID \<Rightarrow> nat" where
  "share asg n = length (filter (\<lambda>a. fst a = n) asg)"

lemma share_simps [simp]:
  "share [] n = 0"
  "share (a # asg) n = (if fst a = n then Suc (share asg n) else share asg n)"
  "share (asg @ asg') n = share asg n + share asg' n"
  by (auto simp: share_def)

lemma sum_share: "finite A \<Longrightarrow> fst ` set asg \<subseteq> A \<Longrightarrow> (\<Sum>n\<in>A. share asg n) = length asg"
proof (induction asg)
  case (Cons a asg)
  have "(\<Sum>n\<in>A. share (a # asg) n) = (\<Sum>n\<in>A. share asg n + (if fst a = n then 1 else 0))"
    by (rule sum.cong) auto
  also have "\<dots> = (\<Sum>n\<in>A. share asg n) + 1"
    using Cons.prems by (subst sum.distrib) simp
  finally show ?case using Cons by simp
qed simp

text \<open>Two functions of which one is below the other and whose sums agree are equal.\<close>

lemma sum_le_eq:
  fixes f g :: "'a \<Rightarrow> nat"
  assumes "finite A" "\<And>x. f x \<le> g x" "sum f A = sum g A" "a \<in> A"
  shows "f a = g a"
proof (rule ccontr)
  assume "f a \<noteq> g a"
  with assms(2) [of a] have "f a < g a" by simp
  then have "sum f A < sum g A"
    using assms(1,2,4) by (intro sum_strict_mono_ex1) auto
  with assms(3) show False by simp
qed

lemma sticky_pass_eq:
  "sticky_pass ident ap d items (num, dist, new) =
     (\<lambda>n. num n - int (share (sticky_asg ident d items) n),
      dist @ map (\<lambda>(n, i). ap n i) (sticky_asg ident d items),
      new @ filter (\<lambda>i. \<not> is_sticky ident d i) items)"
  by (induction items arbitrary: num dist new) (auto simp: sticky_asg_def Let_def fun_eq_iff)

text \<open>The assignments \<open>new_pass\<close> makes, in order.\<close>

fun new_asg :: "(NodeID \<Rightarrow> int) \<Rightarrow> Peer list \<Rightarrow> 'i list \<Rightarrow> (NodeID \<times> 'i) list" where
  "new_asg num peers [] = []"
| "new_asg num peers (item # items) =
     (case pick_peer num peers of
        None \<Rightarrow> new_asg num peers items
      | Some n \<Rightarrow> (n, item) # new_asg (num(n := num n - 1)) peers items)"

definition put_all :: "('i \<Rightarrow> string) \<Rightarrow> (NodeID \<times> 'i) list \<Rightarrow> Distributor \<Rightarrow> Distributor" where
  "put_all ident asg d = fold (\<lambda>(n, i). Put (ident i) n) asg d"

lemma new_pass_eq:
  "snd (new_pass ident ap peers items (num, dist, d)) =
     (dist @ map (\<lambda>(n, i). ap n i) (new_asg num peers items),
      put_all ident (new_asg num peers items) d)"
  by (induction items arbitrary: num dist d) (auto simp: put_all_def split: option.splits)

lemma pick_peer_Some:
  "pick_peer num peers = Some n \<Longrightarrow> n \<in> peer_IDs peers \<and> 0 < num n"
  by (induction peers) (auto split: if_splits)

lemma pick_peer_None: "pick_peer num peers = None \<longleftrightarrow> (\<forall>n \<in> peer_IDs peers. num n \<le> 0)"
  by (induction peers) auto

lemma new_asg_peers: "fst ` set (new_asg num peers items) \<subseteq> peer_IDs peers"
  by (induction items arbitrary: num) (auto dest: pick_peer_Some split: option.splits)

text \<open>The capacity left: the quotas that are not used up.\<close>

definition capacity :: "(NodeID \<Rightarrow> int) \<Rightarrow> Peer list \<Rightarrow> int" where
  "capacity num peers = (\<Sum>n \<in> peer_IDs peers. max 0 (num n))"

lemma capacity_pos: "0 < capacity num peers \<Longrightarrow> pick_peer num peers \<noteq> None"
proof
  assume pos: "0 < capacity num peers" and "pick_peer num peers = None"
  then have "\<forall>n \<in> peer_IDs peers. max 0 (num n) = 0"
    by (auto simp: pick_peer_None)
  then have "capacity num peers = 0"
    unfolding capacity_def by (intro sum.neutral)
  with pos show False by simp
qed

lemma capacity_take:
  assumes "pick_peer num peers = Some n"
  shows "capacity (num(n := num n - 1)) peers = capacity num peers - 1"
proof -
  from assms have n: "n \<in> peer_IDs peers" "0 < num n" by (auto dest: pick_peer_Some)
  have "(\<Sum>m \<in> peer_IDs peers. max 0 ((num(n := num n - 1)) m))
      = (\<Sum>m \<in> peer_IDs peers. max 0 (num m) - (if m = n then 1 else 0))"
    using n(2) by (intro sum.cong) auto
  with n(1) show ?thesis by (simp add: capacity_def sum_subtractf)
qed

text \<open>With capacity for all of them, every new item finds a peer.\<close>

lemma new_asg_all:
  "int (length items) \<le> capacity num peers \<Longrightarrow> map snd (new_asg num peers items) = items"
proof (induction items arbitrary: num)
  case (Cons item items)
  then have "pick_peer num peers \<noteq> None" by (intro capacity_pos) simp
  then obtain n where n: "pick_peer num peers = Some n" by blast
  from Cons.prems have "int (length items) \<le> capacity (num(n := num n - 1)) peers"
    by (simp add: capacity_take [OF n])
  from Cons.IH [OF this] n show ?case by (simp del: fun_upd_apply)
qed simp

text \<open>No peer is given more new items than its quota leaves room for.\<close>

lemma share_new_asg: "int (share (new_asg num peers items) n) \<le> max 0 (num n)"
proof (induction items arbitrary: num)
  case (Cons item items)
  show ?case
  proof (cases "pick_peer num peers")
    case (Some m)
    from Cons [of "num(m := num m - 1)"] pick_peer_Some [OF Some] show ?thesis
      unfolding Some new_asg.simps option.case share_simps 
      by (cases "m = n") (simp_all add: fun_upd_def)
  qed (use Cons in simp)
qed simp

section \<open>The quotas\<close>

text \<open>Round robin over the peers, the assignment whose shares are the quotas.\<close>

definition rr_asg :: "Peer list \<Rightarrow> nat \<Rightarrow> (NodeID \<times> nat) list" where
  "rr_asg peers L = map (\<lambda>i. (peer_ID (peers ! (i mod length peers)), i)) [0..<L]"

abbreviation quota :: "Peer list \<Rightarrow> nat \<Rightarrow> NodeID \<Rightarrow> nat" where
  "quota peers L n \<equiv> share (rr_asg peers L) n"

lemma rr_asg_Suc: "rr_asg peers (Suc L) = rr_asg peers L @ [(peer_ID (peers ! (L mod length peers)), L)]"
  by (simp add: rr_asg_def)

lemma quota_fold:
  "fold (\<lambda>i num. let p = peers ! (i mod length peers) in num(peer_ID p := num (peer_ID p) + 1))
     [0..<L] (\<lambda>_. 0) = (\<lambda>n. int (quota peers L n))"
proof (induction L)
  case (Suc L)
  then show ?case by (auto simp: rr_asg_Suc Let_def fun_eq_iff)
qed (simp add: rr_asg_def)

lemma makePeersMap_eq:
  "L = 0 \<or> peers \<noteq> [] \<Longrightarrow> makePeersMap peers L = Ret (\<lambda>n. int (quota peers L n))"
  by (auto simp: makePeersMap_def quota_fold simp del: fold.simps)

lemma rr_asg_peers: "peers \<noteq> [] \<Longrightarrow> fst ` set (rr_asg peers L) \<subseteq> peer_IDs peers"
  by (auto simp: rr_asg_def)

lemma sum_quota: "peers \<noteq> [] \<Longrightarrow> (\<Sum>n \<in> peer_IDs peers. quota peers L n) = L"
  using sum_share [of "peer_IDs peers" "rr_asg peers L"] by (simp add: rr_asg_peers) (simp add: rr_asg_def)

text \<open>With distinct node IDs every peer gets the even share, the first ones one item more.\<close>

lemma quota_even:
  assumes "distinct (map peer_ID peers)" and k: "k < length peers"
  shows "quota peers L (peer_ID (peers ! k)) =
    L div length peers + (if k < L mod length peers then 1 else 0)"
proof (induction L)
  case (Suc L)
  have m: "L mod length peers < length peers" using k by (cases peers) simp_all
  have "peer_ID (peers ! (L mod length peers)) = peer_ID (peers ! k) \<longleftrightarrow> L mod length peers = k"
    using nth_eq_iff_index_eq [OF assms(1), of "L mod length peers" k] m k by simp
  with Suc m k show ?case
    by (cases "Suc (L mod length peers) = length peers") (auto simp: rr_asg_Suc div_Suc mod_Suc)
qed (simp add: rr_asg_def)

section \<open>The whole distribution\<close>

text \<open>The assignments of a call and the distributor after it, over the facts above.\<close>

definition distribute_new ::
    "('i \<Rightarrow> string) \<Rightarrow> Peer list \<Rightarrow> 'i list \<Rightarrow> Distributor \<Rightarrow> (NodeID \<times> 'i) list" where
  "distribute_new ident peers items d =
     (let d1 = cleanKeysNotIn peers d in
      new_asg (\<lambda>n. int (quota peers (length items) n) - int (share (sticky_asg ident d1 items) n))
        peers (filter (\<lambda>i. \<not> is_sticky ident d1 i) items))"

definition distribute_asg ::
    "('i \<Rightarrow> string) \<Rightarrow> Peer list \<Rightarrow> 'i list \<Rightarrow> Distributor \<Rightarrow> (NodeID \<times> 'i) list" where
  "distribute_asg ident peers items d =
     sticky_asg ident (cleanKeysNotIn peers d) items @ distribute_new ident peers items d"

lemma Distribute_eq:
  assumes "checkReceiverType implements recv = Ret rt" "checkDataType implements data = Ret items"
    and "peers \<noteq> []"
  shows "Distribute implements ident ap peers data recv d =
    (Ret (map (\<lambda>(n, i). ap rt n i) (distribute_asg ident peers items d)),
     put_all ident (distribute_new ident peers items d) (cleanKeysNotIn peers d))"
  using assms new_pass_eq [of ident "ap rt" peers]
  by (simp add: Distribute_def makePeersMap_eq sticky_pass_eq distribute_asg_def distribute_new_def
      Let_def case_prod_beta prod_eq_iff)

lemma sticky_asg_peers:
  "fst ` set (sticky_asg ident (cleanKeysNotIn peers d) items) \<subseteq> peer_IDs peers"
  by (auto simp: sticky_asg_def sticky_get_clean split: if_splits)

lemma distribute_asg_peers: "fst ` set (distribute_asg ident peers items d) \<subseteq> peer_IDs peers"
  unfolding distribute_asg_def distribute_new_def Let_def set_append image_Un
  by (intro Un_least sticky_asg_peers new_asg_peers)

lemma length_sticky_asg: "length (sticky_asg ident d items) = length (filter (is_sticky ident d) items)"
  by (simp add: sticky_asg_def)

text \<open>What the sticky pass leaves is room for every new item.\<close>

lemma capacity_left:
  assumes "peers \<noteq> []" and "d1 = cleanKeysNotIn peers d"
  shows "int (length (filter (\<lambda>i. \<not> is_sticky ident d1 i) items)) \<le>
    capacity (\<lambda>n. int (quota peers (length items) n) - int (share (sticky_asg ident d1 items) n)) peers"
proof -
  let ?s = "sticky_asg ident d1 items"
  have "(\<Sum>n \<in> peer_IDs peers. int (quota peers (length items) n) - int (share ?s n))
      = int (\<Sum>n \<in> peer_IDs peers. quota peers (length items) n)
        - int (\<Sum>n \<in> peer_IDs peers. share ?s n)"
    by (simp add: sum_subtractf)
  also have "\<dots> = int (length items) - int (length ?s)"
    using sum_quota [OF assms(1)] sum_share [of "peer_IDs peers" ?s] sticky_asg_peers assms(2)
    by (metis finite_imageI List.finite_set)
  also have "\<dots> = int (length (filter (\<lambda>i. \<not> is_sticky ident d1 i) items))"
    using length_filter_not [of "is_sticky ident d1" items] by (simp add: length_sticky_asg)
  finally show ?thesis
    unfolding capacity_def by (metis (no_types, lifting) max.cobounded2 sum_mono)
qed

lemma distribute_new_items:
  "peers \<noteq> [] \<Longrightarrow> map snd (distribute_new ident peers items d) =
     filter (\<lambda>i. \<not> is_sticky ident (cleanKeysNotIn peers d) i) items"
  unfolding distribute_new_def Let_def by (rule new_asg_all [OF capacity_left [OF _ refl]])

lemma mset_distribute_asg:
  "peers \<noteq> [] \<Longrightarrow> mset (map snd (distribute_asg ident peers items d)) = mset items"
  unfolding distribute_asg_def map_append mset_append
  by (subst distribute_new_items) (simp_all add: sticky_asg_def comp_def)

text \<open>A peer ends with no more than its quota, unless its sticky items are more already.\<close>

lemma share_distribute_asg:
  "share (distribute_asg ident peers items d) n \<le>
     max (quota peers (length items) n) (share (sticky_asg ident (cleanKeysNotIn peers d) items) n)"
proof -
  let ?s = "share (sticky_asg ident (cleanKeysNotIn peers d) items) n"
  have "int (share (distribute_new ident peers items d) n)
      \<le> max 0 (int (quota peers (length items) n) - int ?s)"
    unfolding distribute_new_def Let_def by (rule share_new_asg)
  then show ?thesis unfolding distribute_asg_def by simp
qed

section \<open>What stays from call to call\<close>

lemma sticky_get_put_all:
  "sticky_get (put_all ident asg d) iid =
     (case find (\<lambda>a. ident (snd a) = iid) (rev asg) of None \<Rightarrow> sticky_get d iid | Some a \<Rightarrow> fst a)"
proof (induction asg rule: rev_induct)
  case (snoc a asg)
  then show ?case by (cases a) (auto simp: put_all_def sticky_get_Put)
qed (simp add: put_all_def)

lemma sticky_get_put_all_other:
  "iid \<notin> ident ` snd ` set asg \<Longrightarrow> sticky_get (put_all ident asg d) iid = sticky_get d iid"
  by (force simp: sticky_get_put_all split: option.splits dest: find_SomeD)

lemma sticky_get_put_all_in:
  assumes "iid \<in> ident ` snd ` set asg"
  obtains n i where "(n, i) \<in> set asg" "ident i = iid" "sticky_get (put_all ident asg d) iid = n"
proof (cases "find (\<lambda>a. ident (snd a) = iid) (rev asg)")
  case None
  then have "\<forall>a \<in> set asg. ident (snd a) \<noteq> iid" unfolding find_None_iff by force
  with assms show ?thesis by auto
next
  case (Some a)
  with that [of "fst a" "snd a"] show ?thesis
    by (auto simp: sticky_get_put_all dest: find_SomeD)
qed

lemma StickyMap_put_all_peers:
  "(\<forall>iid n. StickyMap d iid = Some n \<longrightarrow> n \<in> P) \<Longrightarrow> fst ` set asg \<subseteq> P \<Longrightarrow>
   StickyMap (put_all ident asg d) iid = Some n \<Longrightarrow> n \<in> P"
proof (induction asg arbitrary: d)
  case (Cons a asg)
  have "\<forall>iid n. StickyMap (Put (ident (snd a)) (fst a) d) iid = Some n \<longrightarrow> n \<in> P"
    using Cons.prems by (auto simp: Put_def)
  from Cons.IH [OF this] Cons.prems show ?case
    by (auto simp: put_all_def case_prod_beta)
qed (simp add: put_all_def)

text \<open>The state a call leaves.\<close>

definition distribute_state ::
    "('i \<Rightarrow> string) \<Rightarrow> Peer list \<Rightarrow> 'i list \<Rightarrow> Distributor \<Rightarrow> Distributor" where
  "distribute_state ident peers items d =
     put_all ident (distribute_new ident peers items d) (cleanKeysNotIn peers d)"

lemma distribute_new_peers: "fst ` set (distribute_new ident peers items d) \<subseteq> peer_IDs peers"
  unfolding distribute_new_def Let_def by (rule new_asg_peers)

lemma StickyMap_state_peers:
  "StickyMap (distribute_state ident peers items d) iid = Some n \<Longrightarrow> n \<in> peer_IDs peers"
  unfolding distribute_state_def
  by (rule StickyMap_put_all_peers [OF _ distribute_new_peers])
    (auto simp: StickyMap_clean simp del: image_iff)

lemma clean_state [simp]:
  "cleanKeysNotIn peers (distribute_state ident peers items d) = distribute_state ident peers items d"
proof -
  let ?d = "distribute_state ident peers items d"
  have "StickyMap (cleanKeysNotIn peers ?d) = StickyMap ?d"
    using StickyMap_state_peers [of ident peers items d]
    by (auto simp: cleanKeysNotIn_def peers_set_iff fun_eq_iff split: option.splits)
  then show ?thesis by simp
qed

text \<open>Every item that was handed out is sticky afterwards, to the node the call gave it.\<close>

lemma state_old:
  assumes "peers \<noteq> []" "is_sticky ident (cleanKeysNotIn peers d) i"
  shows "sticky_get (distribute_state ident peers items d) (ident i) =
    sticky_get (cleanKeysNotIn peers d) (ident i)"
proof -
  have "ident i \<notin> ident ` snd ` set (distribute_new ident peers items d)"
    using assms distribute_new_items [OF assms(1), of ident items d]
    by (auto simp flip: set_map)
  then show ?thesis unfolding distribute_state_def by (rule sticky_get_put_all_other)
qed

lemma state_new:
  assumes "distinct (map ident items)" "peers \<noteq> []" "(n, i) \<in> set (distribute_new ident peers items d)"
  shows "sticky_get (distribute_state ident peers items d) (ident i) = n"
proof -
  let ?asg = "distribute_new ident peers items d"
  have dist: "distinct (map (ident \<circ> snd) ?asg)"
    using distribute_new_items [OF assms(2), of ident items d] assms(1)
    by (metis distinct_map_filter list.map_comp)
  have "ident i \<in> ident ` snd ` set ?asg" using assms(3) by force
  then obtain m j where j: "(m, j) \<in> set ?asg" "ident j = ident i"
      "sticky_get (distribute_state ident peers items d) (ident i) = m"
    unfolding distribute_state_def by (rule sticky_get_put_all_in)
  from dist assms(3) j(1,2) have "(m, j) = (n, i)"
    by (metis (mono_tags, lifting) comp_apply distinct_map inj_onD snd_conv)
  with j(3) show ?thesis by simp
qed

lemma state_all_sticky:
  assumes "peers \<noteq> []" "[] \<notin> peer_IDs peers" "i \<in> set items"
  shows "is_sticky ident (distribute_state ident peers items d) i"
proof (cases "is_sticky ident (cleanKeysNotIn peers d) i")
  case True
  with state_old [of peers d ident i items] assms(1) show ?thesis by simp
next
  case False
  let ?asg = "distribute_new ident peers items d"
  have "ident i \<in> ident ` snd ` set ?asg"
    using False assms(3) distribute_new_items [OF assms(1), of ident items d]
    by (simp flip: set_map)
  then obtain n j where "(n, j) \<in> set ?asg"
      "sticky_get (distribute_state ident peers items d) (ident i) = n"
    unfolding distribute_state_def by (rule sticky_get_put_all_in)
  with distribute_new_peers [of ident peers items d] assms(2) show ?thesis by force
qed

lemma redistribute_new:
  assumes "peers \<noteq> []" "[] \<notin> peer_IDs peers"
  shows "distribute_new ident peers items (distribute_state ident peers items d) = []"
proof -
  have none: "filter (\<lambda>i. \<not> is_sticky ident (distribute_state ident peers items d) i) items = []"
    using state_all_sticky [OF assms, of _ items ident d] by (simp add: filter_empty_conv)
  show ?thesis unfolding distribute_new_def clean_state Let_def none by simp
qed

lemma redistribute_asg:
  assumes "peers \<noteq> []" "[] \<notin> peer_IDs peers"
  shows "distribute_asg ident peers items (distribute_state ident peers items d) =
    map (\<lambda>i. (sticky_get (distribute_state ident peers items d) (ident i), i)) items"
  using state_all_sticky [OF assms, of _ items ident d]
  by (simp add: distribute_asg_def redistribute_new [OF assms] sticky_asg_def filter_id_conv)

lemma distribute_asg_state:
  assumes "distinct (map ident items)" "peers \<noteq> []" "(n, i) \<in> set (distribute_asg ident peers items d)"
  shows "n = sticky_get (distribute_state ident peers items d) (ident i)"
  using assms state_old [of peers d ident i items] state_new [of ident items peers n i d]
  by (auto simp: distribute_asg_def sticky_asg_def)

text \<open>Handing the same items out again changes nothing but the order of the result.\<close>

lemma redistribute_same:
  assumes "distinct (map ident items)" "peers \<noteq> []" "[] \<notin> peer_IDs peers"
  shows "mset (distribute_asg ident peers items (distribute_state ident peers items d)) =
    mset (distribute_asg ident peers items d)"
proof -
  let ?g = "\<lambda>i. (sticky_get (distribute_state ident peers items d) (ident i), i)"
  let ?asg = "distribute_asg ident peers items d"
  have "map (?g \<circ> snd) ?asg = ?asg"
    by (rule map_idI) (auto dest: distribute_asg_state [OF assms(1,2)])
  then have "mset ?asg = image_mset ?g (mset (map snd ?asg))"
    by (metis list.map_comp mset_map)
  also have "\<dots> = image_mset ?g (mset items)"
    by (simp only: mset_distribute_asg [OF assms(2)])
  finally show ?thesis by (simp add: redistribute_asg [OF assms(2,3)])
qed

section \<open>Properties\<close>

text \<open>
  C20. \<open>Distributor.Distribute\<close> loses and invents nothing: with a receiver and a data value of
  the right types and at least one peer it returns, the items it hands out are exactly the
  items it was given (each as often as it was given), and every node it names is a peer.
\<close>

theorem Distribute_complete:
  assumes "checkReceiverType implements recv = Ret rt" "checkDataType implements data = Ret items"
    and "peers \<noteq> []"
  shows "\<exists>asg d'. Distribute implements ident ap peers data recv d =
      (Ret (map (\<lambda>(n, i). ap rt n i) asg), d') \<and>
    mset (map snd asg) = mset items \<and> fst ` set asg \<subseteq> peer_ID ` set peers"
  using Distribute_eq [OF assms, of ident ap d] mset_distribute_asg [OF assms(3), of ident items d]
    distribute_asg_peers [of ident peers items d] by blast

definition demo_peers :: "Peer list" where
  "demo_peers = map (\<lambda>i. zero_Peer\<lparr>peer_ID := i\<rparr>) [''1'', ''2'', ''3'']"

definition demo_data :: "string list \<Rightarrow> (go_type \<times> string list) option" where
  "demo_data xs = Some (TSlice (TNamed ''dataItem''), xs)"

theorem Distribute_complete_witness:
  "\<exists>asg d'. Distribute (\<lambda>_ _. True) (\<lambda>i. i) (\<lambda>_. Pair) demo_peers (demo_data [''1'', ''2'', ''3'', ''4''])
      (Some (TNamed ''dataItemWrap'')) NewDistributor = (Ret (map (\<lambda>(n, i). (n, i)) asg), d') \<and>
    mset (map snd asg) = mset [''1'', ''2'', ''3'', ''4''] \<and> fst ` set asg \<subseteq> peer_ID ` set demo_peers"
  by (rule Distribute_complete [where rt = "TNamed ''dataItemWrap''"])
    (simp_all add: checkReceiverType_def checkDataType_def demo_data_def demo_peers_def)

text \<open>
  C21. A fresh distribution is balanced: when no item is sticky and the node IDs are distinct,
  the peer at position \<open>k\<close> gets exactly \<open>len(data) / len(peers)\<close> items, and one more when \<open>k\<close>
  is below the remainder.
\<close>

theorem Distribute_balanced:
  assumes "checkReceiverType implements recv = Ret rt" "checkDataType implements data = Ret items"
    and "peers \<noteq> []" "distinct (map peer_ID peers)" "k < length peers"
    and "\<forall>i \<in> set items. sticky_get d (ident i) = []"
  shows "\<exists>asg d'. Distribute implements ident ap peers data recv d =
      (Ret (map (\<lambda>(n, i). ap rt n i) asg), d') \<and>
    length (filter (\<lambda>a. fst a = peer_ID (peers ! k)) asg) =
      length items div length peers + (if k < length items mod length peers then 1 else 0)"
proof -
  let ?asg = "distribute_asg ident peers items d"
  have none: "sticky_asg ident (cleanKeysNotIn peers d) items = []"
    using assms(6) by (simp add: sticky_asg_def sticky_get_clean filter_empty_conv)
  have "share ?asg n = quota peers (length items) n" if "n \<in> peer_IDs peers" for n
  proof (rule sum_le_eq [of "peer_IDs peers"])
    show "share ?asg m \<le> quota peers (length items) m" for m
      using share_distribute_asg [of ident peers items d m] none by simp
    show "(\<Sum>m \<in> peer_IDs peers. share ?asg m) = (\<Sum>m \<in> peer_IDs peers. quota peers (length items) m)"
      using mset_distribute_asg [OF assms(3), of ident items d, THEN mset_eq_length]
      by (simp add: sum_share distribute_asg_peers sum_quota [OF assms(3)] del: mset_map)
  qed (use that in simp_all)
  with quota_even [OF assms(4,5)] assms(5)
  have "share ?asg (peer_ID (peers ! k)) =
      length items div length peers + (if k < length items mod length peers then 1 else 0)"
    by simp
  with Distribute_eq [OF assms(1-3), of ident ap d] show ?thesis unfolding share_def by blast
qed

theorem Distribute_balanced_witness:
  "\<exists>asg d'. Distribute (\<lambda>_ _. True) (\<lambda>i. i) (\<lambda>_. Pair) demo_peers (demo_data [''1'', ''2'', ''3'', ''4''])
      (Some (TNamed ''dataItemWrap'')) NewDistributor = (Ret (map (\<lambda>(n, i). (n, i)) asg), d') \<and>
    length (filter (\<lambda>a. fst a = peer_ID (demo_peers ! 0)) asg) =
      length [''1'', ''2'', ''3'', ''4''] div length demo_peers +
      (if 0 < length [''1'', ''2'', ''3'', ''4''] mod length demo_peers then 1 else 0)"
  by (rule Distribute_balanced [where rt = "TNamed ''dataItemWrap''"])
    (simp_all add: checkReceiverType_def checkDataType_def demo_data_def demo_peers_def
      NewDistributor_def sticky_get_def zero_Peer_def)

text \<open>
  Stickiness: an item whose recorded node is still a peer is handed to that node, and the
  record is kept, whatever the quotas are.
\<close>

theorem Distribute_sticky:
  assumes "checkReceiverType implements recv = Ret rt" "checkDataType implements data = Ret items"
    and "peers \<noteq> []" "i \<in> set items" "StickyMap d (ident i) = Some n" "n \<noteq> []"
    and "n \<in> peer_ID ` set peers"
  shows "\<exists>dist d'. Distribute implements ident ap peers data recv d = (Ret dist, d') \<and>
    ap rt n i \<in> set dist \<and> sticky_get d' (ident i) = n"
proof -
  have g: "sticky_get (cleanKeysNotIn peers d) (ident i) = n"
    using assms(5,7) by (simp add: sticky_get_clean) (simp add: sticky_get_def)
  then have "(n, i) \<in> set (distribute_asg ident peers items d)"
    using assms(4,6) by (auto simp: distribute_asg_def sticky_asg_def)
  moreover have "sticky_get (distribute_state ident peers items d) (ident i) = n"
    using state_old [of peers d ident i items] g assms(3,6) by simp
  ultimately show ?thesis
    using Distribute_eq [OF assms(1-3), of ident ap d] unfolding distribute_state_def by force
qed

theorem Distribute_sticky_witness:
  "\<exists>dist d'. Distribute (\<lambda>_ _. True) (\<lambda>i. i) (\<lambda>_. Pair) demo_peers (demo_data [''7'', ''9''])
      (Some (TNamed ''dataItemWrap'')) \<lparr>StickyMap = [''9'' \<mapsto> ''1'', ''8'' \<mapsto> ''5'']\<rparr> = (Ret dist, d') \<and>
    (''1'', ''9'') \<in> set dist \<and> sticky_get d' ''9'' = ''1''"
  by (rule Distribute_sticky [where rt = "TNamed ''dataItemWrap''" and ident = "\<lambda>i. i" and i = "''9''"
        and items = "[''7'', ''9'']" and ap = "\<lambda>_. Pair"])
    (simp_all add: checkReceiverType_def checkDataType_def demo_data_def demo_peers_def zero_Peer_def)

text \<open>
  Distribution is stable: calling \<open>Distribute\<close> again with the same peers and the same data
  (item IDs distinct, no empty node ID) hands every item to the node it had and leaves the
  distributor as it is.
\<close>

theorem Distribute_stable:
  assumes "checkReceiverType implements recv = Ret rt" "checkDataType implements data = Ret items"
    and "peers \<noteq> []" "[] \<notin> peer_ID ` set peers" "distinct (map ident items)"
    and "Distribute implements ident ap peers data recv d = (Ret dist1, d1)"
  shows "\<exists>dist2. Distribute implements ident ap peers data recv d1 = (Ret dist2, d1) \<and>
    mset dist2 = mset dist1"
proof -
  have eq: "d1 = distribute_state ident peers items d"
      "dist1 = map (\<lambda>(n, i). ap rt n i) (distribute_asg ident peers items d)"
    using assms(6) Distribute_eq [OF assms(1-3), of ident ap d] by (simp_all add: distribute_state_def)
  have "put_all ident (distribute_new ident peers items d1) (cleanKeysNotIn peers d1) = d1"
    using redistribute_new [OF assms(3,4), of ident items d] by (simp add: eq put_all_def)
  moreover have "mset (distribute_asg ident peers items d1) = mset (distribute_asg ident peers items d)"
    unfolding eq by (rule redistribute_same [OF assms(5,3,4)])
  ultimately show ?thesis
    using Distribute_eq [OF assms(1-3), of ident ap d1] by (simp add: eq(2))
qed

theorem Distribute_stable_witness:
  "\<exists>dist2. Distribute (\<lambda>_ _. True) (\<lambda>i. i) (\<lambda>_. Pair) demo_peers (demo_data [''1'', ''2''])
      (Some (TNamed ''dataItemWrap'')) \<lparr>StickyMap = [''1'' \<mapsto> ''1'', ''2'' \<mapsto> ''2'']\<rparr> =
      (Ret dist2, \<lparr>StickyMap = [''1'' \<mapsto> ''1'', ''2'' \<mapsto> ''2'']\<rparr>) \<and>
    mset dist2 = mset [(''1'', ''1''), (''2'', ''2'')]"
proof (rule Distribute_stable [where rt = "TNamed ''dataItemWrap''" and d = NewDistributor
      and items = "[''1'', ''2'']"])
  show "Distribute (\<lambda>_ _. True) (\<lambda>i. i) (\<lambda>_. Pair) demo_peers (demo_data [''1'', ''2''])
      (Some (TNamed ''dataItemWrap'')) NewDistributor =
      (Ret [(''1'', ''1''), (''2'', ''2'')], \<lparr>StickyMap = [''1'' \<mapsto> ''1'', ''2'' \<mapsto> ''2'']\<rparr>)"
    by (simp add: Distribute_def checkReceiverType_def checkDataType_def demo_data_def demo_peers_def
        NewDistributor_def cleanKeysNotIn_def makePeersMap_def sticky_get_def Put_def zero_Peer_def
        Let_def upt_rec)
qed (simp_all add: checkReceiverType_def checkDataType_def demo_data_def demo_peers_def zero_Peer_def)

end
