(* ===== verification/Dealers.thy ===== *)
theory Dealers
  imports Hraftd_Model Go_Reflect
begin

text \<open>
  \<open>job.go\<close> and \<open>logdealer.go\<close>: a registry of handler functions by name. A handler is any Go
  value; registration accepts it only when its type is a function of one parameter that
  returns a value and an error. \<open>Invoke\<close> decodes the JSON request into the parameter's type
  and calls the handler.

  The JSON decoder is the parameter \<open>unm\<close> (\<open>unm t body\<close> is the value of type \<open>t\<close> that
  \<open>jsoniter.Unmarshal\<close> fills in, or its error). The bodies of the handlers are functions from
  the decoded argument, passed by value or by pointer, to a result and an error.
\<close>

section \<open>The code\<close>

datatype 'v call_arg = ByVal 'v | ByPtr 'v

type_synonym ('v, 'w) handler = "'v call_arg \<Rightarrow> 'w \<times> go_error option"

record ('v, 'w) Dealer =
  Fn :: "('v, 'w) handler"
  ReqType :: go_type

record ('v, 'w) DealerMap =
  Dealers :: "string \<rightharpoonup> ('v, 'w) Dealer"

definition MakeDealerMap :: "('v, 'w) DealerMap" where
  "MakeDealerMap = \<lparr>Dealers = Map.empty\<rparr>"

text \<open>An argument of type \<open>interface{}\<close>: nil, or a value with its type.\<close>

type_synonym ('v, 'w) any_fn = "(go_type \<times> ('v, 'w) handler) option"

definition checkDealerFn :: "('v, 'w) any_fn \<Rightarrow> (go_error + go_type \<times> ('v, 'w) handler) outcome" where
  "checkDealerFn f =
     (case f of
        None \<Rightarrow> Panic nil_panic
      | Some (fnType, fn) \<Rightarrow> Ret
          (case fnType of
             TFunc ins outs \<Rightarrow>
               if \<not> (length ins = 1 \<and> length outs = 2)
               then Inl (Err ''function must have 1 parameter and return like (x,error)'')
               else if outs ! 1 \<noteq> error_type
               then Inl (Err (''function must return like'' @ [CHR 0xEF, CHR 0xBC, CHR 0x88] @ ''x, error)''))
               else Inr (hd ins, fn)
           | _ \<Rightarrow> Inl (Err ''function required'')))"

definition RegisterJobDealer ::
    "string \<Rightarrow> ('v, 'w) any_fn \<Rightarrow> ('v, 'w) DealerMap \<Rightarrow>
     go_error option outcome \<times> ('v, 'w) DealerMap" where
  "RegisterJobDealer dealerName dealer s =
     (if Dealers s dealerName \<noteq> None
      then (Ret (Some (Err (''dealer [] '' @ dealerName @ '' already registered''))), s)
      else (case checkDealerFn dealer of
          Panic e \<Rightarrow> (Panic e, s)
        | Ret (Inl err) \<Rightarrow> (Ret (Some err), s)
        | Ret (Inr (req, fn)) \<Rightarrow>
            (Ret None, s\<lparr>Dealers := (Dealers s)(dealerName \<mapsto> \<lparr>Fn = fn, ReqType = req\<rparr>)\<rparr>)))"

text \<open>The result \<open>x\<close> of \<open>Invoke\<close> is nil (\<^term>\<open>None\<close>) on the early returns.\<close>

definition Invoke ::
    "(go_type \<Rightarrow> string \<Rightarrow> go_error + 'v) \<Rightarrow> ('v, 'w) DealerMap \<Rightarrow> string \<Rightarrow> string \<Rightarrow>
     'w option \<times> go_error option" where
  "Invoke unm s dealerName requestBody =
     (case Dealers s dealerName of
        None \<Rightarrow> (None, Some ErrDealerNoExists)
      | Some d \<Rightarrow>
          let (isReqTypePtr, reqType) =
                (case ReqType d of TPtr t \<Rightarrow> (True, t) | t \<Rightarrow> (False, t)) in
          (case unm reqType requestBody of
             Inl err \<Rightarrow> (None, Some err)
           | Inr req \<Rightarrow>
               let (ret0, ret1) = Fn d (if isReqTypePtr then ByPtr req else ByVal req)
               in (Some ret0, ret1)))"

text \<open>\<open>LogDealer\<close> embeds a dealer map and registers into it.\<close>

record ('v, 'w) LogDealer =
  ld_DealerMap :: "('v, 'w) DealerMap"

definition MakeLogDealer :: "('v, 'w) LogDealer" where
  "MakeLogDealer = \<lparr>ld_DealerMap = MakeDealerMap\<rparr>"

definition RegisterLogDealer ::
    "string \<Rightarrow> ('v, 'w) any_fn \<Rightarrow> ('v, 'w) LogDealer \<Rightarrow>
     go_error option outcome \<times> ('v, 'w) LogDealer" where
  "RegisterLogDealer cmdName dealerFn l =
     (let (r, m) = RegisterJobDealer cmdName dealerFn (ld_DealerMap l)
      in (r, l\<lparr>ld_DealerMap := m\<rparr>))"

section \<open>The registry interface\<close>

text \<open>
  What the clients of a registry rely on: an entry is made only under a free name, only by a
  call that reports success, and no call touches another name.
\<close>

locale registry =
  fixes reg :: "'n \<Rightarrow> 'd \<Rightarrow> 'm \<Rightarrow> bool \<times> 'm"
    and look :: "'m \<Rightarrow> 'n \<Rightarrow> 'h option"
    and entry :: "'d \<Rightarrow> 'h option"
  assumes reg_taken: "look m n \<noteq> None \<Longrightarrow> reg n d m = (False, m)"
    and reg_free: "look m n = None \<Longrightarrow> fst (reg n d m) = (entry d \<noteq> None)"
    and reg_look: "look m n = None \<Longrightarrow> look (snd (reg n d m)) = (look m)(n := entry d)"
begin

lemma reg_keeps: "look m n = Some h \<Longrightarrow> look (snd (reg n' d m)) n = Some h"
  by (cases "look m n'") (auto simp: reg_taken reg_look)

text \<open>A sequence of registrations, in order.\<close>

definition reg_all :: "('n \<times> 'd) list \<Rightarrow> 'm \<Rightarrow> 'm" where
  "reg_all rs m = fold (\<lambda>(n, d) m. snd (reg n d m)) rs m"

lemma reg_all_simps [simp]:
  "reg_all [] m = m"
  "reg_all ((n, d) # rs) m = reg_all rs (snd (reg n d m))"
  by (simp_all add: reg_all_def)

lemma reg_all_keeps: "look m n = Some h \<Longrightarrow> look (reg_all rs m) n = Some h"
proof (induction rs arbitrary: m)
  case (Cons r rs)
  then show ?case by (cases r) (simp add: reg_keeps)
qed simp

text \<open>The handler found under a name is the first acceptable one offered for it.\<close>

lemma reg_all_first:
  "look m n = None \<Longrightarrow>
   look (reg_all rs m) n =
     (case filter (\<lambda>(n', d). n' = n \<and> entry d \<noteq> None) rs of [] \<Rightarrow> None | (_, d) # _ \<Rightarrow> entry d)"
proof (induction rs arbitrary: m)
  case (Cons r rs)
  obtain n' d where r: "r = (n', d)" by force
  show ?case
  proof (cases "n' = n \<and> entry d \<noteq> None")
    case True
    then obtain h where "look (snd (reg n' d m)) n = Some h" "entry d = Some h"
      using Cons.prems by (auto simp: reg_look)
    with True r show ?thesis by (simp add: reg_all_keeps)
  next
    case False
    then have "look (snd (reg n' d m)) n = None"
      using Cons.prems by (cases "look m n'") (auto simp: reg_look reg_taken)
    from Cons.IH [OF this] False r show ?thesis by auto
  qed
qed simp

end

section \<open>The dealer map is a registry\<close>

definition dealer_entry :: "('v, 'w) any_fn \<Rightarrow> ('v, 'w) Dealer option" where
  "dealer_entry f =
     (case checkDealerFn f of Ret (Inr (req, fn)) \<Rightarrow> Some \<lparr>Fn = fn, ReqType = req\<rparr> | _ \<Rightarrow> None)"

definition register_ok ::
    "string \<Rightarrow> ('v, 'w) any_fn \<Rightarrow> ('v, 'w) DealerMap \<Rightarrow> bool \<times> ('v, 'w) DealerMap" where
  "register_ok n f s = (fst (RegisterJobDealer n f s) = Ret None, snd (RegisterJobDealer n f s))"

interpretation dealers: registry register_ok Dealers dealer_entry
  by unfold_locales
    (auto simp: register_ok_def RegisterJobDealer_def dealer_entry_def fun_upd_idem_iff
      split: outcome.splits sum.splits)

lemma fold_register:
  "fold (\<lambda>(n, f) m. snd (RegisterJobDealer n f m)) rs s = dealers.reg_all rs s"
  by (induction rs arbitrary: s) (auto simp: register_ok_def)

section \<open>Properties\<close>

text \<open>
  Registration and dispatch agree: registering, under a free name, a function of one
  parameter that returns a value and an error succeeds; from then on \<open>Invoke\<close> under that name
  decodes the body into the parameter's type (the pointed-to type for a pointer) and returns
  what the function returns, or the decoding error; every other name is dispatched as before.
\<close>

theorem RegisterJobDealer_Invoke:
  assumes "Dealers s name = None"
  shows "\<exists>s'. RegisterJobDealer name (Some (TFunc [t] [r, error_type], f)) s = (Ret None, s') \<and>
    (\<forall>body. Invoke unm s' name body =
       (case unm (case t of TPtr e \<Rightarrow> e | _ \<Rightarrow> t) body of
          Inl err \<Rightarrow> (None, Some err)
        | Inr v \<Rightarrow> let res = f (case t of TPtr _ \<Rightarrow> ByPtr v | _ \<Rightarrow> ByVal v) in (Some (fst res), snd res))) \<and>
    (\<forall>n body. n \<noteq> name \<longrightarrow> Invoke unm s' n body = Invoke unm s n body)"
  using assms
  by (cases t)
    (auto simp: RegisterJobDealer_def checkDealerFn_def Invoke_def Let_def case_prod_beta
      split: sum.splits)

definition echo_handler :: "(string, string) handler" where
  "echo_handler a = (case a of ByVal v \<Rightarrow> (v, None) | ByPtr v \<Rightarrow> (v @ ''*'', None))"

theorem RegisterJobDealer_Invoke_witness:
  "\<exists>s'. RegisterJobDealer ''/testjob2''
        (Some (TFunc [TPtr (TNamed ''InputStruct'')] [TPtr (TNamed ''OutputStruct''), error_type], echo_handler))
        MakeDealerMap = (Ret None, s') \<and>
     Invoke (\<lambda>_. Inr) s' ''/testjob2'' ''bingoo'' = (Some ''bingoo*'', None) \<and>
     Invoke (\<lambda>_. Inr) s' ''/other'' ''bingoo'' = (None, Some ErrDealerNoExists)"
proof -
  have free: "Dealers (MakeDealerMap :: (string, string) DealerMap) ''/testjob2'' = None"
    by (simp add: MakeDealerMap_def)
  from RegisterJobDealer_Invoke [OF free, of "TPtr (TNamed ''InputStruct'')"
      "TPtr (TNamed ''OutputStruct'')" echo_handler "\<lambda>_. Inr"]
  obtain s' where s': "RegisterJobDealer ''/testjob2''
        (Some (TFunc [TPtr (TNamed ''InputStruct'')] [TPtr (TNamed ''OutputStruct''), error_type], echo_handler))
        MakeDealerMap = (Ret None, s')"
      "Invoke (\<lambda>_. Inr) s' ''/testjob2'' ''bingoo'' = (Some ''bingoo*'', None)"
      "Invoke (\<lambda>_. Inr) s' ''/other'' ''bingoo'' = Invoke (\<lambda>_. Inr) MakeDealerMap ''/other'' ''bingoo''"
    by (auto simp: echo_handler_def Let_def)
  then show ?thesis by (auto simp: Invoke_def MakeDealerMap_def)
qed

text \<open>
  The first acceptable registration under a name wins, whatever else is registered before
  or after it: after any sequence of registrations the dealer under a name is the first one
  offered for it that \<open>checkDealerFn\<close> accepts, and none when there was none.
\<close>

theorem RegisterJobDealer_first_wins:
  "Dealers (fold (\<lambda>(n, f) m. snd (RegisterJobDealer n f m)) rs MakeDealerMap) name =
     (case filter (\<lambda>(n, f). n = name \<and> (\<exists>req fn. checkDealerFn f = Ret (Inr (req, fn)))) rs of
        [] \<Rightarrow> None
      | (_, f) # _ \<Rightarrow> dealer_entry f)"
proof -
  have acc: "(\<exists>req fn. checkDealerFn f = Ret (Inr (req, fn))) \<longleftrightarrow> dealer_entry f \<noteq> None"
    for f :: "('a, 'b) any_fn"
    by (auto simp: dealer_entry_def split: outcome.splits sum.splits)
  have "Dealers (MakeDealerMap :: ('a, 'b) DealerMap) name = None" by (simp add: MakeDealerMap_def)
  from dealers.reg_all_first [OF this, of rs] show ?thesis
    unfolding fold_register acc .
qed

text \<open>
  A nil handler makes registration panic; a value that is no function, a function of the
  wrong arity or one whose second result is not \<open>error\<close> is refused with an error and the map
  is left as it was.
\<close>

theorem RegisterJobDealer_refuses:
  assumes "Dealers s name = None"
  shows "RegisterJobDealer name None s = (Panic nil_panic, s) \<and>
    (\<not> is_func t \<longrightarrow>
       RegisterJobDealer name (Some (t, f)) s = (Ret (Some (Err ''function required'')), s)) \<and>
    (length ins \<noteq> 1 \<or> length outs \<noteq> 2 \<longrightarrow> RegisterJobDealer name (Some (TFunc ins outs, f)) s =
       (Ret (Some (Err ''function must have 1 parameter and return like (x,error)'')), s)) \<and>
    (r \<noteq> error_type \<longrightarrow>
       (\<exists>e. RegisterJobDealer name (Some (TFunc [t] [x, r], f)) s = (Ret (Some e), s)))"
  using assms
  by (cases t) (auto simp: RegisterJobDealer_def checkDealerFn_def is_func_def)

theorem RegisterJobDealer_refuses_witness:
  "RegisterJobDealer ''j'' None (MakeDealerMap :: (string, string) DealerMap) = (Panic nil_panic, MakeDealerMap) \<and>
   RegisterJobDealer ''j'' (Some (TNamed ''int'', echo_handler)) MakeDealerMap =
     (Ret (Some (Err ''function required'')), MakeDealerMap) \<and>
   RegisterJobDealer ''j'' (Some (TFunc [] [error_type], echo_handler)) MakeDealerMap =
     (Ret (Some (Err ''function must have 1 parameter and return like (x,error)'')), MakeDealerMap)"
proof -
  have free: "Dealers (MakeDealerMap :: (string, string) DealerMap) ''j'' = None"
    by (simp add: MakeDealerMap_def)
  from RegisterJobDealer_refuses [OF free, of "TNamed ''int''" echo_handler "[]" "[error_type]"]
  show ?thesis by (simp add: is_func_def)
qed

end
