(* ===== verification/Args.thy ===== *)
theory Args
  imports Hraftd_Model Dealers
begin

text \<open>
  \<open>arg.go\<close> up to the joining of a cluster: the command line parameters, the flags that fill
  them, and \<open>Fix\<close>, which completes them. What the host answers is the parameter \<open>host_env\<close>:
  the main IP of a network interface (\<open>goip.MainIP\<close>), the name service (\<open>net.LookupIP\<close>) and
  the home directory of the user (\<open>user.Current\<close>). A nil \<open>LoggerMore\<close> is recorded by a flag.
\<close>

section \<open>The parameters\<close>

record raft_log =
  log_Index :: nat
  log_Data :: string

record ('v, 'w) Arg =
  arg_Bootstrap :: bool
  arg_InMem :: bool
  arg_RaftAddr :: string
  arg_RaftAdv :: string
  arg_RaftNodeDir :: string
  arg_NodeID :: NodeID
  arg_HTTPAddr :: string
  arg_HTTPAdv :: string
  arg_JoinAddrs :: string
  arg_IfaceName :: string
  arg_JoinAddrSlice :: "string list"
  arg_HostIP :: string
  arg_ApplyInterceptor :: "(raft_log \<Rightarrow> Command \<Rightarrow> bool) option"
  arg_LogDealer :: "('v, 'w) LogDealer"
  arg_LoggerSet :: bool

definition MakeArg :: "('v, 'w) Arg" where
  "MakeArg = \<lparr>arg_Bootstrap = False, arg_InMem = False, arg_RaftAddr = [], arg_RaftAdv = [],
     arg_RaftNodeDir = [], arg_NodeID = [], arg_HTTPAddr = [], arg_HTTPAdv = [], arg_JoinAddrs = [],
     arg_IfaceName = [], arg_JoinAddrSlice = [], arg_HostIP = [], arg_ApplyInterceptor = None,
     arg_LogDealer = MakeLogDealer, arg_LoggerSet = False\<rparr>"

section \<open>Flags\<close>

record FlagNames =
  Rmem :: string
  Haddr :: string
  Hadv :: string
  Raddr :: string
  Radv :: string
  Rdir :: string
  Rjoin :: string
  Iface :: string

definition FlagRmem :: "string \<Rightarrow> FlagNames \<Rightarrow> FlagNames" where "FlagRmem name f = f\<lparr>Rmem := name\<rparr>"
definition FlagHaddr :: "string \<Rightarrow> FlagNames \<Rightarrow> FlagNames" where "FlagHaddr name f = f\<lparr>Haddr := name\<rparr>"
definition FlagHadv :: "string \<Rightarrow> FlagNames \<Rightarrow> FlagNames" where "FlagHadv name f = f\<lparr>Hadv := name\<rparr>"
definition FlagRaddr :: "string \<Rightarrow> FlagNames \<Rightarrow> FlagNames" where "FlagRaddr name f = f\<lparr>Raddr := name\<rparr>"
definition FlagRadv :: "string \<Rightarrow> FlagNames \<Rightarrow> FlagNames" where "FlagRadv name f = f\<lparr>Radv := name\<rparr>"
definition FlagRdir :: "string \<Rightarrow> FlagNames \<Rightarrow> FlagNames" where "FlagRdir name f = f\<lparr>Rdir := name\<rparr>"
definition FlagRjoin :: "string \<Rightarrow> FlagNames \<Rightarrow> FlagNames" where "FlagRjoin name f = f\<lparr>Rjoin := name\<rparr>"
definition FlagIface :: "string \<Rightarrow> FlagNames \<Rightarrow> FlagNames" where "FlagIface name f = f\<lparr>Iface := name\<rparr>"

definition zero_FlagNames :: FlagNames where
  "zero_FlagNames = \<lparr>Rmem = [], Haddr = [], Hadv = [], Raddr = [], Radv = [], Rdir = [], Rjoin = [], Iface = []\<rparr>"

text \<open>
  \<open>createFlagNames\<close> fills the names from their \<open>default\<close> tags with \<open>defaults.Set\<close>, the parameter
  \<open>defaults_Set\<close> (\<^term>\<open>None\<close>: it failed and left the structure as it was), then runs the options.
\<close>

definition createFlagNames ::
    "(FlagNames \<Rightarrow> FlagNames option) \<Rightarrow> (FlagNames \<Rightarrow> FlagNames) list \<Rightarrow> FlagNames" where
  "createFlagNames defaults_Set fns =
     fold (\<lambda>fn f. fn f) fns
       (case defaults_Set zero_FlagNames of None \<Rightarrow> zero_FlagNames | Some f \<Rightarrow> f)"

text \<open>A flag provider collects definitions: the parameter it fills, the flag's name, its default.\<close>

datatype arg_field = FInMem | FHTTPAddr | FHTTPAdv | FRaftAddr | FRaftAdv | FRaftNodeDir | FJoinAddrs | FIfaceName

datatype flag_def = BoolVar arg_field string bool | StringVar arg_field string string

definition boolVar :: "arg_field \<Rightarrow> bool \<Rightarrow> string \<Rightarrow> flag_def list \<Rightarrow> flag_def list" where
  "boolVar ptr defaultValue name p = (if name \<noteq> [] then p @ [BoolVar ptr name defaultValue] else p)"

definition strVar :: "arg_field \<Rightarrow> string \<Rightarrow> flag_def list \<Rightarrow> flag_def list" where
  "strVar ptr name p = (if name \<noteq> [] then p @ [StringVar ptr name []] else p)"

definition DefineFlags ::
    "(FlagNames \<Rightarrow> FlagNames option) \<Rightarrow> (FlagNames \<Rightarrow> FlagNames) list \<Rightarrow> flag_def list \<Rightarrow>
     ('v, 'w) Arg \<times> flag_def list" where
  "DefineFlags defaults_Set fns p =
     (let f = createFlagNames defaults_Set fns;
          p = boolVar FInMem True (Rmem f) p;
          p = strVar FHTTPAddr (Haddr f) p;
          p = strVar FHTTPAdv (Hadv f) p;
          p = strVar FRaftAddr (Raddr f) p;
          p = strVar FRaftAdv (Radv f) p;
          p = strVar FRaftNodeDir (Rdir f) p;
          p = strVar FJoinAddrs (Rjoin f) p;
          p = strVar FIfaceName (Iface f) p
      in (MakeArg, p))"

text \<open>A viper provider: its lookups depend on the defaults set in it.\<close>

record viper =
  vp_defaults :: "string \<rightharpoonup> bool"
  vp_bool :: "(string \<rightharpoonup> bool) \<Rightarrow> string \<Rightarrow> bool"
  vp_string :: "string \<Rightarrow> string"

definition CreateArg ::
    "(FlagNames \<Rightarrow> FlagNames option) \<Rightarrow> (FlagNames \<Rightarrow> FlagNames) list \<Rightarrow> viper \<Rightarrow>
     ('v, 'w) Arg \<times> viper" where
  "CreateArg defaults_Set fns p =
     (let f = createFlagNames defaults_Set fns;
          p = p\<lparr>vp_defaults := (vp_defaults p)(Rmem f \<mapsto> True)\<rparr>
      in (MakeArg\<lparr>arg_InMem := vp_bool p (vp_defaults p) (Rmem f),
            arg_HTTPAddr := vp_string p (Haddr f), arg_HTTPAdv := vp_string p (Hadv f),
            arg_RaftAddr := vp_string p (Raddr f), arg_RaftAdv := vp_string p (Radv f),
            arg_RaftNodeDir := vp_string p (Rdir f), arg_JoinAddrs := vp_string p (Rjoin f),
            arg_IfaceName := vp_string p (Iface f)\<rparr>, p))"

section \<open>Completing the parameters\<close>

record host_env =
  MainIP :: "string \<Rightarrow> string"
  LookupIP :: "string \<Rightarrow> string list option"
  HomeDir :: "string option"

definition ParseIps :: "host_env \<Rightarrow> string \<Rightarrow> string list" where
  "ParseIps env host =
     (if ParseIP host then [host]
      else (case LookupIP env host of None \<Rightarrow> [host] | Some ips \<Rightarrow> ips))"

fun local_loop :: "string \<Rightarrow> string list \<Rightarrow> bool" where
  "local_loop hostIP [] = False"
| "local_loop hostIP (oneip # ips) =
     (if oneip = [] \<or> oneip = ''127.0.0.1'' \<or> oneip = ''localhost'' \<or> oneip = hostIP then True
      else local_loop hostIP ips)"

definition isLocalHost :: "host_env \<Rightarrow> ('v, 'w) Arg \<Rightarrow> string \<Rightarrow> bool" where
  "isLocalHost env a host = local_loop (arg_HostIP a) (ParseIps env host)"

definition fixAddrHost :: "host_env \<Rightarrow> ('v, 'w) Arg \<Rightarrow> string \<Rightarrow> string outcome" where
  "fixAddrHost env a addr =
     (case SplitHostPort addr of
        Inl err \<Rightarrow> Panic (err_Error err)
      | Inr (host, port) \<Rightarrow>
          let host = If_str (isLocalHost env a host) (arg_HostIP a) host in
          Ret (host @ '':'' @ port))"

definition fixAddr :: "host_env \<Rightarrow> ('v, 'w) Arg \<Rightarrow> ('v, 'w) Arg outcome" where
  "fixAddr env a =
     (if arg_RaftAddr a = [] \<and> arg_HTTPAddr a = [] then
        Ret (a\<lparr>arg_RaftAddr := arg_HostIP a @ '':12000'', arg_HTTPAddr := arg_HostIP a @ '':11000''\<rparr>)
      else if arg_RaftAddr a = [] \<and> arg_HTTPAddr a \<noteq> [] then
        (case SplitHostPort (arg_HTTPAddr a) of
           Inl err \<Rightarrow> Panic (err_Error err)
         | Inr (host, port) \<Rightarrow>
             let por = strconv_Atoi port in
             if por > 35565 - 1000
             then Panic (''port '' @ fmt_d por @ '' is too large (<= 34565)'')
             else
               let host = If_str (isLocalHost env a host) (arg_HostIP a) host in
               Ret (a\<lparr>arg_HTTPAddr := host @ '':'' @ fmt_d por,
                      arg_RaftAddr := host @ '':'' @ fmt_d (por + 1000)\<rparr>))
      else if arg_RaftAddr a \<noteq> [] \<and> arg_HTTPAddr a = [] then
        (case SplitHostPort (arg_RaftAddr a) of
           Inl err \<Rightarrow> Panic (err_Error err)
         | Inr (host, port) \<Rightarrow>
             let por = strconv_Atoi port in
             if por < 1024 + 1000
             then Panic (''port '' @ fmt_d por @ '' is too large (>= 2024)'')
             else
               let host = If_str (isLocalHost env a host) (arg_HostIP a) host in
               Ret (a\<lparr>arg_HTTPAddr := host @ '':'' @ fmt_d (por - 1000),
                      arg_RaftAddr := host @ '':'' @ fmt_d por\<rparr>))
      else
        obind (fixAddrHost env a (arg_RaftAddr a)) (\<lambda>ra.
        obind (fixAddrHost env a (arg_HTTPAddr a)) (\<lambda>ha.
          Ret (a\<lparr>arg_RaftAddr := ra, arg_HTTPAddr := ha\<rparr>))))"

definition parseFlagRaftNodeID :: "('v, 'w) Arg \<Rightarrow> ('v, 'w) Arg outcome" where
  "parseFlagRaftNodeID a =
     obind (NodeID_Fix (arg_HostIP a) (arg_HTTPAddr a @ '','' @ arg_RaftAddr a))
       (\<lambda>nid. Ret (a\<lparr>arg_NodeID := nid\<rparr>))"

text \<open>\<open>filepath.Clean\<close> on Unix, element by element, and \<open>filepath.Join\<close>.\<close>

definition clean_elem :: "bool \<Rightarrow> string \<Rightarrow> string list \<Rightarrow> string list" where
  "clean_elem rooted e st =
     (if e = [] \<or> e = ''.'' then st
      else if e = ''..'' then
        (if st \<noteq> [] \<and> last st \<noteq> ''..'' then butlast st else if rooted then st else st @ [e])
      else st @ [e])"

definition filepath_Clean :: "string \<Rightarrow> string" where
  "filepath_Clean path =
     (let rooted = prefix ''/'' path;
          s = (if rooted then ''/'' else []) @
              str_Join (CHR ''/'') (fold (clean_elem rooted) (str_Split (CHR ''/'') path) [])
      in if s = [] then ''.'' else s)"

definition filepath_Join :: "string list \<Rightarrow> string" where
  "filepath_Join elems =
     (case filter (\<lambda>e. e \<noteq> []) elems of [] \<Rightarrow> [] | es \<Rightarrow> filepath_Clean (str_Join (CHR ''/'') es))"

definition parseFlagRaftDir :: "host_env \<Rightarrow> ('v, 'w) Arg \<Rightarrow> ('v, 'w) Arg" where
  "parseFlagRaftDir env a =
     (if arg_RaftNodeDir a \<noteq> [] then a
      else
        let basePath = (case HomeDir env of None \<Rightarrow> ''./'' | Some h \<Rightarrow> h) in
        a\<lparr>arg_RaftNodeDir := filepath_Join [basePath, ''.hraftd'', arg_NodeID a]\<rparr>)"

fun join_loop :: "string \<Rightarrow> string \<Rightarrow> string list \<Rightarrow> string list \<Rightarrow> string list outcome" where
  "join_loop hostIP all [] slice = Ret slice"
| "join_loop hostIP all (addr # addrs) slice =
     (if addr = [] then join_loop hostIP all addrs slice
      else (case SplitHostPort addr of
          Inl err \<Rightarrow> Panic (''fail to parse JoinAddrs '' @ all @ '' error '' @ err_Error err)
        | Inr (h, p) \<Rightarrow> join_loop hostIP all addrs (slice @ [EmptyThen h hostIP @ '':'' @ p])))"

definition parseBootstrap :: "host_env \<Rightarrow> ('v, 'w) Arg \<Rightarrow> ('v, 'w) Arg outcome" where
  "parseBootstrap env a =
     obind (join_loop (arg_HostIP a) (arg_JoinAddrs a) (str_Split (CHR '','') (arg_JoinAddrs a)) [])
       (\<lambda>slice.
         let a = a\<lparr>arg_JoinAddrSlice := slice\<rparr> in
         if slice = [] \<or> hd slice = arg_HTTPAddr a then Ret (a\<lparr>arg_Bootstrap := True\<rparr>)
         else
           let (jHost, jPort) = SplitHostPort0 (hd slice);
               hPort = snd (SplitHostPort0 (arg_HTTPAddr a)) in
           if jPort \<noteq> hPort then Ret a
           else Ret (a\<lparr>arg_Bootstrap := isLocalHost env a jHost\<rparr>))"

definition Arg_Fix :: "host_env \<Rightarrow> ('v, 'w) Arg \<Rightarrow> ('v, 'w) Arg outcome" where
  "Arg_Fix env a =
     (let a = (if arg_LoggerSet a then a else a\<lparr>arg_LoggerSet := True\<rparr>);
          a = a\<lparr>arg_HostIP := MainIP env (arg_IfaceName a)\<rparr>
      in obind (fixAddr env a) (\<lambda>a.
         obind (parseFlagRaftNodeID a) (\<lambda>a.
         parseBootstrap env (parseFlagRaftDir env a))))"

definition ConvertToZeroHost :: "host_env \<Rightarrow> ('v, 'w) Arg \<Rightarrow> string \<Rightarrow> string" where
  "ConvertToZeroHost env a addr =
     (let (host, port) = SplitHostPort0 addr in
      if isLocalHost env a host then '':'' @ port else addr)"

section \<open>Facts\<close>

lemma local_loop_iff:
  "local_loop hostIP ips \<longleftrightarrow> (\<exists>ip \<in> set ips. ip \<in> {[], ''127.0.0.1'', ''localhost'', hostIP})"
  by (induction ips) auto

lemma isLocalHost_HostIP: "ParseIP (arg_HostIP a) \<Longrightarrow> isLocalHost env a (arg_HostIP a)"
  by (simp add: isLocalHost_def ParseIps_def)

lemma isLocalHost_cong: "arg_HostIP a = arg_HostIP a' \<Longrightarrow> isLocalHost env a = isLocalHost env a'"
  by (simp add: isLocalHost_def fun_eq_iff)

text \<open>The cases of \<open>fixAddr\<close>, by which addresses were given.\<close>

lemma fixAddr_cases:
  assumes "fixAddr env a = Ret a'"
  obtains
    (none) "arg_RaftAddr a = []" "arg_HTTPAddr a = []"
      "a' = a\<lparr>arg_RaftAddr := arg_HostIP a @ '':12000'', arg_HTTPAddr := arg_HostIP a @ '':11000''\<rparr>"
  | (http) h p por host where "arg_RaftAddr a = []" "SplitHostPort (arg_HTTPAddr a) = Inr (h, p)"
      "por = strconv_Atoi p" "por \<le> 34565" "host = If_str (isLocalHost env a h) (arg_HostIP a) h"
      "a' = a\<lparr>arg_HTTPAddr := host @ '':'' @ fmt_d por, arg_RaftAddr := host @ '':'' @ fmt_d (por + 1000)\<rparr>"
  | (raft) h p por host where "arg_HTTPAddr a = []" "SplitHostPort (arg_RaftAddr a) = Inr (h, p)"
      "por = strconv_Atoi p" "2024 \<le> por" "host = If_str (isLocalHost env a h) (arg_HostIP a) h"
      "a' = a\<lparr>arg_HTTPAddr := host @ '':'' @ fmt_d (por - 1000), arg_RaftAddr := host @ '':'' @ fmt_d por\<rparr>"
  | (both) ra ha where "arg_RaftAddr a \<noteq> []" "arg_HTTPAddr a \<noteq> []"
      "fixAddrHost env a (arg_RaftAddr a) = Ret ra" "fixAddrHost env a (arg_HTTPAddr a) = Ret ha"
      "a' = a\<lparr>arg_RaftAddr := ra, arg_HTTPAddr := ha\<rparr>"
  using assms unfolding fixAddr_def
  by (auto simp: Let_def outcome_simps split: if_splits sum.splits)

text \<open>An address whose host part needs no further fixing.\<close>

definition addr_settled :: "host_env \<Rightarrow> ('v, 'w) Arg \<Rightarrow> string \<Rightarrow> bool" where
  "addr_settled env a addr \<longleftrightarrow> addr \<noteq> [] \<and> fixAddrHost env a addr = Ret addr"

lemma addr_settledI:
  assumes "addr_plain h" "addr_plain p" "isLocalHost env a h \<longrightarrow> h = arg_HostIP a"
  shows "addr_settled env a (h @ CHR '':'' # p)"
  using assms by (simp add: addr_settled_def fixAddrHost_def Let_def If_str_def)

lemma addr_settled_If:
  assumes "addr_plain h" "addr_plain (arg_HostIP a)" "addr_plain p"
  shows "addr_settled env a (If_str (isLocalHost env a h) (arg_HostIP a) h @ CHR '':'' # p)"
  using assms by (auto simp: If_str_def intro: addr_settledI)

lemma fixAddrHost_settles:
  assumes "fixAddrHost env a addr = Ret addr'" "CHR ''['' \<notin> set addr" "addr_plain (arg_HostIP a)"
  shows "addr_settled env a addr'"
proof -
  from assms(1) obtain h p where s: "SplitHostPort addr = Inr (h, p)"
      "addr' = If_str (isLocalHost env a h) (arg_HostIP a) h @ CHR '':'' # p"
    by (auto simp: fixAddrHost_def Let_def split: sum.splits)
  from SplitHostPort_inv [OF s(1)] assms(2) have "addr_plain h" "addr_plain p" by auto
  with s(2) assms(3) show ?thesis by (simp add: addr_settled_If)
qed

text \<open>\<open>fixAddr\<close> leaves both addresses settled, if none has a bracketed host.\<close>

lemma fixAddr_settles:
  assumes "fixAddr env a = Ret a'" "addr_plain (arg_HostIP a)"
    and "CHR ''['' \<notin> set (arg_RaftAddr a)" "CHR ''['' \<notin> set (arg_HTTPAddr a)"
  shows "addr_settled env a (arg_RaftAddr a') \<and> addr_settled env a (arg_HTTPAddr a')"
  using assms(1)
proof (cases rule: fixAddr_cases)
  case none
  then show ?thesis
    using assms(2) addr_settledI [of "arg_HostIP a" "''12000''" env a]
      addr_settledI [of "arg_HostIP a" "''11000''" env a]
    by (simp add: addr_plain_def)
next
  case (http h p por host)
  from SplitHostPort_inv [OF http(2)] assms(4) have "addr_plain h" by auto
  with http assms(2) show ?thesis by (simp add: addr_settled_If)
next
  case (raft h p por host)
  from SplitHostPort_inv [OF raft(2)] assms(3) have "addr_plain h" by auto
  with raft assms(2) show ?thesis by (simp add: addr_settled_If)
next
  case (both ra ha)
  with assms show ?thesis by (auto intro: fixAddrHost_settles)
qed

lemma fixAddr_settled:
  assumes "addr_settled env a (arg_RaftAddr a)" "addr_settled env a (arg_HTTPAddr a)"
  shows "fixAddr env a = Ret a"
  using assms by (simp add: fixAddr_def addr_settled_def)

lemma fixAddrHost_cong: "arg_HostIP a = arg_HostIP a' \<Longrightarrow> fixAddrHost env a = fixAddrHost env a'"
  by (auto simp: fixAddrHost_def isLocalHost_def fun_eq_iff Let_def split: sum.splits)

lemma addr_settled_cong: "arg_HostIP a = arg_HostIP a' \<Longrightarrow> addr_settled env a = addr_settled env a'"
  using fixAddrHost_cong [of a a' env] by (simp add: addr_settled_def fun_eq_iff)

lemma fixAddr_frame: "fixAddr env a = Ret a' \<Longrightarrow> arg_HostIP a' = arg_HostIP a"
  by (erule fixAddr_cases) auto

lemma parseFlagRaftNodeID_ok: "\<exists>nid. parseFlagRaftNodeID a = Ret (a\<lparr>arg_NodeID := nid\<rparr>)"
proof -
  have two: "\<exists>x y zs. str_Split (CHR '','') (u @ CHR '','' # v) = x # y # zs" for u v
  proof (induction u)
    case Nil
    then show ?case by (cases "str_Split (CHR '','') v") auto
  qed auto
  from two [of "arg_HTTPAddr a" "arg_RaftAddr a"] show ?thesis
    by (auto simp: parseFlagRaftNodeID_def NodeID_Fix_def NodeID_RaftAddr_def Let_def)
qed

lemma filepath_Clean_nonempty: "filepath_Clean p \<noteq> []"
  by (simp add: filepath_Clean_def Let_def)

lemma parseFlagRaftDir_set: "arg_RaftNodeDir (parseFlagRaftDir env a) \<noteq> []"
  by (simp add: parseFlagRaftDir_def filepath_Join_def filepath_Clean_nonempty Let_def split: option.split)

lemma parseFlagRaftDir_frame:
  obtains dir where "parseFlagRaftDir env a = a\<lparr>arg_RaftNodeDir := dir\<rparr>"
proof (cases "arg_RaftNodeDir a = []")
  case False
  with that [of "arg_RaftNodeDir a"] show thesis by (simp add: parseFlagRaftDir_def)
qed (auto simp: parseFlagRaftDir_def Let_def intro: that)

lemma parseBootstrap_frame:
  assumes "parseBootstrap env a = Ret a'"
  obtains slice b where "a' = a\<lparr>arg_JoinAddrSlice := slice, arg_Bootstrap := b\<rparr>"
      "join_loop (arg_HostIP a) (arg_JoinAddrs a) (str_Split (CHR '','') (arg_JoinAddrs a)) [] = Ret slice"
      "b = (if slice = [] \<or> hd slice = arg_HTTPAddr a then True
            else if snd (SplitHostPort0 (hd slice)) \<noteq> snd (SplitHostPort0 (arg_HTTPAddr a)) then arg_Bootstrap a
            else isLocalHost env a (fst (SplitHostPort0 (hd slice))))"
proof -
  from assms obtain slice where s:
      "join_loop (arg_HostIP a) (arg_JoinAddrs a) (str_Split (CHR '','') (arg_JoinAddrs a)) [] = Ret slice"
    by (auto simp: parseBootstrap_def outcome_simps)
  let ?b = "if slice = [] \<or> hd slice = arg_HTTPAddr a then True
            else if snd (SplitHostPort0 (hd slice)) \<noteq> snd (SplitHostPort0 (arg_HTTPAddr a)) then arg_Bootstrap a
            else isLocalHost env a (fst (SplitHostPort0 (hd slice)))"
  have "a' = a\<lparr>arg_JoinAddrSlice := slice, arg_Bootstrap := ?b\<rparr>"
    using assms s isLocalHost_cong [of "a\<lparr>arg_JoinAddrSlice := slice\<rparr>" a env]
    by (auto simp: parseBootstrap_def Let_def case_prod_beta split: if_splits)
  with s that show thesis by blast
qed

lemma parseBootstrap_idem:
  assumes "parseBootstrap env a = Ret a'"
  shows "parseBootstrap env a' = Ret a'"
  using assms
proof (rule parseBootstrap_frame)
  fix slice b
  assume *: "a' = a\<lparr>arg_JoinAddrSlice := slice, arg_Bootstrap := b\<rparr>"
      "join_loop (arg_HostIP a) (arg_JoinAddrs a) (str_Split (CHR '','') (arg_JoinAddrs a)) [] = Ret slice"
      "b = (if slice = [] \<or> hd slice = arg_HTTPAddr a then True
            else if snd (SplitHostPort0 (hd slice)) \<noteq> snd (SplitHostPort0 (arg_HTTPAddr a)) then arg_Bootstrap a
            else isLocalHost env a (fst (SplitHostPort0 (hd slice))))"
  from * isLocalHost_cong [of a' a env] show ?thesis
    by (simp add: parseBootstrap_def Let_def case_prod_beta isLocalHost_def split: if_splits)
qed

text \<open>The steps of a \<open>Fix\<close> that returns.\<close>

lemma Arg_Fix_steps:
  assumes "Arg_Fix env a = Ret a'"
  obtains a0 a1 nid dir where
    "a0 = a\<lparr>arg_LoggerSet := True, arg_HostIP := MainIP env (arg_IfaceName a)\<rparr>"
    "fixAddr env a0 = Ret a1"
    "NodeID_Fix (arg_HostIP a1) (arg_HTTPAddr a1 @ '','' @ arg_RaftAddr a1) = Ret nid"
    "dir \<noteq> []" "parseBootstrap env (a1\<lparr>arg_NodeID := nid, arg_RaftNodeDir := dir\<rparr>) = Ret a'"
proof -
  let ?a0 = "a\<lparr>arg_LoggerSet := True, arg_HostIP := MainIP env (arg_IfaceName a)\<rparr>"
  have l: "(if arg_LoggerSet a then a else a\<lparr>arg_LoggerSet := True\<rparr>) = a\<lparr>arg_LoggerSet := True\<rparr>"
    by (cases a) simp
  from assms obtain a1 a2 where a1: "fixAddr env ?a0 = Ret a1" "parseFlagRaftNodeID a1 = Ret a2"
      "parseBootstrap env (parseFlagRaftDir env a2) = Ret a'"
    unfolding Arg_Fix_def l by (auto simp: Let_def outcome_simps)
  from a1(2) obtain nid where nid: "a2 = a1\<lparr>arg_NodeID := nid\<rparr>"
      "NodeID_Fix (arg_HostIP a1) (arg_HTTPAddr a1 @ '','' @ arg_RaftAddr a1) = Ret nid"
    by (auto simp: parseFlagRaftNodeID_def outcome_simps)
  obtain dir where "parseFlagRaftDir env a2 = a2\<lparr>arg_RaftNodeDir := dir\<rparr>"
    by (rule parseFlagRaftDir_frame)
  with parseFlagRaftDir_set [of env a2] a1 nid that show thesis by auto
qed

section \<open>Properties\<close>







definition demo_env :: host_env where
  "demo_env = \<lparr>MainIP = (\<lambda>_. ''192.168.0.1''), LookupIP = (\<lambda>_. None), HomeDir = Some ''/home/raft''\<rparr>"

text \<open>The command lines \<open>hraftd --haddr :11000 --rjoin :11000\<close> and \<open>--haddr :11001 --rjoin :11000\<close>.\<close>

definition demo_arg :: "string \<Rightarrow> (string, string) Arg" where
  "demo_arg haddr = MakeArg\<lparr>arg_HTTPAddr := haddr, arg_JoinAddrs := '':11000''\<rparr>"

lemmas arg_eval = demo_env_def demo_arg_def MakeArg_def Arg_Fix_def fixAddr_def parseFlagRaftNodeID_def
  parseFlagRaftDir_def parseBootstrap_def isLocalHost_def ParseIps_def ParseIP_def SplitHostPort_def
  split_finish_def SplitHostPort0_def NodeID_Fix_def NodeID_HTTPAddr_def NodeID_RaftAddr_def
  EmptyThen_def If_str_def filepath_Join_def filepath_Clean_def clean_elem_def Let_def



text \<open>
  \<open>Fix\<close> is idempotent: a second \<open>Fix\<close> of completed parameters returns them unchanged, if the
  main IP holds no colon or bracket and no given address has a bracketed (IPv6) host.
\<close>

theorem Arg_Fix_idempotent:
  assumes "Arg_Fix env a = Ret a'" "addr_plain (MainIP env (arg_IfaceName a))"
    and "CHR ''['' \<notin> set (arg_RaftAddr a)" "CHR ''['' \<notin> set (arg_HTTPAddr a)"
  shows "Arg_Fix env a' = Ret a'"
  using assms(1)
proof (rule Arg_Fix_steps)
  fix a0 a1 nid dir
  assume s: "a0 = a\<lparr>arg_LoggerSet := True, arg_HostIP := MainIP env (arg_IfaceName a)\<rparr>"
    "fixAddr env a0 = Ret a1" "NodeID_Fix (arg_HostIP a1) (arg_HTTPAddr a1 @ '','' @ arg_RaftAddr a1) = Ret nid"
    "dir \<noteq> []" "parseBootstrap env (a1\<lparr>arg_NodeID := nid, arg_RaftNodeDir := dir\<rparr>) = Ret a'"
  from s(5) obtain slice b where a':
      "a' = a1\<lparr>arg_NodeID := nid, arg_RaftNodeDir := dir, arg_JoinAddrSlice := slice, arg_Bootstrap := b\<rparr>"
    by (elim parseBootstrap_frame) auto
  have a1: "arg_HostIP a1 = MainIP env (arg_IfaceName a1)" "arg_LoggerSet a1" "arg_HostIP a1 = arg_HostIP a0"
    using s(1,2) by (auto elim!: fixAddr_cases)
  have "addr_settled env a0 (arg_RaftAddr a1) \<and> addr_settled env a0 (arg_HTTPAddr a1)"
    using s(1) assms(2-4) by (intro fixAddr_settles [OF s(2)]) simp_all
  then have fixed: "fixAddr env a' = Ret a'"
    using addr_settled_cong [of a0 a' env] a1(3) a' by (intro fixAddr_settled) simp_all
  have "parseFlagRaftNodeID a' = Ret a'" "parseFlagRaftDir env a' = a'"
    using s(3,4) a' by (simp_all add: parseFlagRaftNodeID_def parseFlagRaftDir_def)
  moreover have "a'\<lparr>arg_HostIP := MainIP env (arg_IfaceName a')\<rparr> = a'" "arg_LoggerSet a'"
    using a1 a' by (cases a1, simp)+
  ultimately show ?thesis
    using fixed parseBootstrap_idem [OF s(5)] by (simp add: Arg_Fix_def Let_def)
qed

lemma demo_Arg_Fix:
  "Arg_Fix demo_env (demo_arg '':11001'') =
     Ret ((demo_arg '':11001'')\<lparr>arg_LoggerSet := True, arg_HostIP := ''192.168.0.1'',
       arg_HTTPAddr := ''192.168.0.1:11001'', arg_RaftAddr := ''192.168.0.1:12001'',
       arg_NodeID := ''192.168.0.1:11001,192.168.0.1:12001'',
       arg_RaftNodeDir := ''/home/raft/.hraftd/192.168.0.1:11001,192.168.0.1:12001'',
       arg_JoinAddrSlice := [''192.168.0.1:11000'']\<rparr>)"
  by (simp add: arg_eval go_eval)

theorem Arg_Fix_idempotent_witness:
  "\<exists>a'. Arg_Fix demo_env (demo_arg '':11001'') = Ret a' \<and> Arg_Fix demo_env a' = Ret a'"
proof -
  have "addr_plain (MainIP demo_env (arg_IfaceName (demo_arg '':11001'')))"
    "CHR ''['' \<notin> set (arg_RaftAddr (demo_arg '':11001''))" "CHR ''['' \<notin> set (arg_HTTPAddr (demo_arg '':11001''))"
    by (simp_all add: demo_env_def demo_arg_def MakeArg_def addr_plain_def)
  from Arg_Fix_idempotent [OF demo_Arg_Fix this] demo_Arg_Fix show ?thesis by blast
qed

text \<open>
  After \<open>Fix\<close> the node ID tells how to reach the node: its HTTP and Raft addresses are the
  main IP with the ports of \<open>HTTPAddr\<close> and \<open>RaftAddr\<close> (no comma in the addresses).
\<close>

theorem Arg_Fix_NodeID:
  assumes "Arg_Fix env a = Ret a'" "id_plain (arg_HostIP a')"
    and "CHR '','' \<notin> set (arg_HTTPAddr a')" "CHR '','' \<notin> set (arg_RaftAddr a')"
  shows "NodeID_HTTPAddr (arg_NodeID a') = arg_HostIP a' @ '':'' @ snd (SplitHostPort0 (arg_HTTPAddr a')) \<and>
    NodeID_RaftAddr (arg_NodeID a') = Ret (arg_HostIP a' @ '':'' @ snd (SplitHostPort0 (arg_RaftAddr a')))"
  using assms(1)
proof (rule Arg_Fix_steps)
  fix a0 a1 nid dir
  assume s: "NodeID_Fix (arg_HostIP a1) (arg_HTTPAddr a1 @ '','' @ arg_RaftAddr a1) = Ret nid"
    "parseBootstrap env (a1\<lparr>arg_NodeID := nid, arg_RaftNodeDir := dir\<rparr>) = Ret a'"
  have eq: "arg_NodeID a' = nid" "arg_HTTPAddr a' = arg_HTTPAddr a1" "arg_RaftAddr a' = arg_RaftAddr a1"
      "arg_HostIP a' = arg_HostIP a1"
    using s(2) by (auto elim!: parseBootstrap_frame)
  have plain: "id_plain (snd (SplitHostPort0 x))" if "CHR '','' \<notin> set x" for x
  proof (cases "SplitHostPort x")
    case (Inr hp)
    with SplitHostPort_inv [of x "fst hp" "snd hp"] that show ?thesis
      by (auto simp: SplitHostPort0_def id_plain_def)
  qed (simp add: SplitHostPort0_def)
  have "nid = mk_NodeID (arg_HostIP a1) (snd (SplitHostPort0 (arg_HTTPAddr a1)))
      (snd (SplitHostPort0 (arg_RaftAddr a1)))"
    using s(1) assms(3,4) unfolding eq by (simp add: NodeID_Fix_def mk_NodeID_def Let_def)
  with assms(2-4) plain show ?thesis unfolding eq by (simp add: mk_NodeID_parts)
qed

theorem Arg_Fix_NodeID_witness:
  "NodeID_HTTPAddr ''192.168.0.1:11001,192.168.0.1:12001'' = ''192.168.0.1'' @ '':'' @ snd (SplitHostPort0 ''192.168.0.1:11001'') \<and>
   NodeID_RaftAddr ''192.168.0.1:11001,192.168.0.1:12001'' = Ret (''192.168.0.1'' @ '':'' @ snd (SplitHostPort0 ''192.168.0.1:12001''))"
  using Arg_Fix_NodeID [OF demo_Arg_Fix] by (simp add: id_plain_def addr_plain_def)

text \<open>
  Who bootstraps: parameters without the flag come out of \<open>parseBootstrap\<close> with \<open>Bootstrap\<close>
  set exactly when there is no join address, or the first one is the node's own HTTP address,
  or it has the node's HTTP port and a local host.
\<close>

theorem parseBootstrap_decides:
  assumes "parseBootstrap env a = Ret a'" "\<not> arg_Bootstrap a"
  shows "arg_Bootstrap a' \<longleftrightarrow>
    arg_JoinAddrSlice a' = [] \<or> hd (arg_JoinAddrSlice a') = arg_HTTPAddr a \<or>
    snd (SplitHostPort0 (hd (arg_JoinAddrSlice a'))) = snd (SplitHostPort0 (arg_HTTPAddr a)) \<and>
    isLocalHost env a (fst (SplitHostPort0 (hd (arg_JoinAddrSlice a'))))"
  using assms by (elim parseBootstrap_frame) auto

theorem parseBootstrap_decides_witness:
  "\<exists>a'. parseBootstrap demo_env ((demo_arg ''192.168.0.1:11000'')\<lparr>arg_HostIP := ''192.168.0.1''\<rparr>) = Ret a' \<and>
     arg_JoinAddrSlice a' = [''192.168.0.1:11000''] \<and> arg_Bootstrap a'"
proof -
  let ?a = "(demo_arg ''192.168.0.1:11000'')\<lparr>arg_HostIP := ''192.168.0.1''\<rparr>"
  let ?a' = "?a\<lparr>arg_JoinAddrSlice := [''192.168.0.1:11000''], arg_Bootstrap := True\<rparr>"
  have p: "parseBootstrap demo_env ?a = Ret ?a'" by (simp add: arg_eval go_eval)
  have "\<not> arg_Bootstrap ?a" by (simp add: demo_arg_def MakeArg_def)
  from parseBootstrap_decides [OF p this] p show ?thesis by (auto simp: demo_arg_def)
qed

primrec flag_of :: "flag_def \<Rightarrow> arg_field \<times> string" where
  "flag_of (BoolVar f n d) = (f, n)"
| "flag_of (StringVar f n d) = (f, n)"

text \<open>
  The flags \<open>DefineFlags\<close> defines are the ones with a non-empty name, in the order of the
  code, each for its own parameter; a name set to the empty string disables its flag only.
\<close>

theorem DefineFlags_nonempty:
  "map flag_of (snd (DefineFlags defaults_Set fns p)) = map flag_of p @
     (let f = createFlagNames defaults_Set fns in
      filter (\<lambda>(_, n). n \<noteq> [])
        [(FInMem, Rmem f), (FHTTPAddr, Haddr f), (FHTTPAdv, Hadv f), (FRaftAddr, Raddr f),
         (FRaftAdv, Radv f), (FRaftNodeDir, Rdir f), (FJoinAddrs, Rjoin f), (FIfaceName, Iface f)])"
  by (simp add: DefineFlags_def boolVar_def strVar_def Let_def)

text \<open>
  The upper limit of \<open>fixAddr\<close> is below the range of TCP ports: an HTTP port from 34566 to
  64535, whose Raft port would be a valid port, makes \<open>Fix\<close> panic.
\<close>

theorem fixAddr_rejects_valid_port:
  assumes "arg_RaftAddr a = []" "arg_HTTPAddr a = h @ '':'' @ fmt_d port" "addr_plain h"
    and "34565 < port" "port + 1000 \<le> 65535"
  shows "fixAddr env a = Panic (''port '' @ fmt_d port @ '' is too large (<= 34565)'')"
proof -
  have "strconv_Atoi (fmt_d port) = port" using assms(4,5) by (simp add: strconv_Atoi_fmt_d)
  with assms show ?thesis by (simp add: fixAddr_def)
qed

theorem fixAddr_rejects_valid_port_witness:
  "fixAddr demo_env (demo_arg '':40000'') = Panic ''port 40000 is too large (<= 34565)''"
  using fixAddr_rejects_valid_port [of "demo_arg '':40000''" "[]" 40000 demo_env]
  by (simp add: demo_arg_def MakeArg_def go_eval)

text \<open>
  Bracketed IPv6 hosts do not survive: \<open>fixAddrHost\<close> writes a host that is not local back
  without its brackets, and the result is no address any more (too many colons).
\<close>

theorem fixAddrHost_IPv6:
  assumes "SplitHostPort addr = Inr (h, p)" "CHR '':'' \<in> set h" "\<not> isLocalHost env a h" "hd h \<noteq> CHR ''[''"
  shows "\<exists>r e. fixAddrHost env a addr = Ret r \<and> SplitHostPort r = Inl e"
proof -
  have p: "CHR '':'' \<notin> set p" using SplitHostPort_inv [OF assms(1)] by (simp add: addr_plain_def)
  from assms(2) have "h \<noteq> []" by auto
  with assms(2,4) p have "\<exists>e. SplitHostPort (h @ CHR '':'' # p) = Inl e"
    by (simp add: SplitHostPort_def)
  then show ?thesis using assms by (simp add: fixAddrHost_def Let_def If_str_def)
qed

theorem fixAddrHost_IPv6_witness:
  "\<exists>r e. fixAddrHost demo_env (demo_arg []) ''[fe80::1]:11000'' = Ret r \<and> SplitHostPort r = Inl e"
proof -
  have s: "SplitHostPort ''[fe80::1]:11000'' = Inr (''fe80::1'', ''11000'')" by (simp add: arg_eval)
  have "\<not> isLocalHost demo_env (demo_arg []) ''fe80::1''" by (simp add: arg_eval)
  from fixAddrHost_IPv6 [OF s _ this] show ?thesis by simp
qed

end
