(* ===== verification/Http_Client.thy ===== *)
theory Http_Client
  imports Args
begin

text \<open>
  \<open>http.go\<close>, \<open>peerjob.go\<close> and the client half of \<open>arg.go\<close>: requests to other nodes. The JSON
  library (\<open>jsoniter\<close>) is the parameter \<open>json_lib\<close>, one pair of functions per type the program
  encodes. A decoder that fills a structure the program looks at even after an error returns
  the structure and the error.

  What the rest of the world answers is the parameter \<open>responder\<close> of the world: the answer to a
  request may depend on all requests this node sent before, which the world records.
\<close>

section \<open>JSON\<close>

record ConfigEntry =
  ce_ID :: string
  ce_Address :: string
  ce_Suffrage :: string

record json_lib =
  js_Command :: "Command \<Rightarrow> string"
  js_unCommand :: "string \<Rightarrow> go_error + Command"
  js_map :: "(string \<rightharpoonup> string) \<Rightarrow> string"
  js_unmap :: "string \<Rightarrow> go_error + (string \<rightharpoonup> string)"
  js_entries :: "ConfigEntry list \<Rightarrow> string"
  js_unentries :: "string \<Rightarrow> go_error + ConfigEntry list"
  js_cluster :: "RaftCluster \<Rightarrow> string"
  js_uncluster :: "string \<Rightarrow> RaftCluster \<times> go_error option"
  js_join :: "JoinRequest \<Rightarrow> string"
  js_unjoin :: "string \<Rightarrow> go_error + JoinRequest"
  js_rsp :: "string Rsp \<Rightarrow> string"
  js_unrsp :: "string \<Rightarrow> string Rsp \<times> go_error option"

definition zero_Rsp :: "string Rsp" where
  "zero_Rsp = \<lparr>rsp_OK = False, rsp_Msg = [], rsp_Data = None\<rparr>"

section \<open>Requests\<close>

datatype http_req = GET string | POST string string

record http_world =
  responder :: "http_req list \<Rightarrow> http_req \<Rightarrow> go_error + nat \<times> string"
  http_log :: "http_req list"

definition do_http :: "http_req \<Rightarrow> http_world \<Rightarrow> (go_error + nat \<times> string) \<times> http_world" where
  "do_http q w = (responder w (http_log w) q, w\<lparr>http_log := http_log w @ [q]\<rparr>)"

text \<open>\<open>parseRSP\<close>: the body is read and decoded, whatever the status code is.\<close>

definition parseRSP :: "(string \<Rightarrow> 'a \<times> go_error option) \<Rightarrow> nat \<times> string \<Rightarrow> 'a \<times> go_error option" where
  "parseRSP dec resp = dec (snd resp)"

definition GetJSON ::
    "(string \<Rightarrow> 'a \<times> go_error option) \<Rightarrow> 'a \<Rightarrow> string \<Rightarrow> http_world \<Rightarrow> ('a \<times> go_error option) \<times> http_world" where
  "GetJSON dec v addr w =
     (case do_http (GET addr) w of
        (Inl err, w') \<Rightarrow> ((v, Some err), w')
      | (Inr resp, w') \<Rightarrow> (parseRSP dec resp, w'))"

definition PostJSON ::
    "(string \<Rightarrow> 'a \<times> go_error option) \<Rightarrow> 'a \<Rightarrow> string \<Rightarrow> string \<Rightarrow> http_world \<Rightarrow>
     ('a \<times> go_error option) \<times> http_world" where
  "PostJSON dec v addr body w =
     (case do_http (POST addr body) w of
        (Inl err, w') \<Rightarrow> ((v, Some err), w')
      | (Inr resp, w') \<Rightarrow> (parseRSP dec resp, w'))"

section \<open>Joining a cluster\<close>

text \<open>\<open>Cluster\<close> of \<open>arg.go\<close>: the cluster as another node sees it.\<close>

definition Cluster_of ::
    "json_lib \<Rightarrow> NodeID \<Rightarrow> http_world \<Rightarrow> (RaftCluster \<times> go_error option) \<times> http_world" where
  "Cluster_of js nodeID w = GetJSON (js_uncluster js) zero_RaftCluster (URLRaftCluster nodeID) w"

fun joined_loop :: "NodeID \<Rightarrow> Peer list \<Rightarrow> go_error option" where
  "joined_loop nodeID [] = Some (Err (''checked failed for joined node '' @ nodeID))"
| "joined_loop nodeID (peer # peers) = (if peer_ID peer = nodeID then None else joined_loop nodeID peers)"

definition checkJoined :: "json_lib \<Rightarrow> NodeID \<Rightarrow> http_world \<Rightarrow> go_error option \<times> http_world" where
  "checkJoined js nodeID w =
     (case Cluster_of js nodeID w of
        ((cluster, Some err), w') \<Rightarrow> (Some err, w')
      | ((cluster, None), w') \<Rightarrow> (joined_loop nodeID (rc_Servers cluster), w'))"

definition Join :: "json_lib \<Rightarrow> string \<Rightarrow> string \<Rightarrow> NodeID \<Rightarrow> http_world \<Rightarrow> go_error option \<times> http_world" where
  "Join js joinAddr raftAddr nodeID w =
     (let joinURL = BindAddr_URLRaftJoin joinAddr in
      case PostJSON (js_unrsp js) zero_Rsp joinURL (js_join js \<lparr>jr_Addr = raftAddr, jr_NodeID = nodeID\<rparr>) w of
        ((r, Some err), w') \<Rightarrow> (Some err, w')
      | ((r, None), w') \<Rightarrow>
          if rsp_OK r then checkJoined js nodeID w' else (Some (Err (rsp_Msg r)), w'))"

fun join_addrs :: "json_lib \<Rightarrow> string \<Rightarrow> NodeID \<Rightarrow> string list \<Rightarrow> http_world \<Rightarrow> bool \<times> http_world" where
  "join_addrs js raftAddr nodeID [] w = (False, w)"
| "join_addrs js raftAddr nodeID (joinAddr # addrs) w =
     (case Join js joinAddr raftAddr nodeID w of
        (None, w') \<Rightarrow> (True, w')
      | (Some err, w') \<Rightarrow> join_addrs js raftAddr nodeID addrs w')"

definition Arg_Join :: "json_lib \<Rightarrow> ('v, 'w) Arg \<Rightarrow> http_world \<Rightarrow> go_error option \<times> http_world" where
  "Arg_Join js a w =
     (if arg_Bootstrap a then (None, w)
      else (case join_addrs js (arg_RaftAddr a) (arg_NodeID a) (arg_JoinAddrSlice a) w of
          (True, w') \<Rightarrow> (None, w')
        | (False, w') \<Rightarrow> (Some (Err (''failed to join '' @ arg_JoinAddrs a)), w')))"

section \<open>Distributing a job\<close>

text \<open>
  \<open>Peer.DistributeJob\<close>: the job response carries its data as raw JSON; \<open>body\<close> is the encoded
  request and \<open>unm\<close> decodes the data into the caller's response (\<^term>\<open>[]\<close> for absent data).
\<close>

definition DistributeJob ::
    "json_lib \<Rightarrow> (string \<Rightarrow> go_error + 'a) \<Rightarrow> Peer \<Rightarrow> string \<Rightarrow> string \<Rightarrow> http_world \<Rightarrow>
     (go_error + 'a) \<times> http_world" where
  "DistributeJob js unm p path body w =
     (let jobURL = NodeID_URL (peer_ID p) (DoJobPath @ path) in
      case PostJSON (js_unrsp js) zero_Rsp jobURL body w of
        ((jobRsp, Some err), w') \<Rightarrow> (Inl err, w')
      | ((jobRsp, None), w') \<Rightarrow>
          if \<not> rsp_OK jobRsp then (Inl (Err (rsp_Msg jobRsp)), w')
          else (unm (case rsp_Data jobRsp of None \<Rightarrow> [] | Some d \<Rightarrow> d), w'))"

section \<open>Facts\<close>

lemma joined_loop_None: "joined_loop nodeID peers = None \<longleftrightarrow> nodeID \<in> peer_ID ` set peers"
  by (induction peers) auto

lemma GetJSON_log [simp]: "http_log (snd (GetJSON dec v addr w)) = http_log w @ [GET addr]"
  by (auto simp: GetJSON_def do_http_def split: sum.split)

lemma GetJSON_responder [simp]: "responder (snd (GetJSON dec v addr w)) = responder w"
  by (auto simp: GetJSON_def do_http_def split: sum.split)

lemma PostJSON_log [simp]: "http_log (snd (PostJSON dec v addr body w)) = http_log w @ [POST addr body]"
  by (auto simp: PostJSON_def do_http_def split: sum.split)

lemma PostJSON_responder [simp]: "responder (snd (PostJSON dec v addr body w)) = responder w"
  by (auto simp: PostJSON_def do_http_def split: sum.split)

section \<open>Properties\<close>

text \<open>The URLs of the POST requests in a log.\<close>

fun posts :: "http_req list \<Rightarrow> string list" where
  "posts [] = []"
| "posts (GET u # qs) = posts qs"
| "posts (POST u b # qs) = u # posts qs"

lemma posts_append [simp]: "posts (a @ b) = posts a @ posts b"
  by (induction a rule: posts.induct) auto

lemma Join_posts: "posts (http_log (snd (Join js addr ra nid w))) = posts (http_log w) @ [BindAddr_URLRaftJoin addr]"
proof -
  obtain r e w' where p: "PostJSON (js_unrsp js) zero_Rsp (BindAddr_URLRaftJoin addr)
      (js_join js \<lparr>jr_Addr = ra, jr_NodeID = nid\<rparr>) w = ((r, e), w')" by (metis surjective_pairing)
  then have log: "posts (http_log w') = posts (http_log w) @ [BindAddr_URLRaftJoin addr]"
    using PostJSON_log [of "js_unrsp js" zero_Rsp "BindAddr_URLRaftJoin addr" _ w] by (metis posts.simps posts_append snd_conv)
  obtain c e' w'' where g: "Cluster_of js nid w' = ((c, e'), w'')" by (metis surjective_pairing)
  then have "posts (http_log w'') = posts (http_log w')"
    using GetJSON_log [of "js_uncluster js" zero_RaftCluster "URLRaftCluster nid" w'] by (simp add: Cluster_of_def)
  with p g log show ?thesis
    by (cases e; cases e') (auto simp: Join_def checkJoined_def Let_def)
qed

lemma join_addrs_posts:
  assumes "join_addrs js ra nid addrs w = (ok, w')"
  shows "\<exists>n \<le> length addrs. posts (http_log w') = posts (http_log w) @ map BindAddr_URLRaftJoin (take n addrs) \<and>
    (\<not> ok \<longrightarrow> n = length addrs) \<and>
    (ok \<longrightarrow> 0 < n \<and> (\<exists>w1. Join js (addrs ! (n - 1)) ra nid w1 = (None, w')))"
  using assms
proof (induction js ra nid addrs w rule: join_addrs.induct)
  case (2 js ra nid addr addrs w)
  obtain e w1 where j: "Join js addr ra nid w = (e, w1)" by fastforce
  note log = Join_posts [of js addr ra nid w, unfolded j snd_conv]
  show ?case
  proof (cases e)
    case None
    with 2 j log show ?thesis by (intro exI [of _ 1]) auto
  next
    case (Some err)
    with 2 j obtain n where n: "n \<le> length addrs" "posts (http_log w') = posts (http_log w1) @ map BindAddr_URLRaftJoin (take n addrs)"
      "\<not> ok \<longrightarrow> n = length addrs" "ok \<longrightarrow> 0 < n \<and> (\<exists>w1. Join js (addrs ! (n - 1)) ra nid w1 = (None, w'))"
      by auto
    with log show ?thesis by (intro exI [of _ "Suc n"]) (auto simp: nth_Cons')
  qed
qed auto

lemma Join_verified:
  assumes "Join js addr ra nid w = (None, w')"
  shows "\<exists>cl w1. Cluster_of js nid w1 = ((cl, None), w') \<and> nid \<in> peer_ID ` set (rc_Servers cl)"
proof -
  obtain r w1 where "checkJoined js nid w1 = (None, w')"
    using assms by (auto simp: Join_def Let_def split: prod.splits option.splits if_splits)
  then show ?thesis
    by (auto simp: checkJoined_def joined_loop_None split: prod.splits option.splits)
qed

text \<open>
  Joining a cluster: the bootstrap node sends nothing. Any other node asks the join addresses
  in their order, each at most once, until one \<open>Join\<close> succeeds; the error is returned only
  after all were asked. Success is never taken on trust: the node then sees itself listed
  among the servers of its own cluster view.
\<close>

theorem Arg_Join_in_order:
  "(arg_Bootstrap a \<longrightarrow> Arg_Join js a w = (None, w)) \<and>
   (\<not> arg_Bootstrap a \<longrightarrow> Arg_Join js a w = (err, w') \<longrightarrow>
     (\<exists>n \<le> length (arg_JoinAddrSlice a).
        posts (http_log w') = posts (http_log w) @ map BindAddr_URLRaftJoin (take n (arg_JoinAddrSlice a)) \<and>
        (err \<noteq> None \<longrightarrow> n = length (arg_JoinAddrSlice a)) \<and>
        (err = None \<longrightarrow> (\<exists>cl w1. Cluster_of js (arg_NodeID a) w1 = ((cl, None), w') \<and>
           arg_NodeID a \<in> peer_ID ` set (rc_Servers cl)))))"
proof (intro conjI impI)
  show "arg_Bootstrap a \<Longrightarrow> Arg_Join js a w = (None, w)" by (simp add: Arg_Join_def)
next
  assume nb: "\<not> arg_Bootstrap a" and r: "Arg_Join js a w = (err, w')"
  obtain ok where j: "join_addrs js (arg_RaftAddr a) (arg_NodeID a) (arg_JoinAddrSlice a) w = (ok, w')"
      "ok \<longleftrightarrow> err = None"
    using nb r by (auto simp: Arg_Join_def split: prod.splits bool.splits)
  from join_addrs_posts [OF j(1)] j(2) Join_verified show
    "\<exists>n \<le> length (arg_JoinAddrSlice a).
        posts (http_log w') = posts (http_log w) @ map BindAddr_URLRaftJoin (take n (arg_JoinAddrSlice a)) \<and>
        (err \<noteq> None \<longrightarrow> n = length (arg_JoinAddrSlice a)) \<and>
        (err = None \<longrightarrow> (\<exists>cl w1. Cluster_of js (arg_NodeID a) w1 = ((cl, None), w') \<and>
           arg_NodeID a \<in> peer_ID ` set (rc_Servers cl)))"
    by metis
qed

definition silent_json :: json_lib where
  "silent_json = \<lparr>js_Command = (\<lambda>_. []), js_unCommand = (\<lambda>_. Inl (Err [])), js_map = (\<lambda>_. []),
     js_unmap = (\<lambda>_. Inl (Err [])), js_entries = (\<lambda>_. []), js_unentries = (\<lambda>_. Inl (Err [])),
     js_cluster = (\<lambda>_. []), js_uncluster = (\<lambda>_. (zero_RaftCluster, Some (Err []))),
     js_join = jr_Addr, js_unjoin = (\<lambda>_. Inl (Err [])), js_rsp = (\<lambda>_. []),
     js_unrsp = (\<lambda>_. (zero_Rsp, Some (Err [])))\<rparr>"

theorem Arg_Join_in_order_witness:
  "posts (http_log (snd (Arg_Join silent_json
       ((demo_arg '':11001'')\<lparr>arg_JoinAddrSlice := [''10.0.0.1:11000'', ''10.0.0.2:11000'']\<rparr>)
       \<lparr>responder = (\<lambda>_ _. Inl (Err ''connection refused'')), http_log = []\<rparr>))) =
     [''http://10.0.0.1:11000/hraftd/raft/join'', ''http://10.0.0.2:11000/hraftd/raft/join'']"
proof -
  let ?a = "(demo_arg '':11001'')\<lparr>arg_JoinAddrSlice := [''10.0.0.1:11000'', ''10.0.0.2:11000'']\<rparr>"
  let ?w = "\<lparr>responder = (\<lambda>_ _. Inl (Err ''connection refused'')), http_log = []\<rparr>"
  obtain err w' where r: "Arg_Join silent_json ?a ?w = (err, w')" by fastforce
  have "\<not> arg_Bootstrap ?a" by (simp add: demo_arg_def MakeArg_def)
  moreover have "err \<noteq> None"
    using r by (auto simp: Arg_Join_def Join_def PostJSON_def do_http_def demo_arg_def MakeArg_def Let_def)
  ultimately have "posts (http_log w') =
      map BindAddr_URLRaftJoin [''10.0.0.1:11000'', ''10.0.0.2:11000'']"
    using Arg_Join_in_order [of ?a silent_json ?w err w'] r by auto
  with r show ?thesis
    by (simp add: BindAddr_URLRaftJoin_def BindAddr_URL_def RaftPath_def arg_eval go_eval str_TrimPrefix_def str_HasPrefix_def)
qed

end
