(* ===== verification/Go_Time.thy ===== *)
theory Go_Time
  imports Go_Strings
begin

text \<open>
  The part of package \<open>time\<close> the program uses. An instant is an integer, the nanoseconds
  since 1970-01-01 00:00:00 UTC; the local time zone is a function \<open>loc\<close> from an instant to the
  offset from UTC in seconds. The calendar is the proleptic Gregorian one. \<open>FormatTime\<close> and
  \<open>ParseTime\<close> are those of \<open>util.go\<close>: formatting prints the local wall clock, parsing a text
  without a zone reads it as UTC.
\<close>

section \<open>Calendar\<close>

definition is_leap :: "int \<Rightarrow> bool" where
  "is_leap y = (y mod 4 = 0 \<and> (y mod 100 \<noteq> 0 \<or> y mod 400 = 0))"

definition month_days :: "bool \<Rightarrow> nat list" where
  "month_days leap = [31, if leap then 29 else 28, 31, 30, 31, 30, 31, 31, 30, 31, 30, 31]"

text \<open>Month and day of the month from the day of the year, all counted from 1 but the last.\<close>

fun split_month :: "nat list \<Rightarrow> nat \<Rightarrow> nat \<times> nat" where
  "split_month [] d = (1, Suc d)"
| "split_month (m # ms) d =
     (if d < m then (1, Suc d)
      else (let (mon, day) = split_month ms (d - m) in (Suc mon, day)))"

text \<open>Days from 0001-01-01 to the first day of a year.\<close>

definition days_before_year :: "int \<Rightarrow> int" where
  "days_before_year y = 365 * (y - 1) + (y - 1) div 4 - (y - 1) div 100 + (y - 1) div 400"

text \<open>Year and day of the year, by cycles of 400, 100, 4 and 1 years, as \<open>absDate\<close> of the library.\<close>

definition year_yday :: "int \<Rightarrow> int \<times> int" where
  "year_yday d =
     (let n400 = d div 146097; r = d mod 146097;
          n100 = min 3 (r div 36524); r2 = r - 36524 * n100;
          n4 = r2 div 1461; r3 = r2 mod 1461;
          n1 = min 3 (r3 div 365); yday = r3 - 365 * n1
      in (400 * n400 + 100 * n100 + 4 * n4 + n1 + 1, yday))"

definition unix_epoch_day :: int where
  "unix_epoch_day = 719162"

record civil =
  cv_year :: int
  cv_month :: nat
  cv_day :: nat
  cv_hour :: nat
  cv_min :: nat
  cv_sec :: nat
  cv_nsec :: nat

definition civil_of :: "int \<Rightarrow> civil" where
  "civil_of ns =
     (let secs = ns div 1000000000; d = secs div 86400; sod = nat (secs mod 86400);
          (y, yday) = year_yday (d + unix_epoch_day);
          (mon, day) = split_month (month_days (is_leap y)) (nat yday)
      in \<lparr>cv_year = y, cv_month = mon, cv_day = day,
          cv_hour = sod div 3600, cv_min = sod mod 3600 div 60, cv_sec = sod mod 60,
          cv_nsec = nat (ns mod 1000000000)\<rparr>)"

definition instant_of :: "civil \<Rightarrow> int" where
  "instant_of c =
     ((days_before_year (cv_year c) - unix_epoch_day
        + int (sum_list (take (cv_month c - 1) (month_days (is_leap (cv_year c)))))
        + int (cv_day c) - 1) * 86400
      + int (cv_hour c) * 3600 + int (cv_min c) * 60 + int (cv_sec c)) * 1000000000
     + int (cv_nsec c)"

section \<open>Formatting\<close>

text \<open>\<open>appendInt\<close>: decimal, zero-padded to a width.\<close>

definition pad_dec :: "nat \<Rightarrow> nat \<Rightarrow> string" where
  "pad_dec w n = replicate (w - length (dec_nat n)) (CHR ''0'') @ dec_nat n"

definition pad_year :: "int \<Rightarrow> string" where
  "pad_year y = (if y < 0 then ''-'' @ pad_dec 4 (nat (- y)) else pad_dec 4 (nat y))"

text \<open>The layout \<open>2006-01-02 15:04:05.000\<close>; the milliseconds are truncated.\<close>

definition format_civil :: "civil \<Rightarrow> string" where
  "format_civil c =
     pad_year (cv_year c) @ ''-'' @ pad_dec 2 (cv_month c) @ ''-'' @ pad_dec 2 (cv_day c) @ '' '' @
     pad_dec 2 (cv_hour c) @ '':'' @ pad_dec 2 (cv_min c) @ '':'' @ pad_dec 2 (cv_sec c) @ ''.'' @
     pad_dec 3 (cv_nsec c div 1000000)"

definition wall_clock :: "(int \<Rightarrow> int) \<Rightarrow> int \<Rightarrow> civil" where
  "wall_clock loc t = civil_of (t + loc t * 1000000000)"

definition FormatTime :: "(int \<Rightarrow> int) \<Rightarrow> int \<Rightarrow> string" where
  "FormatTime loc t = format_civil (wall_clock loc t)"

section \<open>Parsing\<close>

text \<open>\<open>getnum\<close>: one or two digits; exactly two when \<open>fixed\<close>.\<close>

fun getnum :: "bool \<Rightarrow> string \<Rightarrow> (nat \<times> string) option" where
  "getnum fixed [] = None"
| "getnum fixed (a # s) =
     (case digit_val a of
        None \<Rightarrow> None
      | Some x \<Rightarrow>
          (case s of
             [] \<Rightarrow> if fixed then None else Some (x, s)
           | b # s' \<Rightarrow>
               (case digit_val b of
                  None \<Rightarrow> if fixed then None else Some (x, s)
                | Some y \<Rightarrow> Some (x * 10 + y, s'))))"

text \<open>\<open>skip\<close> for a literal other than a space, and for one space, which any run of spaces fits.\<close>

fun skip_char :: "char \<Rightarrow> string \<Rightarrow> string option" where
  "skip_char c [] = None"
| "skip_char c (x # s) = (if x = c then Some s else None)"

definition skip_space :: "string \<Rightarrow> string option" where
  "skip_space s =
     (case s of
        [] \<Rightarrow> Some []
      | c # _ \<Rightarrow> if c = CHR '' '' then Some (dropWhile (\<lambda>x. x = CHR '' '') s) else None)"

text \<open>\<open>atoi\<close> of the library: an optional sign, then digits only.\<close>

fun all_digits :: "nat \<Rightarrow> string \<Rightarrow> nat option" where
  "all_digits acc [] = Some acc"
| "all_digits acc (c # cs) =
     (case digit_val c of None \<Rightarrow> None | Some d \<Rightarrow> all_digits (10 * acc + d) cs)"

definition time_atoi :: "string \<Rightarrow> int option" where
  "time_atoi s =
     (case s of
        [] \<Rightarrow> Some 0
      | c # cs \<Rightarrow>
          if c = CHR ''-'' then map_option (\<lambda>n. - int n) (all_digits 0 cs)
          else if c = CHR ''+'' then map_option int (all_digits 0 cs)
          else map_option int (all_digits 0 s))"

definition parse_year :: "string \<Rightarrow> (int \<times> string) option" where
  "parse_year s =
     (if length s < 4 \<or> digit_val (hd s) = None then None
      else map_option (\<lambda>y. (y, drop 4 s)) (time_atoi (take 4 s)))"

definition parse_millis :: "string \<Rightarrow> (nat \<times> string) option" where
  "parse_millis s =
     (if length s < 4 \<or> hd s \<noteq> CHR ''.'' then None
      else (case time_atoi (take 3 (tl s)) of
              None \<Rightarrow> None
            | Some n \<Rightarrow> if n < 0 then None else Some (nat n, drop 4 s)))"

definition days_in :: "nat \<Rightarrow> int \<Rightarrow> nat" where
  "days_in mon y = month_days (is_leap y) ! (mon - 1)"

definition parse_civil :: "string \<Rightarrow> civil option" where
  "parse_civil s =
     Option.bind (parse_year s) (\<lambda>(y, s).
     Option.bind (skip_char (CHR ''-'') s) (\<lambda>s.
     Option.bind (getnum True s) (\<lambda>(mon, s).
     Option.bind (skip_char (CHR ''-'') s) (\<lambda>s.
     Option.bind (getnum True s) (\<lambda>(day, s).
     Option.bind (skip_space s) (\<lambda>s.
     Option.bind (getnum False s) (\<lambda>(hour, s).
     Option.bind (skip_char (CHR '':'') s) (\<lambda>s.
     Option.bind (getnum True s) (\<lambda>(min, s).
     Option.bind (skip_char (CHR '':'') s) (\<lambda>s.
     Option.bind (getnum True s) (\<lambda>(sec, s).
     Option.bind (parse_millis s) (\<lambda>(ms, s).
       if s = [] \<and> 1 \<le> mon \<and> mon \<le> 12 \<and> hour < 24 \<and> min < 60 \<and> sec < 60 \<and>
          1 \<le> day \<and> day \<le> days_in mon y
       then Some \<lparr>cv_year = y, cv_month = mon, cv_day = day, cv_hour = hour, cv_min = min,
                  cv_sec = sec, cv_nsec = ms * 1000000\<rparr>
       else None))))))))))))"

text \<open>\<open>time.Parse\<close> without a zone in the layout: the text is a time in UTC.\<close>

definition ParseTime :: "string \<Rightarrow> int option" where
  "ParseTime s = map_option instant_of (parse_civil s)"

section \<open>The calendar conversions are inverse\<close>

lemma year_yday_steps:
  assumes "year_yday d = (y, yday)"
  obtains n400 n100 n4 n1 where
    "d = 146097 * n400 + 36524 * n100 + 1461 * n4 + 365 * n1 + yday"
    "y = 400 * n400 + 100 * n100 + 4 * n4 + n1 + 1"
    "0 \<le> n100" "n100 \<le> 3" "0 \<le> n4" "n4 \<le> 24" "0 \<le> n1" "n1 \<le> 3" "0 \<le> yday"
    "yday < 365 \<or> yday = 365 \<and> n1 = 3 \<and> (n4 \<noteq> 24 \<or> n100 = 3)"
proof -
  define r where "r = d mod 146097"
  define n100 where "n100 = min 3 (r div 36524)"
  define r2 where "r2 = r - 36524 * n100"
  define r3 where "r3 = r2 mod 1461"
  define n1 where "n1 = min 3 (r3 div 365)"
  have r: "0 \<le> r" "r < 146097" "d = 146097 * (d div 146097) + r" by (auto simp: r_def)
  have n100: "0 \<le> n100" "n100 \<le> 3" "0 \<le> r2" "r2 < 36524 \<or> n100 = 3 \<and> r2 \<le> 36524"
    using r(1,2) by (auto simp: n100_def r2_def min_def)
  have r3: "0 \<le> r3" "r3 < 1461" "r2 = 1461 * (r2 div 1461) + r3" by (auto simp: r3_def)
  have n4: "0 \<le> r2 div 1461" "r2 div 1461 \<le> 24" using n100 by auto
  have n1: "0 \<le> n1" "n1 \<le> 3" "0 \<le> r3 - 365 * n1" "r3 - 365 * n1 < 365 \<or> n1 = 3 \<and> r3 - 365 * n1 \<le> 365"
    using r3(1,2) by (auto simp: n1_def min_def)
  have yy: "y = 400 * (d div 146097) + 100 * n100 + 4 * (r2 div 1461) + n1 + 1" "yday = r3 - 365 * n1"
    using assms unfolding year_yday_def Let_def r_def [symmetric] n100_def [symmetric]
      r2_def [symmetric] r3_def [symmetric] n1_def [symmetric] by simp_all
  show thesis
  proof (rule that [of "d div 146097" n100 "r2 div 1461" n1])
    show "yday < 365 \<or> yday = 365 \<and> n1 = 3 \<and> (r2 div 1461 \<noteq> 24 \<or> n100 = 3)"
      using n1 n100(4) r3(3) yy(2) by auto
    show "d = 146097 * (d div 146097) + 36524 * n100 + 1461 * (r2 div 1461) + 365 * n1 + yday"
      using r(3) r3(3) yy(2) r2_def by linarith
  qed (use n100 n4 n1 yy in simp_all)
qed

lemma year_yday_days:
  assumes "year_yday d = (y, yday)"
  shows "days_before_year y + yday = d"
  using assms
proof (rule year_yday_steps)
  fix n400 n100 n4 n1
  assume *: "d = 146097 * n400 + 36524 * n100 + 1461 * n4 + 365 * n1 + yday"
    "y = 400 * n400 + 100 * n100 + 4 * n4 + n1 + 1"
    "0 \<le> n100" "n100 \<le> 3" "0 \<le> n4" "n4 \<le> 24" "0 \<le> n1" "n1 \<le> 3"
  have "(y - 1) div 4 = 100 * n400 + 25 * n100 + n4" "(y - 1) div 100 = 4 * n400 + n100"
    "(y - 1) div 400 = n400"
    using * by (simp_all add: int_div_pos_eq)
  with * show ?thesis by (simp add: days_before_year_def)
qed

lemma year_yday_range:
  assumes "year_yday d = (y, yday)"
  shows "0 \<le> yday \<and> yday < (if is_leap y then 366 else 365)"
  using assms
proof (rule year_yday_steps)
  fix n400 n100 n4 n1
  assume *: "y = 400 * n400 + 100 * n100 + 4 * n4 + n1 + 1"
    "0 \<le> n100" "n100 \<le> 3" "0 \<le> n4" "n4 \<le> 24" "0 \<le> n1" "n1 \<le> 3" "0 \<le> yday"
    "yday < 365 \<or> yday = 365 \<and> n1 = 3 \<and> (n4 \<noteq> 24 \<or> n100 = 3)"
  have "is_leap y" if "n1 = 3" "n4 \<noteq> 24 \<or> n100 = 3"
  proof (cases "n4 = 24")
    case True
    with that * have "y = 400 * (n400 + 1)" by simp
    then show ?thesis by (simp add: is_leap_def)
  next
    case False
    with that * have "y = 4 * (100 * n400 + 25 * n100 + n4 + 1)" by simp
    moreover have "y mod 100 = 4 * (n4 + 1)"
      using that * False by (simp add: int_mod_pos_eq [of _ 100 "4 * n400 + n100"])
    ultimately show ?thesis using * by (simp add: is_leap_def)
  qed
  with * show ?thesis by auto
qed

lemma split_month_sum:
  assumes "split_month ms d = (mon, day)" "d < sum_list ms"
  shows "sum_list (take (mon - 1) ms) + day = Suc d \<and> 1 \<le> mon \<and> mon \<le> length ms \<and>
    1 \<le> day \<and> day \<le> ms ! (mon - 1)"
  using assms
proof (induction ms d arbitrary: mon day rule: split_month.induct)
  case (2 m ms d)
  show ?case
  proof (cases "d < m")
    case False
    obtain mon' day' where *: "split_month ms (d - m) = (mon', day')" by force
    with 2 False have "sum_list (take (mon' - 1) ms) + day' = Suc (d - m) \<and> 1 \<le> mon' \<and>
        mon' \<le> length ms \<and> 1 \<le> day' \<and> day' \<le> ms ! (mon' - 1)" by simp
    with 2(2) False * show ?thesis by (cases mon') auto
  qed (use 2 in auto)
qed simp

lemma sum_month_days: "sum_list (month_days leap) = (if leap then 366 else 365)"
  by (simp add: month_days_def)

text \<open>The fields of a civil time are in their ranges.\<close>

definition civil_ok :: "civil \<Rightarrow> bool" where
  "civil_ok c \<longleftrightarrow> 1 \<le> cv_month c \<and> cv_month c \<le> 12 \<and> 1 \<le> cv_day c \<and>
     cv_day c \<le> days_in (cv_month c) (cv_year c) \<and> cv_hour c < 24 \<and> cv_min c < 60 \<and>
     cv_sec c < 60 \<and> cv_nsec c < 1000000000"

lemma civil_of_date:
  assumes "year_yday (d + unix_epoch_day) = (y, yday)"
    and "split_month (month_days (is_leap y)) (nat yday) = (mon, day)"
  shows "days_before_year y - unix_epoch_day
      + int (sum_list (take (mon - 1) (month_days (is_leap y)))) + int day - 1 = d"
    and "1 \<le> mon" "mon \<le> 12" "1 \<le> day" "day \<le> days_in mon y"
proof -
  note r = year_yday_range [OF assms(1)]
  then have lt: "nat yday < sum_list (month_days (is_leap y))"
    by (auto simp: sum_month_days nat_less_iff split: if_splits)
  note s = split_month_sum [OF assms(2) lt]
  show "1 \<le> mon" "mon \<le> 12" "1 \<le> day" "day \<le> days_in mon y"
    using s by (simp_all add: days_in_def) (simp add: month_days_def)
  have "int (sum_list (take (mon - 1) (month_days (is_leap y)))) + int day = yday + 1"
    using s r by (metis Suc_eq_plus1 int_nat_eq of_nat_1 of_nat_add)
  with year_yday_days [OF assms(1)]
  show "days_before_year y - unix_epoch_day
      + int (sum_list (take (mon - 1) (month_days (is_leap y)))) + int day - 1 = d"
    by simp
qed

lemma civil_ok_civil_of: "civil_ok (civil_of ns)"
proof -
  define secs where "secs = ns div 1000000000"
  obtain y yday where y: "year_yday (secs div 86400 + unix_epoch_day) = (y, yday)" by force
  obtain mon day where m: "split_month (month_days (is_leap y)) (nat yday) = (mon, day)" by force
  have "nat (secs mod 86400) < 86400" by simp
  then show ?thesis
    using civil_of_date(2-5) [OF y m] y m
    by (simp add: civil_of_def civil_ok_def Let_def secs_def [symmetric] nat_less_iff less_mult_imp_div_less)
qed

lemma instant_of_civil_of: "instant_of (civil_of ns) = ns"
proof -
  define secs where "secs = ns div 1000000000"
  define sod where "sod = nat (secs mod 86400)"
  obtain y yday where y: "year_yday (secs div 86400 + unix_epoch_day) = (y, yday)" by force
  obtain mon day where m: "split_month (month_days (is_leap y)) (nat yday) = (mon, day)" by force
  define h mi se where "h = sod div 3600" and "mi = sod mod 3600 div 60" and "se = sod mod 60"
  have "sod mod 3600 mod 60 = se" by (simp add: se_def mod_mod_cancel)
  moreover have "sod = h * 3600 + sod mod 3600" "sod mod 3600 = mi * 60 + sod mod 3600 mod 60"
    by (simp_all add: h_def mi_def)
  ultimately have "sod = h * 3600 + mi * 60 + se" by linarith
  moreover have "int sod = secs mod 86400" by (simp add: sod_def)
  ultimately have hms: "int h * 3600 + int mi * 60 + int se = secs mod 86400" by linarith
  have "instant_of (civil_of ns) =
      (secs div 86400 * 86400 + int h * 3600 + int mi * 60 + int se) * 1000000000
      + int (nat (ns mod 1000000000))"
    using civil_of_date(1) [OF y m] y m
    by (simp add: civil_of_def instant_of_def Let_def secs_def [symmetric] sod_def [symmetric]
        h_def [symmetric] mi_def [symmetric] se_def [symmetric] del: int_nat_eq)
  moreover have "secs div 86400 * 86400 + secs mod 86400 = secs" by simp
  with hms have "secs div 86400 * 86400 + int h * 3600 + int mi * 60 + int se = secs" by linarith
  ultimately have "instant_of (civil_of ns) = secs * 1000000000 + int (nat (ns mod 1000000000))"
    by simp
  then show ?thesis by (simp add: secs_def)
qed

section \<open>Formatting and parsing are inverse\<close>

lemma pad_dec_1: "n < 10 \<Longrightarrow> pad_dec (Suc 0) n = [digit_char n]"
  by (simp add: pad_dec_def dec_nat.simps)

lemma pad_dec_Suc:
  assumes "0 < w"
  shows "pad_dec (Suc w) n = pad_dec w (n div 10) @ [digit_char (n mod 10)]"
proof (cases "n < 10")
  case True
  have "replicate w (CHR ''0'') = replicate (w - 1) (CHR ''0'') @ [CHR ''0'']"
    using assms by (cases w) (simp_all add: replicate_append_same)
  with True show ?thesis
    by (simp add: pad_dec_def dec_nat.simps digit_char_def)
next
  case False
  then have "dec_nat n = dec_nat (n div 10) @ [digit_char (n mod 10)]"
    by (subst dec_nat.simps) simp
  then show ?thesis by (simp add: pad_dec_def)
qed

lemma pad_dec_2: "n < 100 \<Longrightarrow> pad_dec 2 n = [digit_char (n div 10), digit_char (n mod 10)]"
  by (simp add: numeral_2_eq_2 pad_dec_Suc pad_dec_1)

lemma pad_dec_3:
  "n < 1000 \<Longrightarrow> pad_dec 3 n =
     [digit_char (n div 100), digit_char (n div 10 mod 10), digit_char (n mod 10)]"
  by (simp add: numeral_3_eq_3 pad_dec_Suc pad_dec_1 div_mult2_eq [symmetric])

lemma pad_dec_4:
  assumes "n < 10000"
  shows "pad_dec 4 n =
     [digit_char (n div 1000), digit_char (n div 100 mod 10), digit_char (n div 10 mod 10),
      digit_char (n mod 10)]"
proof -
  have "pad_dec 4 n = pad_dec 3 (n div 10) @ [digit_char (n mod 10)]"
    using pad_dec_Suc [of 3 n] by simp
  also have "pad_dec 3 (n div 10) =
      [digit_char (n div 10 div 100), digit_char (n div 10 div 10 mod 10), digit_char (n div 10 mod 10)]"
    using assms by (intro pad_dec_3) simp
  finally show ?thesis by (simp add: div_mult2_eq [symmetric])
qed

lemma getnum_pad: "n < 100 \<Longrightarrow> getnum fixed (pad_dec 2 n @ s) = Some (n, s)"
  by (simp add: pad_dec_2)

lemma digit_step: "10 * (n div (10 * k)) + n div k mod 10 = (n::nat) div k"
  using mult_div_mod_eq [of 10 "n div k"] by (simp add: div_mult2_eq [symmetric] mult.commute)

lemma all_digits_4:
  "n < 10000 \<Longrightarrow> all_digits (n div 1000)
     [digit_char (n div 100 mod 10), digit_char (n div 10 mod 10), digit_char (n mod 10)] = Some n"
  using digit_step [of n 100] digit_step [of n 10] digit_step [of n 1] by simp

lemma all_digits_3:
  "n < 1000 \<Longrightarrow> all_digits (n div 100) [digit_char (n div 10 mod 10), digit_char (n mod 10)] = Some n"
  using digit_step [of n 10] digit_step [of n 1] by simp

lemma time_atoi_digits:
  "d < 10 \<Longrightarrow> time_atoi (digit_char d # s) = map_option int (all_digits d s)"
  using digit_char_no_sign [of d] by (simp add: time_atoi_def)

lemma parse_year_pad: "n < 10000 \<Longrightarrow> parse_year (pad_dec 4 n @ s) = Some (int n, s)"
  by (simp add: pad_dec_4 parse_year_def time_atoi_digits all_digits_4 del: all_digits.simps)

lemma parse_millis_pad: "n < 1000 \<Longrightarrow> parse_millis (CHR ''.'' # pad_dec 3 n) = Some (n, [])"
  by (simp add: pad_dec_3 parse_millis_def time_atoi_digits all_digits_3 del: all_digits.simps)

lemma digit_char_not_space: "d < 10 \<Longrightarrow> digit_char d \<noteq> CHR '' ''"
  by (drule less_10_cases) (auto simp: digit_char_def)

lemma pad_dec_2_not_space: "n < 100 \<Longrightarrow> dropWhile (\<lambda>x. x = CHR '' '') (pad_dec 2 n @ s) = pad_dec 2 n @ s"
  by (simp add: pad_dec_2 digit_char_not_space)

text \<open>The years a four-digit layout can show.\<close>

definition year_ok :: "civil \<Rightarrow> bool" where
  "year_ok c \<longleftrightarrow> 0 \<le> cv_year c \<and> cv_year c \<le> 9999"

lemma days_in_bound: "1 \<le> mon \<Longrightarrow> mon \<le> 12 \<Longrightarrow> days_in mon y \<le> 31"
  by (auto simp: days_in_def month_days_def nth_Cons' split: nat.splits)

lemma parse_format_civil:
  assumes "civil_ok c" "year_ok c"
  shows "parse_civil (format_civil c) = Some (c\<lparr>cv_nsec := cv_nsec c div 1000000 * 1000000\<rparr>)"
proof -
  have day: "cv_day c < 100"
    using assms(1) days_in_bound [of "cv_month c" "cv_year c"] by (simp add: civil_ok_def)
  have y: "pad_year (cv_year c) = pad_dec 4 (nat (cv_year c))" "nat (cv_year c) < 10000"
      "int (nat (cv_year c)) = cv_year c"
    using assms(2) by (auto simp: year_ok_def pad_year_def)
  have ms: "cv_nsec c div 1000000 < 1000"
    using assms(1) by (simp add: civil_ok_def less_mult_imp_div_less)
  show ?thesis
    using assms day ms
    by (simp add: parse_civil_def format_civil_def y parse_year_pad getnum_pad civil_ok_def year_ok_def
        skip_space_def pad_dec_2_not_space parse_millis_pad)
qed

text \<open>
  The round trip of \<open>util.go\<close>: what \<open>FormatTime\<close> prints, \<open>ParseTime\<close> reads as the instant at
  which a clock in UTC shows the local wall time, cut to milliseconds. The offset of the local
  zone is not undone.
\<close>

lemma millis_cut:
  "int (nat (ns mod 1000000000) div 1000000 * 1000000) = ns mod 1000000000 - ns mod 1000000"
proof -
  have "int (m div 1000000 * 1000000) = int m - int m mod 1000000" for m
    by (simp add: zdiv_int minus_mod_eq_div_mult)
  then show ?thesis by (simp add: mod_mod_cancel)
qed

lemma instant_of_cut:
  "instant_of (c\<lparr>cv_nsec := n\<rparr>) = instant_of c - int (cv_nsec c) + int n"
  by (simp add: instant_of_def)

lemma ParseTime_format:
  assumes "year_ok (civil_of ns)"
  shows "ParseTime (format_civil (civil_of ns)) = Some (ns div 1000000 * 1000000)"
proof -
  have n: "cv_nsec (civil_of ns) = nat (ns mod 1000000000)"
    by (simp add: civil_of_def Let_def case_prod_beta)
  have "instant_of ((civil_of ns)\<lparr>cv_nsec := cv_nsec (civil_of ns) div 1000000 * 1000000\<rparr>)
      = ns - ns mod 1000000"
    unfolding instant_of_cut instant_of_civil_of n by (subst millis_cut) simp_all
  then show ?thesis
    by (simp add: ParseTime_def parse_format_civil [OF civil_ok_civil_of assms]
        minus_mod_eq_div_mult)
qed

text \<open>A clock and a zone whose wall time has a year of four digits.\<close>

definition clock_ok :: "(int \<Rightarrow> int) \<Rightarrow> int \<Rightarrow> bool" where
  "clock_ok loc t = year_ok (wall_clock loc t)"

lemma ParseTime_FormatTime:
  assumes "clock_ok loc t"
  shows "ParseTime (FormatTime loc t) = Some ((t + loc t * 1000000000) div 1000000 * 1000000)"
  using assms unfolding clock_ok_def FormatTime_def wall_clock_def by (rule ParseTime_format)

lemma cv_year_civil_of:
  "cv_year (civil_of ns) = fst (year_yday (ns div 1000000000 div 86400 + 719162))"
  by (simp add: civil_of_def Let_def case_prod_beta unix_epoch_day_def)

section \<open>The printed time is plain text\<close>

abbreviation ascii :: "string \<Rightarrow> bool" where
  "ascii \<equiv> list_all (byte_in 0 0x7F)"

lemma ascii_utf8: "ascii s \<Longrightarrow> valid_utf8 s"
  by (induction s) simp_all

lemma digit_ascii: "c \<in> set ''0123456789'' \<Longrightarrow> byte_in 0 0x7F c"
  by (simp only: set_simps insert_iff empty_iff) (elim disjE; simp add: byte_in_def)

lemma ascii_pad_dec [simp]: "ascii (pad_dec w n)"
proof -
  have "ascii (dec_nat n)"
    unfolding list_all_iff using subsetD [OF set_dec_nat [of n]] digit_ascii by blast
  moreover have "ascii (replicate k (CHR ''0''))" for k
    by (induction k) (simp_all add: byte_in_def)
  ultimately show ?thesis unfolding pad_dec_def by (simp only: list_all_append)
qed

lemma valid_utf8_FormatTime [simp]: "valid_utf8 (FormatTime loc t)"
proof -
  have sep: "ascii ''-''" "ascii '' ''" "ascii '':''" "ascii ''.''" by (simp_all add: byte_in_def)
  have "ascii (pad_year y)" for y
    unfolding pad_year_def by (simp only: list_all_append ascii_pad_dec sep split: if_split) simp
  with sep show ?thesis
    unfolding FormatTime_def format_civil_def
    by (intro ascii_utf8) (simp only: list_all_append ascii_pad_dec simp_thms)
qed

end
