(* ===== verification/Raft_Store.thy ===== *)
theory Raft_Store
  imports Http_Client Go_Time
begin

text \<open>
  The definitions of \<open>store.go\<close>: the key-value store whose changes go through Raft. The Raft
  library (\<open>hashicorp/raft\<close>) is a parameter: its state is a type \<open>'r\<close> and the calls the program
  makes are the fields of \<open>raft_api\<close>. \<open>raft.Apply\<close> hands committed log entries to the store's
  own \<open>Apply\<close> before its future returns; the field \<open>ra_Apply\<close> lists the entries handed over,
  each with the reading of the node's clock when it is applied.

  The state of a node is the record \<open>RaftStore\<close>: the map \<open>m\<close>, the Raft state, the parameters,
  the files and the network. Calls run one at a time, as the mutex of the store and the single
  FSM goroutine of Raft make them.
\<close>

section \<open>The Raft library as the program sees it\<close>

datatype RaftState = Follower | Candidate | Leader | Shutdown

primrec RaftState_String :: "RaftState \<Rightarrow> string" where
  "RaftState_String Follower = ''Follower''"
| "RaftState_String Candidate = ''Candidate''"
| "RaftState_String Leader = ''Leader''"
| "RaftState_String Shutdown = ''Shutdown''"

datatype ServerSuffrage = Voter | Nonvoter | Staging

primrec Suffrage_String :: "ServerSuffrage \<Rightarrow> string" where
  "Suffrage_String Voter = ''Voter''"
| "Suffrage_String Nonvoter = ''Nonvoter''"
| "Suffrage_String Staging = ''Staging''"

record Server =
  srv_Suffrage :: ServerSuffrage
  srv_ID :: string
  srv_Address :: string

record 'r raft_api =
  ra_State :: "'r \<Rightarrow> RaftState"
  ra_Leader :: "'r \<Rightarrow> string"
  ra_GetConfiguration :: "'r \<Rightarrow> go_error option \<times> Server list"
  ra_RemoveServer :: "string \<Rightarrow> 'r \<Rightarrow> go_error option \<times> 'r"
  ra_AddVoter :: "string \<Rightarrow> string \<Rightarrow> 'r \<Rightarrow> go_error option \<times> 'r"
  ra_Apply :: "string \<Rightarrow> 'r \<Rightarrow> go_error option \<times> (raft_log \<times> int) list \<times> 'r"
  ra_LastIndex :: "'r \<Rightarrow> nat"
  ra_AppliedIndex :: "'r \<Rightarrow> nat"
  ra_Stats :: "'r \<Rightarrow> (string \<times> string) list"

section \<open>The state of a node\<close>

text \<open>
  The files of the node, with the errors the operating system reports: for \<open>Lstat\<close> one that
  is not absence, for reading and for writing any error.
\<close>

record files =
  fs_files :: "string \<rightharpoonup> string"
  fs_lstat_err :: "string \<Rightarrow> bool"
  fs_read_err :: "string \<Rightarrow> go_error option"
  fs_write_err :: "string \<Rightarrow> go_error option"

definition PathExists :: "string \<Rightarrow> files \<Rightarrow> bool" where
  "PathExists p fs = (\<not> (fs_files fs p = None \<and> \<not> fs_lstat_err fs p))"

record ('r, 'v, 'w) RaftStore =
  st_m :: "string \<rightharpoonup> string"
  st_raft :: 'r
  st_Arg :: "('v, 'w) Arg"
  st_fs :: files
  st_net :: http_world

text \<open>What stays fixed while a node runs: the libraries and the local time zone.\<close>

record ('r, 'v) store_env =
  se_js :: json_lib
  se_unm :: "go_type \<Rightarrow> string \<Rightarrow> go_error + 'v"
  se_api :: "'r raft_api"
  se_loc :: "int \<Rightarrow> int"

definition New :: "('v, 'w) Arg \<Rightarrow> 'r \<Rightarrow> files \<Rightarrow> http_world \<Rightarrow> ('r, 'v, 'w) RaftStore" where
  "New arg r fs net =
     \<lparr>st_m = Map.empty, st_raft = r, st_Arg = arg\<lparr>arg_LoggerSet := True\<rparr>, st_fs = fs, st_net = net\<rparr>"

section \<open>Queries\<close>

definition IsLeader :: "('r, 'v) store_env \<Rightarrow> ('r, 'v, 'w) RaftStore \<Rightarrow> bool" where
  "IsLeader E s = (ra_State (se_api E) (st_raft s) = Leader)"

definition NodeState :: "('r, 'v) store_env \<Rightarrow> ('r, 'v, 'w) RaftStore \<Rightarrow> string" where
  "NodeState E s = RaftState_String (ra_State (se_api E) (st_raft s))"

definition LeaderAddr :: "('r, 'v) store_env \<Rightarrow> ('r, 'v, 'w) RaftStore \<Rightarrow> string" where
  "LeaderAddr E s = ra_Leader (se_api E) (st_raft s)"

definition Get :: "string \<Rightarrow> ('r, 'v, 'w) RaftStore \<Rightarrow> string option" where
  "Get key s = st_m s key"

text \<open>
  \<open>walkRaftServers\<close>: the callback says whether to continue or returns an error; it works on
  the variables it captures, the state \<open>'s\<close>.
\<close>

fun walk_loop ::
    "('x \<Rightarrow> 's \<Rightarrow> (go_error + bool) \<times> 's) \<Rightarrow> 'x list \<Rightarrow> 's \<Rightarrow> go_error option \<times> 's" where
  "walk_loop fn [] s = (None, s)"
| "walk_loop fn (srv # srvs) s =
     (case fn srv s of
        (Inl err, s') \<Rightarrow> (Some (ErrWrap ''failed to invoke walk fn: '' err), s')
      | (Inr cont, s') \<Rightarrow> if cont then walk_loop fn srvs s' else (None, s'))"

definition walkRaftServers ::
    "'r raft_api \<Rightarrow> 'r \<Rightarrow> (Server \<Rightarrow> 's \<Rightarrow> (go_error + bool) \<times> 's) \<Rightarrow> 's \<Rightarrow> go_error option \<times> 's" where
  "walkRaftServers api r fn s =
     (case ra_GetConfiguration api r of
        (Some err, _) \<Rightarrow> (Some (ErrWrap ''failed to get raft configuration: '' err), s)
      | (None, servers) \<Rightarrow> walk_loop fn servers s)"

definition LeadServer :: "('r, 'v) store_env \<Rightarrow> ('r, 'v, 'w) RaftStore \<Rightarrow> Peer \<times> go_error option" where
  "LeadServer E s =
     (let leader = LeaderAddr E s in
      if leader = [] then (zero_Peer, Some (Err ''leader NA''))
      else
        (case walkRaftServers (se_api E) (st_raft s)
            (\<lambda>srv peer.
               if leader \<noteq> srv_Address srv then (Inr True, peer)
               else (Inr False, \<lparr>peer_Address = srv_Address srv, peer_ID = srv_ID srv,
                       peer_State = RaftState_String Leader, peer_Suffrage = []\<rparr>))
            zero_Peer of
           (Some err, peer) \<Rightarrow> (peer, Some err)
         | (None, peer) \<Rightarrow>
             if peer_ID peer = [] then (peer, Some (Err ''leader NA'')) else (peer, None)))"

definition getNodeState :: "json_lib \<Rightarrow> NodeID \<Rightarrow> http_world \<Rightarrow> string Rsp \<times> http_world" where
  "getNodeState js nodeID w =
     (case GetJSON (js_unrsp js) zero_Rsp (URLRaftState nodeID) w of ((r, err), w') \<Rightarrow> (r, w'))"

text \<open>One server of \<open>Cluster\<close>: the callback's body, on the cluster built so far and the network.\<close>

definition cluster_peer ::
    "('r, 'v) store_env \<Rightarrow> ('r, 'v, 'w) RaftStore \<Rightarrow> Server \<Rightarrow> RaftCluster \<times> http_world \<Rightarrow>
     (go_error + bool) \<times> RaftCluster \<times> http_world" where
  "cluster_peer E s srv st =
     (let (cluster, w) = st;
          peer = \<lparr>peer_Address = srv_Address srv, peer_ID = srv_ID srv, peer_State = [],
                  peer_Suffrage = Suffrage_String (srv_Suffrage srv)\<rparr>;
          (peer, cluster) =
            (if LeaderAddr E s = srv_Address srv then
               let peer = peer\<lparr>peer_State := RaftState_String Leader\<rparr>
               in (peer, cluster\<lparr>rc_Leader := peer\<rparr>)
             else (peer, cluster));
          (peer, cluster) =
            (if arg_NodeID (st_Arg s) = peer_ID peer then
               let peer = peer\<lparr>peer_State := NodeState E s\<rparr>
               in (peer, cluster\<lparr>rc_Current := peer\<rparr>)
             else (peer, cluster));
          (peer, w) =
            (if peer_State peer = [] then
               let (r, w') = getNodeState (se_js E) (peer_ID peer) w
               in (if rsp_OK r then peer\<lparr>peer_State := rsp_Msg r\<rparr> else peer, w')
             else (peer, w));
          peer = (if peer_State peer = [] then peer\<lparr>peer_State := ''Lost''\<rparr> else peer)
      in (Inr True, cluster\<lparr>rc_Servers := rc_Servers cluster @ [peer]\<rparr>, w))"

definition Cluster ::
    "('r, 'v) store_env \<Rightarrow> ('r, 'v, 'w) RaftStore \<Rightarrow> (RaftCluster \<times> go_error option) \<times> ('r, 'v, 'w) RaftStore" where
  "Cluster E s =
     (case walkRaftServers (se_api E) (st_raft s) (cluster_peer E s) (zero_RaftCluster, st_net s) of
        (err, cluster, w) \<Rightarrow> ((cluster, err), s\<lparr>st_net := w\<rparr>))"

text \<open>\<open>RaftStats\<close>: the statistics, with the configuration as structured data.\<close>

datatype stat_value = StatText string | StatConfig "ConfigEntry list"

definition config_entry :: "Server \<Rightarrow> ConfigEntry" where
  "config_entry server =
     \<lparr>ce_ID = srv_ID server, ce_Address = srv_Address server,
      ce_Suffrage = Suffrage_String (srv_Suffrage server)\<rparr>"

definition RaftStats ::
    "('r, 'v) store_env \<Rightarrow> ('r, 'v, 'w) RaftStore \<Rightarrow> (string \<times> stat_value) list" where
  "RaftStats E s =
     map (\<lambda>(k, v).
        if k \<noteq> ''latest_configuration'' then (k, StatText v)
        else (k, StatConfig (map config_entry (snd (ra_GetConfiguration (se_api E) (st_raft s))))))
       (ra_Stats (se_api E) (st_raft s))"

section \<open>The peers file\<close>

definition peers_path :: "('v, 'w) Arg \<Rightarrow> string" where
  "peers_path a = filepath_Join [arg_RaftNodeDir a, ''peers.json'']"

definition WriteFile :: "string \<Rightarrow> string \<Rightarrow> files \<Rightarrow> go_error option \<times> files" where
  "WriteFile path content fs =
     (case fs_write_err fs path of
        Some err \<Rightarrow> (Some err, fs)
      | None \<Rightarrow> (None, fs\<lparr>fs_files := (fs_files fs)(path \<mapsto> content)\<rparr>))"

definition ReadFile :: "string \<Rightarrow> files \<Rightarrow> go_error + string" where
  "ReadFile path fs =
     (case fs_read_err fs path of
        Some err \<Rightarrow> Inl err
      | None \<Rightarrow>
          (case fs_files fs path of
             None \<Rightarrow> Inl (Err (''open '' @ path @ '': no such file or directory''))
           | Some buf \<Rightarrow> Inr buf))"

definition writePeersJSON ::
    "json_lib \<Rightarrow> ConfigEntry list \<Rightarrow> ('r, 'v, 'w) RaftStore \<Rightarrow> go_error option \<times> ('r, 'v, 'w) RaftStore" where
  "writePeersJSON js entries s =
     (let (err, fs) = WriteFile (peers_path (st_Arg s)) (js_entries js entries) (st_fs s)
      in (err, s\<lparr>st_fs := fs\<rparr>))"

definition writeClusterConfigEntries ::
    "json_lib \<Rightarrow> RaftCluster \<Rightarrow> ('r, 'v, 'w) RaftStore \<Rightarrow> go_error option \<times> ('r, 'v, 'w) RaftStore" where
  "writeClusterConfigEntries js cluster s =
     writePeersJSON js
       (map (\<lambda>server. \<lparr>ce_ID = peer_ID server, ce_Address = peer_Address server,
                       ce_Suffrage = peer_Suffrage server\<rparr>) (rc_Servers cluster)) s"

definition writeConfigEntries ::
    "('r, 'v) store_env \<Rightarrow> ('r, 'v, 'w) RaftStore \<Rightarrow> go_error option \<times> ('r, 'v, 'w) RaftStore" where
  "writeConfigEntries E s =
     writePeersJSON (se_js E)
       (map config_entry (snd (ra_GetConfiguration (se_api E) (st_raft s)))) s"

definition ParseSuffrage :: "string \<Rightarrow> ServerSuffrage" where
  "ParseSuffrage t =
     (if t = ''Voter'' then Voter
      else if t = ''Nonvoter'' then Nonvoter
      else if t = ''Staging'' then Staging
      else Voter)"

definition ReadPeersJSON :: "json_lib \<Rightarrow> string \<Rightarrow> files \<Rightarrow> go_error + Server list" where
  "ReadPeersJSON js path fs =
     (case ReadFile path fs of
        Inl err \<Rightarrow> Inl err
      | Inr buf \<Rightarrow>
          (case js_unentries js buf of
             Inl err \<Rightarrow> Inl err
           | Inr peers \<Rightarrow> Inr (map (\<lambda>peer. \<lparr>srv_Suffrage = ParseSuffrage (ce_Suffrage peer),
                 srv_ID = ce_ID peer, srv_Address = ce_Address peer\<rparr>) peers)))"


section \<open>Finding and joining a leader\<close>

fun findLeader_loop :: "json_lib \<Rightarrow> Peer list \<Rightarrow> http_world \<Rightarrow> (Peer \<times> bool) \<times> http_world" where
  "findLeader_loop js [] w = ((zero_Peer, False), w)"
| "findLeader_loop js (peer # peers) w =
     (if peer_State peer = StateLeader then ((peer, True), w)
      else
        (case Cluster_of js (peer_ID peer) w of
           ((cl, Some err), w') \<Rightarrow> findLeader_loop js peers w'
         | ((cl, None), w') \<Rightarrow>
             if peer_State (rc_Leader cl) = StateLeader then ((rc_Leader cl, True), w')
             else
               (case find (\<lambda>n. peer_State n = StateLeader) (rc_Servers cl) of
                  Some n \<Rightarrow> ((n, True), w')
                | None \<Rightarrow> findLeader_loop js peers w')))"

definition findLeader :: "json_lib \<Rightarrow> RaftCluster \<Rightarrow> http_world \<Rightarrow> (Peer \<times> bool) \<times> http_world" where
  "findLeader js cluster w = findLeader_loop js (rc_Servers cluster) w"

definition tryFindAndJoinLeader ::
    "json_lib \<Rightarrow> RaftCluster \<Rightarrow> ('r, 'v, 'w) RaftStore \<Rightarrow> ('r, 'v, 'w) RaftStore" where
  "tryFindAndJoinLeader js cluster s =
     (let ((leader, _), w) = findLeader js cluster (st_net s) in
      if peer_ID leader \<noteq> [] then
        s\<lparr>st_net := snd (Join js (NodeID_HTTPAddr (peer_ID leader)) (arg_RaftAddr (st_Arg s))
                           (arg_NodeID (st_Arg s)) w)\<rparr>
      else s\<lparr>st_net := w\<rparr>)"

definition joinNodesFromLeader ::
    "('r, 'v) store_env \<Rightarrow> ('r, 'v, 'w) RaftStore \<Rightarrow> ('r, 'v, 'w) RaftStore" where
  "joinNodesFromLeader E s =
     (case Cluster E s of
        ((cluster, Some err), s') \<Rightarrow> s'
      | ((cluster, None), s') \<Rightarrow> tryFindAndJoinLeader (se_js E) cluster s')"

fun leaderID_loop :: "json_lib \<Rightarrow> Server list \<Rightarrow> NodeID \<Rightarrow> http_world \<Rightarrow> NodeID \<times> http_world" where
  "leaderID_loop js [] leaderID w = (leaderID, w)"
| "leaderID_loop js (server # servers) leaderID w =
     (let nodeID = srv_ID server; (r, w') = getNodeState js nodeID w in
      leaderID_loop js servers
        (if rsp_OK r \<and> rsp_Msg r = StateLeader then nodeID else leaderID) w')"

definition tryJoinLeader ::
    "json_lib \<Rightarrow> Server list \<Rightarrow> ('r, 'v, 'w) RaftStore \<Rightarrow> bool \<times> ('r, 'v, 'w) RaftStore" where
  "tryJoinLeader js c s =
     (let (leaderID, w) = leaderID_loop js c [] (st_net s) in
      if leaderID = [] then (False, s\<lparr>st_net := w\<rparr>)
      else
        let (err, w') = Join js (NodeID_HTTPAddr leaderID) (arg_RaftAddr (st_Arg s))
                          (arg_NodeID (st_Arg s)) w
        in (err = None, s\<lparr>st_net := w'\<rparr>))"

definition recoverJoin ::
    "json_lib \<Rightarrow> string \<Rightarrow> ('r, 'v, 'w) RaftStore \<Rightarrow> go_error option \<times> ('r, 'v, 'w) RaftStore" where
  "recoverJoin js peerFile s =
     (case ReadPeersJSON js peerFile (st_fs s) of
        Inl err \<Rightarrow> (Some err, s)
      | Inr c \<Rightarrow> (None, snd (tryJoinLeader js c s)))"

end
