(* ===== verification/Store_FSM.thy ===== *)
theory Store_FSM
  imports Raft_Store
begin

text \<open>
  The state machine that Raft replicates (\<open>Apply\<close>, \<open>Snapshot\<close>, \<open>Restore\<close> and \<open>Persist\<close> of
  \<open>store.go\<close>, \<open>Intercept\<close> of \<open>arg.go\<close>), its abstract specification as a list of writes and
  the refinement between the two.
\<close>

section \<open>The code\<close>

text \<open>The value \<open>Apply\<close> returns to Raft: nil, the result of a log dealer, or its error.\<close>

datatype 'w fsm_rsp = RspNil | RspVal 'w | RspErr go_error

text \<open>\<open>Intercept\<close>: first the interceptor, then the log dealer registered under the key.\<close>

definition Intercept ::
    "(go_type \<Rightarrow> string \<Rightarrow> go_error + 'v) \<Rightarrow> ('v, 'w) Arg \<Rightarrow> raft_log \<Rightarrow> Command \<Rightarrow> 'w fsm_rsp \<times> bool" where
  "Intercept unm a l c =
     (if (case arg_ApplyInterceptor a of None \<Rightarrow> False | Some f \<Rightarrow> f l c) then (RspNil, True)
      else
        (case Invoke unm (ld_DealerMap (arg_LogDealer a)) (cmd_Key c) (cmd_Value c) of
           (ret, None) \<Rightarrow> (case ret of None \<Rightarrow> RspNil | Some v \<Rightarrow> RspVal v, True)
         | (ret, Some err) \<Rightarrow>
             if errors_Is err ErrDealerNoExists \<or> errors_Is err ErrDealerContinue then (RspNil, False)
             else (RspErr err, True)))"

definition processSetRaftCluster ::
    "('r, 'v) store_env \<Rightarrow> Command \<Rightarrow> ('r, 'v, 'w) RaftStore \<Rightarrow> ('r, 'v, 'w) RaftStore" where
  "processSetRaftCluster E c s =
     (case js_uncluster (se_js E) (cmd_Value c) of
        (v, Some err) \<Rightarrow> s
      | (v, None) \<Rightarrow>
          (case writeClusterConfigEntries (se_js E) v s of
             (Some err, s') \<Rightarrow> s'
           | (None, s') \<Rightarrow>
               if LeaderAddr E s' = [] then tryFindAndJoinLeader (se_js E) v s' else s'))"

text \<open>A command is applied at the instant \<open>now\<close> of the node's clock, in nanoseconds.\<close>

definition too_old :: "int \<Rightarrow> Command \<Rightarrow> bool" where
  "too_old now c =
     (case ParseTime (cmd_Time c) of None \<Rightarrow> True | Some t \<Rightarrow> t < now - 100 * 1000000000)"

definition Apply ::
    "('r, 'v) store_env \<Rightarrow> int \<Rightarrow> raft_log \<Rightarrow> ('r, 'v, 'w) RaftStore \<Rightarrow>
     'w fsm_rsp outcome \<times> ('r, 'v, 'w) RaftStore" where
  "Apply E now l s =
     (case js_unCommand (se_js E) (log_Data l) of
        Inl err \<Rightarrow> (Panic (''failed to unmarshal Command: '' @ err_Error err), s)
      | Inr c \<Rightarrow>
          (case Intercept (se_unm E) (st_Arg s) l c of
             (rsp, True) \<Rightarrow> (Ret rsp, s)
           | (_, False) \<Rightarrow>
               if cmd_Op c = ''set'' then
                 if too_old now c then (Ret RspNil, s)
                 else if cmd_Key c = ''/raft/cluster'' then (Ret RspNil, processSetRaftCluster E c s)
                 else (Ret RspNil, s\<lparr>st_m := (st_m s)(cmd_Key c \<mapsto> cmd_Value c)\<rparr>)
               else if cmd_Op c = ''delete'' then
                 (Ret RspNil, s\<lparr>st_m := (st_m s)(cmd_Key c := None)\<rparr>)
               else (Ret RspNil, s)))"

text \<open>Raft hands over committed entries one after the other; a panic ends the process.\<close>

fun apply_logs ::
    "('r, 'v) store_env \<Rightarrow> (raft_log \<times> int) list \<Rightarrow> ('r, 'v, 'w) RaftStore \<Rightarrow>
     unit outcome \<times> ('r, 'v, 'w) RaftStore" where
  "apply_logs E [] s = (Ret (), s)"
| "apply_logs E ((l, now) # ls) s =
     (case Apply E now l s of
        (Panic e, s') \<Rightarrow> (Panic e, s')
      | (Ret _, s') \<Rightarrow> apply_logs E ls s')"

text \<open>
  \<open>CloneMap\<close> ranges over the map in an order of the runtime's choice, the argument \<open>ks\<close>.
\<close>

definition CloneMap :: "string list \<Rightarrow> (string \<rightharpoonup> string) \<Rightarrow> (string \<rightharpoonup> string)" where
  "CloneMap ks m = fold (\<lambda>k acc. case m k of None \<Rightarrow> acc | Some v \<Rightarrow> acc(k \<mapsto> v)) ks Map.empty"

record fsmSnapshot =
  snap_store :: "string \<rightharpoonup> string"

definition Snapshot :: "string list \<Rightarrow> ('r, 'v, 'w) RaftStore \<Rightarrow> fsmSnapshot \<times> go_error option" where
  "Snapshot ks s = (\<lparr>snap_store = CloneMap ks (st_m s)\<rparr>, None)"

text \<open>The sink of a snapshot belongs to Raft: its state is a type \<open>'k\<close>.\<close>

record 'k sink_api =
  sk_Write :: "string \<Rightarrow> 'k \<Rightarrow> go_error option \<times> 'k"
  sk_Close :: "'k \<Rightarrow> go_error option \<times> 'k"
  sk_Cancel :: "'k \<Rightarrow> go_error option \<times> 'k"

definition Persist ::
    "json_lib \<Rightarrow> 'k sink_api \<Rightarrow> fsmSnapshot \<Rightarrow> 'k \<Rightarrow> go_error option \<times> 'k" where
  "Persist js api f sink =
     (let (err, sink) =
        (case sk_Write api (js_map js (snap_store f)) sink of
           (Some err, sink') \<Rightarrow> (Some err, sink')
         | (None, sink') \<Rightarrow> sk_Close api sink')
      in if err \<noteq> None then (err, snd (sk_Cancel api sink)) else (err, sink))"

definition restore_map ::
    "json_lib \<Rightarrow> string \<Rightarrow> (string \<rightharpoonup> string) \<Rightarrow> go_error option \<times> (string \<rightharpoonup> string)" where
  "restore_map js content m =
     (case js_unmap js content of Inl err \<Rightarrow> (Some err, m) | Inr o' \<Rightarrow> (None, o'))"

definition Restore ::
    "json_lib \<Rightarrow> string \<Rightarrow> ('r, 'v, 'w) RaftStore \<Rightarrow> go_error option \<times> ('r, 'v, 'w) RaftStore" where
  "Restore js rc s = (case restore_map js rc (st_m s) of (err, m) \<Rightarrow> (err, s\<lparr>st_m := m\<rparr>))"

section \<open>What the JSON library promises\<close>

text \<open>
  A value decodes to itself after encoding, as long as its strings are valid UTF-8 (other
  bytes are replaced by the encoder).
\<close>

definition utf8_Command :: "Command \<Rightarrow> bool" where
  "utf8_Command c \<longleftrightarrow> valid_utf8 (cmd_Op c) \<and> valid_utf8 (cmd_Key c) \<and> valid_utf8 (cmd_Value c) \<and>
     valid_utf8 (cmd_Time c)"

definition utf8_map :: "(string \<rightharpoonup> string) \<Rightarrow> bool" where
  "utf8_map m \<longleftrightarrow> (\<forall>k v. m k = Some v \<longrightarrow> valid_utf8 k \<and> valid_utf8 v)"

definition utf8_entry :: "ConfigEntry \<Rightarrow> bool" where
  "utf8_entry e \<longleftrightarrow> valid_utf8 (ce_ID e) \<and> valid_utf8 (ce_Address e) \<and> valid_utf8 (ce_Suffrage e)"

definition json_ok :: "json_lib \<Rightarrow> bool" where
  "json_ok js \<longleftrightarrow>
     (\<forall>c. utf8_Command c \<longrightarrow> js_unCommand js (js_Command js c) = Inr c) \<and>
     (\<forall>m. finite (dom m) \<longrightarrow> utf8_map m \<longrightarrow> js_unmap js (js_map js m) = Inr m) \<and>
     (\<forall>es. list_all utf8_entry es \<longrightarrow> js_unentries js (js_entries js es) = Inr es)"

lemma json_okD:
  assumes "json_ok js"
  shows "utf8_Command c \<Longrightarrow> js_unCommand js (js_Command js c) = Inr c"
    and "finite (dom m) \<Longrightarrow> utf8_map m \<Longrightarrow> js_unmap js (js_map js m) = Inr m"
    and "list_all utf8_entry es \<Longrightarrow> js_unentries js (js_entries js es) = Inr es"
  using assms by (auto simp: json_ok_def)

section \<open>The specification: a list of writes\<close>

datatype kv_op = KSet string string | KDel string | KNop

primrec kv_apply :: "kv_op \<Rightarrow> (string \<rightharpoonup> string) \<Rightarrow> (string \<rightharpoonup> string)" where
  "kv_apply (KSet k v) m = m(k \<mapsto> v)"
| "kv_apply (KDel k) m = m(k := None)"
| "kv_apply KNop m = m"

primrec kv_key :: "kv_op \<Rightarrow> string option" where
  "kv_key (KSet k v) = Some k"
| "kv_key (KDel k) = Some k"
| "kv_key KNop = None"

primrec kv_val :: "kv_op \<Rightarrow> string option" where
  "kv_val (KSet k v) = Some v"
| "kv_val (KDel k) = None"
| "kv_val KNop = None"

text \<open>The write a command stands for when it is applied at \<open>now\<close>.\<close>

definition cmd_op :: "int \<Rightarrow> Command \<Rightarrow> kv_op" where
  "cmd_op now c =
     (if cmd_Op c = ''set'' then
        if too_old now c \<or> cmd_Key c = ''/raft/cluster'' then KNop else KSet (cmd_Key c) (cmd_Value c)
      else if cmd_Op c = ''delete'' then KDel (cmd_Key c)
      else KNop)"

text \<open>The write a log entry stands for on a node with parameters \<open>a\<close>; \<^term>\<open>None\<close> for an entry that
  is no command.\<close>

definition entry_op ::
    "('r, 'v) store_env \<Rightarrow> ('v, 'w) Arg \<Rightarrow> raft_log \<times> int \<Rightarrow> kv_op option" where
  "entry_op E a e =
     (case js_unCommand (se_js E) (log_Data (fst e)) of
        Inl err \<Rightarrow> None
      | Inr c \<Rightarrow> Some (if snd (Intercept (se_unm E) a (fst e) c) then KNop else cmd_op (snd e) c))"

text \<open>A key holds what the last write to it left there.\<close>

definition kv_lookup :: "kv_op list \<Rightarrow> (string \<rightharpoonup> string) \<Rightarrow> string \<Rightarrow> string option" where
  "kv_lookup ops m k =
     (case find (\<lambda>op. kv_key op = Some k) (rev ops) of None \<Rightarrow> m k | Some op \<Rightarrow> kv_val op)"

lemma kv_apply_at: "kv_apply op m k = (if kv_key op = Some k then kv_val op else m k)"
  by (cases op) auto

lemma fold_kv_apply: "fold kv_apply ops m k = kv_lookup ops m k"
proof (induction ops arbitrary: m rule: rev_induct)
  case (snoc op ops)
  then show ?case by (simp add: kv_lookup_def kv_apply_at)
qed (simp add: kv_lookup_def)

section \<open>What the helpers leave alone\<close>

text \<open>The fields only the key-value operations and Raft itself change.\<close>

definition same_core :: "('r, 'v, 'w) RaftStore \<Rightarrow> ('r, 'v, 'w) RaftStore \<Rightarrow> bool" where
  "same_core s s' \<longleftrightarrow> st_m s' = st_m s \<and> st_raft s' = st_raft s \<and> st_Arg s' = st_Arg s"

lemma same_core_refl [simp]: "same_core s s"
  by (simp add: same_core_def)

lemma same_core_trans [trans]: "same_core a b \<Longrightarrow> same_core b c \<Longrightarrow> same_core a c"
  by (simp add: same_core_def)

lemma same_core_net [simp]: "same_core s (s\<lparr>st_net := w\<rparr>)" "same_core s (s\<lparr>st_fs := f\<rparr>)"
  by (simp_all add: same_core_def)

lemma same_core_writePeersJSON [simp]: "same_core s (snd (writePeersJSON js es s))"
  by (simp add: writePeersJSON_def Let_def case_prod_beta)

lemma same_core_writeCluster [simp]: "same_core s (snd (writeClusterConfigEntries js v s))"
  by (simp add: writeClusterConfigEntries_def)

lemma same_core_writeConfigEntries [simp]: "same_core s (snd (writeConfigEntries E s))"
  by (simp add: writeConfigEntries_def)

lemma same_core_tryFind [simp]: "same_core s (tryFindAndJoinLeader js v s)"
  by (simp add: tryFindAndJoinLeader_def Let_def case_prod_beta)

lemma same_core_processSetRaftCluster: "same_core s (processSetRaftCluster E c s)"
proof (cases "js_uncluster (se_js E) (cmd_Value c)")
  case (Pair v err)
  have w: "same_core s (snd (writeClusterConfigEntries (se_js E) v s))" by simp
  with Pair show ?thesis
    by (cases err; cases "writeClusterConfigEntries (se_js E) v s"; cases "fst (writeClusterConfigEntries (se_js E) v s)")
      (auto simp: processSetRaftCluster_def elim: same_core_trans [OF _ same_core_tryFind])
qed

section \<open>Apply refines the writes\<close>

lemma Apply_None:
  "entry_op E (st_Arg s) (l, now) = None \<Longrightarrow> \<exists>msg. Apply E now l s = (Panic msg, s)"
  by (auto simp: entry_op_def Apply_def split: sum.splits)

lemma Apply_Some:
  assumes "entry_op E (st_Arg s) (l, now) = Some op"
  shows "\<exists>rsp s'. Apply E now l s = (Ret rsp, s') \<and> st_m s' = kv_apply op (st_m s) \<and>
    st_raft s' = st_raft s \<and> st_Arg s' = st_Arg s"
proof -
  obtain c where c: "js_unCommand (se_js E) (log_Data l) = Inr c"
    using assms by (auto simp: entry_op_def split: sum.splits)
  obtain rsp i where i: "Intercept (se_unm E) (st_Arg s) l c = (rsp, i)" by fastforce
  have op: "op = (if i then KNop else cmd_op now c)" using assms c i by (auto simp: entry_op_def)
  show ?thesis
    using same_core_processSetRaftCluster [of s E c] c i op
    by (cases i) (auto simp: Apply_def cmd_op_def same_core_def)
qed

lemma apply_logs_refines:
  assumes "map (entry_op E (st_Arg s)) es = map Some ops"
  shows "\<exists>s'. apply_logs E es s = (Ret (), s') \<and> st_m s' = fold kv_apply ops (st_m s) \<and>
    st_raft s' = st_raft s \<and> st_Arg s' = st_Arg s"
  using assms
proof (induction es arbitrary: ops s)
  case (Cons e es)
  obtain l now where e: "e = (l, now)" by force
  obtain op ops' where ops: "ops = op # ops'" "entry_op E (st_Arg s) (l, now) = Some op"
      "map (entry_op E (st_Arg s)) es = map Some ops'"
    using Cons.prems e by (cases ops) auto
  obtain rsp s1 where s1: "Apply E now l s = (Ret rsp, s1)" "st_m s1 = kv_apply op (st_m s)"
      "st_raft s1 = st_raft s" "st_Arg s1 = st_Arg s"
    using Apply_Some [OF ops(2)] by blast
  from Cons.IH [of s1 ops'] ops s1 e show ?case by auto
qed auto

lemma apply_logs_append:
  "apply_logs E (es @ es') s =
     (case apply_logs E es s of (Panic e, s') \<Rightarrow> (Panic e, s') | (Ret _, s') \<Rightarrow> apply_logs E es' s')"
  by (induction E es s rule: apply_logs.induct) (auto split: prod.splits outcome.splits)

end
