(* ===== verification/Store_Ops.thy ===== *)
theory Store_Ops
  imports Store_FSM
begin

text \<open>
  The operations of \<open>store.go\<close> that only the leader carries out: \<open>Set\<close> and \<open>Delete\<close>, which go
  through the log, and \<open>Join\<close> and \<open>Remove\<close>, which change the configuration of the cluster and
  save it in the peers file. What they rely on in Raft is stated by \<open>members_ok\<close>.
\<close>

section \<open>The code\<close>

text \<open>
  \<open>raft.Apply(data, timeout)\<close> and its future: the entries Raft hands to the state machine
  before the future returns are applied; then the error of the future is returned.
\<close>

definition raft_Apply ::
    "('r, 'v) store_env \<Rightarrow> string \<Rightarrow> ('r, 'v, 'w) RaftStore \<Rightarrow>
     go_error option outcome \<times> ('r, 'v, 'w) RaftStore" where
  "raft_Apply E data s =
     (let (err, entries, r) = ra_Apply (se_api E) data (st_raft s) in
      case apply_logs E entries (s\<lparr>st_raft := r\<rparr>) of
        (Panic e, s') \<Rightarrow> (Panic e, s')
      | (Ret _, s') \<Rightarrow> (Ret err, s'))"

definition Set ::
    "('r, 'v) store_env \<Rightarrow> int \<Rightarrow> string \<Rightarrow> string \<Rightarrow> ('r, 'v, 'w) RaftStore \<Rightarrow>
     go_error option outcome \<times> ('r, 'v, 'w) RaftStore" where
  "Set E now key value s =
     (if \<not> IsLeader E s then (Ret (Some ErrNotLeader), s)
      else
        let c = \<lparr>cmd_Op = ''set'', cmd_Key = key, cmd_Value = value,
                 cmd_Time = FormatTime (se_loc E) now\<rparr>
        in raft_Apply E (js_Command (se_js E) c) s)"

definition Delete ::
    "('r, 'v) store_env \<Rightarrow> int \<Rightarrow> string \<Rightarrow> ('r, 'v, 'w) RaftStore \<Rightarrow>
     go_error option outcome \<times> ('r, 'v, 'w) RaftStore" where
  "Delete E now key s =
     (if \<not> IsLeader E s then (Ret (Some ErrNotLeader), s)
      else
        let c = \<lparr>cmd_Op = ''delete'', cmd_Key = key, cmd_Value = [],
                 cmd_Time = FormatTime (se_loc E) now\<rparr>
        in raft_Apply E (js_Command (se_js E) c) s)"

definition Remove ::
    "('r, 'v) store_env \<Rightarrow> string \<Rightarrow> ('r, 'v, 'w) RaftStore \<Rightarrow>
     go_error option \<times> ('r, 'v, 'w) RaftStore" where
  "Remove E nodeID s =
     (if ra_State (se_api E) (st_raft s) \<noteq> Leader then (Some ErrNotLeader, s)
      else
        (case ra_RemoveServer (se_api E) nodeID (st_raft s) of
           (Some err, r) \<Rightarrow> (Some err, s\<lparr>st_raft := r\<rparr>)
         | (None, r) \<Rightarrow> (None, snd (writeConfigEntries E (s\<lparr>st_raft := r\<rparr>)))))"

text \<open>The callback of \<open>Join\<close>, on its variable \<open>alreadyJoined\<close> and the state of Raft.\<close>

definition join_server ::
    "'r raft_api \<Rightarrow> string \<Rightarrow> string \<Rightarrow> Server \<Rightarrow> bool \<times> 'r \<Rightarrow> (go_error + bool) \<times> bool \<times> 'r" where
  "join_server api nodeID addr srv st =
     (let (alreadyJoined, r) = st;
          idEquals = (srv_ID srv = nodeID); addrEquals = (srv_Address srv = addr)
      in if addrEquals \<and> idEquals then (Inr False, True, r)
         else if idEquals \<or> addrEquals then
           (case ra_RemoveServer api (srv_ID srv) r of
              (Some err, r') \<Rightarrow>
                (Inl (ErrWrap (''error removing existing node '' @ nodeID @ '' at '' @ addr @ '': '') err),
                 alreadyJoined, r')
            | (None, r') \<Rightarrow> (Inr True, alreadyJoined, r'))
         else (Inr True, alreadyJoined, r))"

definition RaftStore_Join ::
    "('r, 'v) store_env \<Rightarrow> string \<Rightarrow> string \<Rightarrow> ('r, 'v, 'w) RaftStore \<Rightarrow>
     go_error option \<times> ('r, 'v, 'w) RaftStore" where
  "RaftStore_Join E nodeID addr s =
     (if ra_State (se_api E) (st_raft s) \<noteq> Leader then (Some ErrNotLeader, s)
      else
        (case walkRaftServers (se_api E) (st_raft s) (join_server (se_api E) nodeID addr) (False, st_raft s) of
           (Some err, _, r) \<Rightarrow> (Some err, s\<lparr>st_raft := r\<rparr>)
         | (None, True, r) \<Rightarrow> (None, s\<lparr>st_raft := r\<rparr>)
         | (None, False, r) \<Rightarrow>
             (case ra_AddVoter (se_api E) nodeID addr r of
                (Some err, r') \<Rightarrow>
                  (Some (ErrWrap (''node '' @ nodeID @ '' at '' @ addr @ '' joined error '') err),
                   s\<lparr>st_raft := r'\<rparr>)
              | (None, r') \<Rightarrow> (None, snd (writeConfigEntries E (s\<lparr>st_raft := r'\<rparr>))))))"

section \<open>What Raft promises about the configuration\<close>

definition members :: "'r raft_api \<Rightarrow> 'r \<Rightarrow> Server list" where
  "members api r = snd (ra_GetConfiguration api r)"

text \<open>\<open>AddVoter\<close> makes the server with this ID a voter at this address, and adds it if there is none.\<close>

fun add_voter :: "string \<Rightarrow> string \<Rightarrow> Server list \<Rightarrow> Server list" where
  "add_voter sid addr [] = [\<lparr>srv_Suffrage = Voter, srv_ID = sid, srv_Address = addr\<rparr>]"
| "add_voter sid addr (srv # srvs) =
     (if srv_ID srv = sid then \<lparr>srv_Suffrage = Voter, srv_ID = sid, srv_Address = addr\<rparr> # srvs
      else srv # add_voter sid addr srvs)"

definition members_ok :: "'r raft_api \<Rightarrow> bool" where
  "members_ok api \<longleftrightarrow>
     (\<forall>sid r r'. ra_RemoveServer api sid r = (None, r') \<longrightarrow>
        ra_GetConfiguration api r' = (None, filter (\<lambda>srv. srv_ID srv \<noteq> sid) (members api r))) \<and>
     (\<forall>sid addr r r'. ra_AddVoter api sid addr r = (None, r') \<longrightarrow>
        ra_GetConfiguration api r' = (None, add_voter sid addr (members api r)))"

text \<open>Raft refuses configurations in which two servers share an ID or an address.\<close>

definition config_ok :: "Server list \<Rightarrow> bool" where
  "config_ok srvs \<longleftrightarrow> distinct (map srv_ID srvs) \<and> distinct (map srv_Address srvs)"

lemma members_okD:
  assumes "members_ok api"
  shows "ra_RemoveServer api sid r = (None, r') \<Longrightarrow>
           ra_GetConfiguration api r' = (None, filter (\<lambda>srv. srv_ID srv \<noteq> sid) (members api r))"
    and "ra_AddVoter api sid addr r = (None, r') \<Longrightarrow>
           ra_GetConfiguration api r' = (None, add_voter sid addr (members api r))"
  using assms by (auto simp: members_ok_def)

lemma members_ok_members:
  assumes "members_ok api"
  shows "ra_RemoveServer api sid r = (None, r') \<Longrightarrow>
           members api r' = filter (\<lambda>srv. srv_ID srv \<noteq> sid) (members api r)"
    and "ra_AddVoter api sid addr r = (None, r') \<Longrightarrow> members api r' = add_voter sid addr (members api r)"
  using members_okD [OF assms] by (auto simp: members_def)

section \<open>The walk of Join\<close>

text \<open>
  What \<open>Join\<close> should do: drop every server that shares the ID or the address of the newcomer
  and add the newcomer as a voter.
\<close>

definition conflicts :: "string \<Rightarrow> string \<Rightarrow> Server \<Rightarrow> bool" where
  "conflicts nodeID addr srv \<longleftrightarrow> srv_ID srv = nodeID \<or> srv_Address srv = addr"

definition join_spec :: "string \<Rightarrow> string \<Rightarrow> Server list \<Rightarrow> Server list" where
  "join_spec nodeID addr srvs =
     filter (\<lambda>srv. \<not> conflicts nodeID addr srv) srvs @
     [\<lparr>srv_Suffrage = Voter, srv_ID = nodeID, srv_Address = addr\<rparr>]"

lemma add_voter_new: "sid \<notin> srv_ID ` set srvs \<Longrightarrow>
    add_voter sid addr srvs = srvs @ [\<lparr>srv_Suffrage = Voter, srv_ID = sid, srv_Address = addr\<rparr>]"
  by (induction srvs) auto

definition joined_in :: "string \<Rightarrow> string \<Rightarrow> Server list \<Rightarrow> bool" where
  "joined_in nodeID addr srvs \<longleftrightarrow> (\<exists>srv \<in> set srvs. srv_ID srv = nodeID \<and> srv_Address srv = addr)"

lemma join_server_skip:
  "\<not> conflicts nodeID addr srv \<Longrightarrow> join_server api nodeID addr srv (b, r) = (Inr True, b, r)"
  by (simp add: join_server_def conflicts_def)

lemma join_server_same:
  "srv_ID srv = nodeID \<Longrightarrow> srv_Address srv = addr \<Longrightarrow>
   join_server api nodeID addr srv (b, r) = (Inr False, True, r)"
  by (simp add: join_server_def)

lemma join_server_conflict:
  assumes "conflicts nodeID addr srv" "\<not> (srv_ID srv = nodeID \<and> srv_Address srv = addr)"
  shows "join_server api nodeID addr srv (b, r) =
    (case ra_RemoveServer api (srv_ID srv) r of
       (Some err, r') \<Rightarrow>
         (Inl (ErrWrap (''error removing existing node '' @ nodeID @ '' at '' @ addr @ '': '') err), b, r')
     | (None, r') \<Rightarrow> (Inr True, b, r'))"
  using assms by (auto simp: join_server_def conflicts_def)

text \<open>A walk that ends without an error found the newcomer, or removed every conflicting server.\<close>

lemma walk_join:
  assumes ok: "members_ok api"
    and walk: "walk_loop (join_server api nodeID addr) srvs (False, r) = (None, joined, r')"
    and fresh: "\<not> joined_in nodeID addr srvs"
  shows "\<not> joined \<and> members api r' =
    filter (\<lambda>srv. srv_ID srv \<notin> srv_ID ` set (filter (conflicts nodeID addr) srvs)) (members api r)"
  using walk fresh
proof (induction srvs arbitrary: r)
  case (Cons srv srvs)
  have fresh': "\<not> joined_in nodeID addr srvs" using Cons.prems(2) by (auto simp: joined_in_def)
  show ?case
  proof (cases "conflicts nodeID addr srv")
    case False
    with Cons.prems(1) have "walk_loop (join_server api nodeID addr) srvs (False, r) = (None, joined, r')"
      by (simp add: join_server_skip)
    from Cons.IH [OF this fresh'] False show ?thesis by simp
  next
    case True
    have "\<not> (srv_ID srv = nodeID \<and> srv_Address srv = addr)"
      using Cons.prems(2) by (auto simp: joined_in_def)
    note cs = join_server_conflict [OF True this, of api False r]
    obtain r1 where r1: "ra_RemoveServer api (srv_ID srv) r = (None, r1)"
        "walk_loop (join_server api nodeID addr) srvs (False, r1) = (None, joined, r')"
      using Cons.prems(1) cs by (auto split: prod.splits option.splits)
    from Cons.IH [OF r1(2) fresh'] True show ?thesis
      by (auto simp: members_ok_members(1) [OF ok r1(1)] intro: filter_cong)
  qed
qed auto

lemma walk_join_already:
  assumes "joined_in nodeID addr srvs" "config_ok srvs"
  shows "walk_loop (join_server api nodeID addr) srvs (b, r) = (None, True, r)"
  using assms
proof (induction srvs arbitrary: b)
  case (Cons srv srvs)
  show ?case
  proof (cases "srv_ID srv = nodeID \<and> srv_Address srv = addr")
    case False
    then obtain srv' where "srv' \<in> set srvs" "srv_ID srv' = nodeID" "srv_Address srv' = addr"
      using Cons.prems by (auto simp: joined_in_def)
    with Cons.prems(2) have "srv_ID srv \<noteq> nodeID" "srv_Address srv \<noteq> addr"
      by (auto simp: config_ok_def)
    with Cons False show ?thesis
      by (simp add: join_server_skip conflicts_def joined_in_def config_ok_def)
  qed (simp add: join_server_same)
qed (simp add: joined_in_def)

lemma filter_conflicts:
  assumes "distinct (map srv_ID srvs)"
  shows "filter (\<lambda>srv. srv_ID srv \<notin> srv_ID ` set (filter (conflicts n a) srvs)) srvs =
    filter (\<lambda>srv. \<not> conflicts n a srv) srvs"
proof (rule filter_cong [OF refl])
  fix srv assume "srv \<in> set srvs"
  with assms show "(srv_ID srv \<notin> srv_ID ` set (filter (conflicts n a) srvs)) = (\<not> conflicts n a srv)"
    by (auto simp: distinct_map inj_on_def)
qed

end
