(* ===== verification/Codec.thy ===== *)
theory Codec
  imports Store_FSM "HOL-Library.List_Lexorder" "HOL-Library.Char_ord"
begin

text \<open>
  A concrete encoding that keeps the promises of the JSON library (\<open>json_ok\<close>): every value is a
  list of strings, a string is written with a dot before each character and a semicolon at its
  end. It shows that the assumptions on the library can hold, and the witnesses run on it.
\<close>

definition enc_str :: "string \<Rightarrow> string" where
  "enc_str s = concat (map (\<lambda>c. [CHR ''.'', c]) s) @ '';''"

definition enc_list :: "string list \<Rightarrow> string" where
  "enc_list xs = concat (map enc_str xs)"

fun dec_list :: "string \<Rightarrow> string \<Rightarrow> string list" where
  "dec_list acc (x # xs) =
     (if x = CHR '';'' then acc # dec_list [] xs
      else (case xs of [] \<Rightarrow> [] | c # ys \<Rightarrow> dec_list (acc @ [c]) ys))"
| "dec_list acc [] = []"

lemma dec_enc_str: "dec_list acc (enc_str s @ r) = (acc @ s) # dec_list [] r"
  by (induction s arbitrary: acc) (auto simp: enc_str_def)

lemma dec_enc_list [simp]: "dec_list [] (enc_list xs) = xs"
  by (induction xs) (auto simp: enc_list_def dec_enc_str)

section \<open>The types the program encodes\<close>

definition enc_Command :: "Command \<Rightarrow> string" where
  "enc_Command c = enc_list [cmd_Op c, cmd_Key c, cmd_Value c, cmd_Time c]"

definition dec_Command :: "string \<Rightarrow> go_error + Command" where
  "dec_Command t =
     (case dec_list [] t of
        [a, b, c, d] \<Rightarrow> Inr \<lparr>cmd_Op = a, cmd_Key = b, cmd_Value = c, cmd_Time = d\<rparr>
      | _ \<Rightarrow> Inl (Err ''bad command''))"

definition enc_map :: "(string \<rightharpoonup> string) \<Rightarrow> string" where
  "enc_map m = enc_list (concat (map (\<lambda>k. [k, the (m k)]) (sorted_list_of_set (dom m))))"

fun pairs :: "string list \<Rightarrow> (string \<times> string) list" where
  "pairs (k # v # r) = (k, v) # pairs r"
| "pairs _ = []"

definition dec_map :: "string \<Rightarrow> go_error + (string \<rightharpoonup> string)" where
  "dec_map t = Inr (map_of (pairs (dec_list [] t)))"

fun triples :: "string list \<Rightarrow> ConfigEntry list" where
  "triples (a # b # c # r) = \<lparr>ce_ID = a, ce_Address = b, ce_Suffrage = c\<rparr> # triples r"
| "triples _ = []"

definition enc_entries :: "ConfigEntry list \<Rightarrow> string" where
  "enc_entries es = enc_list (concat (map (\<lambda>e. [ce_ID e, ce_Address e, ce_Suffrage e]) es))"

definition enc_peer :: "Peer \<Rightarrow> string list" where
  "enc_peer p = [peer_Address p, peer_ID p, peer_State p, peer_Suffrage p]"

fun dec_peers :: "string list \<Rightarrow> Peer list" where
  "dec_peers (a # b # c # d # r) =
     \<lparr>peer_Address = a, peer_ID = b, peer_State = c, peer_Suffrage = d\<rparr> # dec_peers r"
| "dec_peers _ = []"

definition enc_cluster :: "RaftCluster \<Rightarrow> string" where
  "enc_cluster c = enc_list (concat (map enc_peer (rc_Current c # rc_Leader c # rc_Servers c)))"

definition dec_cluster :: "string \<Rightarrow> RaftCluster \<times> go_error option" where
  "dec_cluster t =
     (case dec_peers (dec_list [] t) of
        a # b # ps \<Rightarrow> (\<lparr>rc_Current = a, rc_Leader = b, rc_Servers = ps\<rparr>, None)
      | _ \<Rightarrow> (zero_RaftCluster, Some (Err ''bad cluster'')))"

definition enc_join :: "JoinRequest \<Rightarrow> string" where
  "enc_join r = enc_list [jr_Addr r, jr_NodeID r]"

definition dec_join :: "string \<Rightarrow> go_error + JoinRequest" where
  "dec_join t =
     (case dec_list [] t of
        [a, b] \<Rightarrow> Inr \<lparr>jr_Addr = a, jr_NodeID = b\<rparr>
      | _ \<Rightarrow> Inl (Err ''bad join request''))"

definition enc_rsp :: "string Rsp \<Rightarrow> string" where
  "enc_rsp r =
     enc_list ([If_str (rsp_OK r) ''true'' ''false'', rsp_Msg r] @
       (case rsp_Data r of None \<Rightarrow> [] | Some d \<Rightarrow> [d]))"

definition dec_rsp :: "string \<Rightarrow> string Rsp \<times> go_error option" where
  "dec_rsp t =
     (case dec_list [] t of
        [a, b] \<Rightarrow> (\<lparr>rsp_OK = (a = ''true''), rsp_Msg = b, rsp_Data = None\<rparr>, None)
      | [a, b, c] \<Rightarrow> (\<lparr>rsp_OK = (a = ''true''), rsp_Msg = b, rsp_Data = Some c\<rparr>, None)
      | _ \<Rightarrow> (zero_Rsp, Some (Err ''bad response'')))"

definition demo_json :: json_lib where
  "demo_json = \<lparr>js_Command = enc_Command, js_unCommand = dec_Command, js_map = enc_map,
     js_unmap = dec_map, js_entries = enc_entries, js_unentries = (\<lambda>t. Inr (triples (dec_list [] t))),
     js_cluster = enc_cluster, js_uncluster = dec_cluster, js_join = enc_join, js_unjoin = dec_join,
     js_rsp = enc_rsp, js_unrsp = dec_rsp\<rparr>"

section \<open>It keeps the promises\<close>

lemma dec_enc_Command [simp]: "dec_Command (enc_Command c) = Inr c"
  by (simp add: dec_Command_def enc_Command_def)

lemma pairs_concat: "pairs (concat (map (\<lambda>k. [k, f k]) ks)) = map (\<lambda>k. (k, f k)) ks"
  by (induction ks) auto

lemma dec_enc_map:
  assumes "finite (dom m)"
  shows "dec_map (enc_map m) = Inr m"
proof -
  have "map_of (map (\<lambda>k. (k, the (m k))) (sorted_list_of_set (dom m))) k = m k" for k
    using assms by (auto simp: map_of_map_restrict restrict_map_def domIff comp_def)
  then show ?thesis by (auto simp: dec_map_def enc_map_def pairs_concat)
qed

lemma triples_concat [simp]:
  "triples (concat (map (\<lambda>e. [ce_ID e, ce_Address e, ce_Suffrage e]) es)) = es"
  by (induction es) auto

lemma dec_peers_concat [simp]: "dec_peers (concat (map enc_peer ps)) = ps"
  by (induction ps) (auto simp: enc_peer_def)

lemma dec_enc_cluster [simp]: "dec_cluster (enc_cluster c) = (c, None)"
proof -
  have "dec_peers (enc_peer a @ r) = a # dec_peers r" for a r by (simp add: enc_peer_def)
  then show ?thesis by (simp add: dec_cluster_def enc_cluster_def)
qed

lemma dec_enc_join [simp]: "dec_join (enc_join r) = Inr r"
  by (simp add: dec_join_def enc_join_def)

lemma dec_enc_rsp [simp]: "dec_rsp (enc_rsp r) = (r, None)"
  by (cases "rsp_Data r") (auto simp: dec_rsp_def enc_rsp_def If_str_def)

lemma demo_json_ok: "json_ok demo_json"
  by (simp add: json_ok_def demo_json_def dec_enc_map enc_entries_def)

end
