(* ===== verification/Raft_Instance.thy ===== *)
theory Raft_Instance
  imports Store_Ops Codec
begin

text \<open>
  A concrete Raft for the witnesses: one node that commits every entry at once, applies it at a
  fixed reading of its clock and keeps it in \<open>dr_log\<close>, and carries out every change of the
  configuration. It keeps
  the promises the properties of the store assume of Raft.
\<close>

text \<open>The reading of the clock: 2001-09-09 01:46:40 UTC, in nanoseconds since 1970.\<close>

abbreviation demo_t :: int where
  "demo_t \<equiv> 1000000000000000000"

record demo_raft =
  dr_State :: RaftState
  dr_Leader :: string
  dr_servers :: "Server list"
  dr_index :: nat
  dr_log :: "(raft_log \<times> int) list"

abbreviation demo_entry :: "string \<Rightarrow> demo_raft \<Rightarrow> raft_log \<times> int" where
  "demo_entry data r \<equiv> (\<lparr>log_Index = Suc (dr_index r), log_Data = data\<rparr>, demo_t)"

definition demo_api :: "demo_raft raft_api" where
  "demo_api = \<lparr>ra_State = dr_State, ra_Leader = dr_Leader,
     ra_GetConfiguration = (\<lambda>r. (None, dr_servers r)),
     ra_RemoveServer = (\<lambda>sid r. (None, r\<lparr>dr_servers := filter (\<lambda>srv. srv_ID srv \<noteq> sid) (dr_servers r)\<rparr>)),
     ra_AddVoter = (\<lambda>sid addr r. (None, r\<lparr>dr_servers := add_voter sid addr (dr_servers r)\<rparr>)),
     ra_Apply = (\<lambda>data r. (None, [demo_entry data r],
       r\<lparr>dr_index := Suc (dr_index r), dr_log := dr_log r @ [demo_entry data r]\<rparr>)),
     ra_LastIndex = dr_index, ra_AppliedIndex = dr_index, ra_Stats = (\<lambda>_. [])\<rparr>"

lemma demo_members_ok: "members_ok demo_api"
  by (simp add: members_ok_def demo_api_def members_def)

definition demo_senv :: "(int \<Rightarrow> int) \<Rightarrow> (demo_raft, string) store_env" where
  "demo_senv loc = \<lparr>se_js = demo_json, se_unm = (\<lambda>_. Inr), se_api = demo_api, se_loc = loc\<rparr>"

definition demo_ID :: NodeID where "demo_ID = ''10.0.0.1:11000,10.0.0.1:12000''"

definition demo_server :: Server where
  "demo_server = \<lparr>srv_Suffrage = Voter, srv_ID = demo_ID, srv_Address = ''10.0.0.1:12000''\<rparr>"

definition demo_raft0 :: demo_raft where
  "demo_raft0 = \<lparr>dr_State = Leader, dr_Leader = ''10.0.0.1:12000'', dr_servers = [demo_server],
     dr_index = 0, dr_log = []\<rparr>"

definition demo_fs :: files where
  "demo_fs = \<lparr>fs_files = Map.empty, fs_lstat_err = (\<lambda>_. False), fs_read_err = (\<lambda>_. None),
     fs_write_err = (\<lambda>_. None)\<rparr>"

definition demo_net :: http_world where
  "demo_net = \<lparr>responder = (\<lambda>_ _. Inl (Err ''connection refused'')), http_log = []\<rparr>"

definition demo_sarg :: "(string, string) Arg" where
  "demo_sarg = MakeArg\<lparr>arg_NodeID := demo_ID, arg_RaftAddr := ''10.0.0.1:12000'',
     arg_RaftNodeDir := ''/home/raft''\<rparr>"

definition demo_store :: "(demo_raft, string, string) RaftStore" where
  "demo_store = New demo_sarg demo_raft0 demo_fs demo_net"

lemmas demo_defs = demo_api_def demo_senv_def demo_ID_def demo_server_def demo_raft0_def demo_fs_def
  demo_net_def demo_sarg_def demo_store_def New_def MakeArg_def MakeLogDealer_def MakeDealerMap_def

lemma demo_senv_simps [simp]:
  "se_js (demo_senv loc) = demo_json" "se_api (demo_senv loc) = demo_api"
  "se_loc (demo_senv loc) = loc" "se_unm (demo_senv loc) = (\<lambda>_. Inr)"
  by (simp_all add: demo_senv_def)

lemma demo_IsLeader [simp]: "IsLeader (demo_senv loc) demo_store"
  by (simp add: IsLeader_def demo_defs)

lemma demo_store_raft [simp]: "st_raft demo_store = demo_raft0"
  by (simp add: demo_defs)

lemma demo_json_simps [simp]:
  "js_Command demo_json = enc_Command" "js_unCommand demo_json = dec_Command"
  by (simp_all add: demo_json_def)

lemma demo_Intercept [simp]:
  "Intercept unm (st_Arg demo_store) l c = (RspNil, False)"
  by (simp add: Intercept_def Invoke_def demo_defs)

text \<open>The zones of the witnesses: UTC, and one two minutes west of it.\<close>

abbreviation utc :: "int \<Rightarrow> int" where
  "utc \<equiv> \<lambda>_. 0"

abbreviation west :: "int \<Rightarrow> int" where
  "west \<equiv> \<lambda>_. - 120"

lemma demo_clock_ok: "clock_ok utc demo_t" "clock_ok west demo_t"
  by (simp_all add: clock_ok_def year_ok_def wall_clock_def cv_year_civil_of year_yday_def Let_def)

end
