(* ===== verification/Store_KV.thy ===== *)
theory Store_KV
  imports Raft_Instance
begin

text \<open>
  The key-value half of the store: what \<open>Set\<close>, \<open>Delete\<close> and \<open>Get\<close> do once Raft has committed the
  command, what snapshots keep, and how far two nodes that apply the same log agree. The
  contract of a replicated state machine is the locale \<open>fsm\<close>, interpreted on \<open>Apply\<close>,
  \<open>Snapshot\<close> and \<open>Restore\<close>.
\<close>

section \<open>Clones\<close>

lemma clone_fold:
  "fold (\<lambda>k acc. case m k of None \<Rightarrow> acc | Some v \<Rightarrow> acc(k \<mapsto> v)) ks acc0 j =
     (if j \<in> set ks \<and> m j \<noteq> None then m j else acc0 j)"
  by (induction ks arbitrary: acc0) (auto split: option.splits)

lemma CloneMap_id: "set ks = dom m \<Longrightarrow> CloneMap ks m = m"
  by (auto simp: CloneMap_def clone_fold dom_def fun_eq_iff)

section \<open>The contract of a replicated state machine\<close>

text \<open>
  A deterministic machine: the data after an entry depends only on the data before it, the
  settings of the node and the entry, and the settings stay.
\<close>

locale machine =
  fixes step :: "'env \<Rightarrow> 'e \<Rightarrow> 's \<Rightarrow> 'x outcome \<times> 's"
    and dat :: "'s \<Rightarrow> 'd"
    and settings :: "'s \<Rightarrow> 'c"
  assumes step_settings: "settings (snd (step E e s)) = settings s"
    and step_dat: "settings s = settings t \<Longrightarrow> dat s = dat t \<Longrightarrow>
      fst (step E e s) = fst (step E e t) \<and> dat (snd (step E e s)) = dat (snd (step E e t))"
begin

text \<open>A log is applied entry by entry until one panics.\<close>

primrec run :: "'env \<Rightarrow> 'e list \<Rightarrow> 's \<Rightarrow> unit outcome \<times> 's" where
  "run E [] s = (Ret (), s)"
| "run E (e # es) s =
     (case step E e s of (Panic x, s') \<Rightarrow> (Panic x, s') | (Ret _, s') \<Rightarrow> run E es s')"

lemma run_settings: "settings (snd (run E es s)) = settings s"
proof (induction es arbitrary: s)
  case (Cons e es)
  show ?case
    using step_settings [of E e s] Cons
    by (cases "step E e s"; cases "fst (step E e s)") auto
qed simp

text \<open>Two nodes whose steps have the same effect entry by entry stay together.\<close>

lemma run_agree:
  assumes "list_all2 (\<lambda>e e'. \<forall>s. step E e s = step E e' s) es es'" "settings s = settings t" "dat s = dat t"
  shows "fst (run E es s) = fst (run E es' t) \<and> dat (snd (run E es s)) = dat (snd (run E es' t))"
  using assms
proof (induction es es' arbitrary: s t rule: list_all2_induct)
  case (Cons e es e' es')
  obtain x s' y t' where st: "step E e s = (x, s')" "step E e t = (y, t')" by fastforce
  have "settings s' = settings t'" "dat s' = dat t'" "x = y"
    using step_settings [of E e s] step_settings [of E e t] step_dat [OF Cons.prems, of E e] st Cons.prems
    by auto
  with st Cons.IH [of s' t'] Cons.hyps(1) show ?case by (cases x) auto
qed simp

lemma run_dat:
  "settings s = settings t \<Longrightarrow> dat s = dat t \<Longrightarrow>
   fst (run E es s) = fst (run E es t) \<and> dat (snd (run E es s)) = dat (snd (run E es t))"
  by (rule run_agree) (simp_all add: list_all2_same)

lemma run_append:
  "run E (es @ es') s =
     (case run E es s of (Panic x, s') \<Rightarrow> (Panic x, s') | (Ret _, s') \<Rightarrow> run E es' s')"
  by (induction es arbitrary: s) (auto split: prod.splits outcome.splits)

end

text \<open>
  With snapshots: saving and loading gives the data back, as long as the invariant holds. \<open>ok\<close>
  says that the libraries behave, \<open>good\<close> that an entry is one a node can have written.
\<close>

locale fsm = machine step dat settings
  for step :: "'env \<Rightarrow> 'e \<Rightarrow> 's \<Rightarrow> 'x outcome \<times> 's" and dat :: "'s \<Rightarrow> 'd" and settings :: "'s \<Rightarrow> 'c" +
  fixes ok :: "'env \<Rightarrow> bool"
    and good :: "'env \<Rightarrow> 'e \<Rightarrow> bool"
    and save :: "'env \<Rightarrow> 's \<Rightarrow> 'k"
    and load :: "'env \<Rightarrow> 'k \<Rightarrow> 's \<Rightarrow> go_error option \<times> 's"
    and inv :: "'s \<Rightarrow> bool"
  assumes step_inv: "ok E \<Longrightarrow> good E e \<Longrightarrow> inv s \<Longrightarrow> inv (snd (step E e s))"
    and load_save: "ok E \<Longrightarrow> inv s \<Longrightarrow>
      \<exists>t'. load E (save E s) t = (None, t') \<and> dat t' = dat s \<and> settings t' = settings t"
begin

lemma run_inv: "ok E \<Longrightarrow> list_all (good E) es \<Longrightarrow> inv s \<Longrightarrow> inv (snd (run E es s))"
proof (induction es arbitrary: s)
  case (Cons e es)
  then show ?case
    using step_inv [of E e s] by (cases "step E e s"; cases "fst (step E e s)") auto
qed simp

text \<open>
  Log compaction: a node that loads the state saved after \<open>pre\<close> and applies \<open>post\<close> ends as one
  that applied the whole log.
\<close>

lemma compaction:
  assumes "ok E" "inv s" "list_all (good E) pre" "run E pre s = (Ret (), s1)" "settings t = settings s"
  shows "\<exists>t'. load E (save E s1) t = (None, t') \<and>
    fst (run E post t') = fst (run E (pre @ post) s) \<and>
    dat (snd (run E post t')) = dat (snd (run E (pre @ post) s))"
proof -
  have "inv s1" using run_inv [OF assms(1,3,2)] assms(4) by simp
  from load_save [OF assms(1) this, of t] obtain t'
    where t': "load E (save E s1) t = (None, t')" "dat t' = dat s1" "settings t' = settings t" by blast
  have "settings t' = settings s1" using t'(3) assms(4,5) run_settings [of E pre s] by simp
  from run_dat [OF this t'(2), of E post] t'(1) assms(4) show ?thesis by (auto simp: run_append)
qed

end

section \<open>The store is a replicated state machine\<close>

definition entry_good :: "('r, 'v) store_env \<Rightarrow> raft_log \<times> int \<Rightarrow> bool" where
  "entry_good E e \<longleftrightarrow> (case js_unCommand (se_js E) (log_Data (fst e)) of Inl _ \<Rightarrow> True | Inr c \<Rightarrow> utf8_Command c)"

text \<open>The map of a store is finite and holds valid UTF-8.\<close>

definition store_inv :: "('r, 'v, 'w) RaftStore \<Rightarrow> bool" where
  "store_inv s \<longleftrightarrow> finite (dom (st_m s)) \<and> utf8_map (st_m s)"

lemma New_inv: "store_inv (New a r fs net)"
  by (simp add: store_inv_def New_def utf8_map_def)

lemma Apply_settings: "st_Arg (snd (Apply E now l s)) = st_Arg s"
  using Apply_None [of E s l now] Apply_Some [of E s l now]
  by (cases "entry_op E (st_Arg s) (l, now)") auto

lemma Apply_cong:
  assumes "st_Arg s = st_Arg t" "st_m s = st_m t"
  shows "fst (Apply E now l s) = fst (Apply E now l t) \<and>
    st_m (snd (Apply E now l s)) = st_m (snd (Apply E now l t))"
  using assms same_core_processSetRaftCluster [of s E] same_core_processSetRaftCluster [of t E]
  by (auto simp: Apply_def same_core_def split: sum.splits prod.splits bool.splits)

lemma kv_apply_inv:
  assumes "finite (dom m) \<and> utf8_map m"
    and "\<And>k v. op = KSet k v \<Longrightarrow> valid_utf8 k \<and> valid_utf8 v"
  shows "finite (dom (kv_apply op m)) \<and> utf8_map (kv_apply op m)"
  using assms by (cases op) (auto simp: utf8_map_def)

lemma Apply_inv:
  assumes "entry_good E (l, now)" "store_inv s"
  shows "store_inv (snd (Apply E now l s))"
proof (cases "entry_op E (st_Arg s) (l, now)")
  case None
  from Apply_None [OF this] assms(2) show ?thesis by auto
next
  case (Some op)
  have "valid_utf8 k \<and> valid_utf8 v" if "op = KSet k v" for k v
    using Some that assms(1)
    by (auto simp: entry_op_def entry_good_def cmd_op_def utf8_Command_def split: sum.splits if_splits)
  with kv_apply_inv [of "st_m s" op] Apply_Some [OF Some] assms(2) show ?thesis
    by (auto simp: store_inv_def)
qed

interpretation kv: fsm "\<lambda>E (l, now) s. Apply E now l s" st_m st_Arg "\<lambda>E. json_ok (se_js E)" entry_good
    "\<lambda>E s. js_map (se_js E) (st_m s)" "\<lambda>E c s. Restore (se_js E) c s" store_inv
proof (unfold_locales, goal_cases)
  case (1 E e s)
  then show ?case by (simp add: Apply_settings case_prod_beta)
next
  case (2 s t E e)
  then show ?case using Apply_cong [of s t] by (simp add: case_prod_beta)
next
  case (3 E e s)
  then show ?case by (cases e) (simp add: Apply_inv)
next
  case (4 E s t)
  then show ?case by (auto simp: Restore_def restore_map_def store_inv_def json_okD(2))
qed

lemma run_apply_logs: "kv.run E es s = apply_logs E es s"
  by (induction E es s rule: apply_logs.induct) (auto split: prod.splits outcome.splits)

section \<open>Freshness\<close>

text \<open>The command \<open>Set\<close> writes at \<open>t\<close>, and the one \<open>Delete\<close> writes.\<close>

definition set_cmd :: "(int \<Rightarrow> int) \<Rightarrow> int \<Rightarrow> string \<Rightarrow> string \<Rightarrow> Command" where
  "set_cmd loc t key value =
     \<lparr>cmd_Op = ''set'', cmd_Key = key, cmd_Value = value, cmd_Time = FormatTime loc t\<rparr>"

definition delete_cmd :: "(int \<Rightarrow> int) \<Rightarrow> int \<Rightarrow> string \<Rightarrow> Command" where
  "delete_cmd loc t key =
     \<lparr>cmd_Op = ''delete'', cmd_Key = key, cmd_Value = [], cmd_Time = FormatTime loc t\<rparr>"

lemma utf8_set_cmd: "valid_utf8 key \<Longrightarrow> valid_utf8 value \<Longrightarrow> utf8_Command (set_cmd loc t key value)"
  by (simp add: utf8_Command_def set_cmd_def byte_in_def)

lemma utf8_delete_cmd: "valid_utf8 key \<Longrightarrow> utf8_Command (delete_cmd loc t key)"
  by (simp add: utf8_Command_def delete_cmd_def byte_in_def)

lemma too_old_set_cmd:
  assumes "clock_ok loc t"
  shows "too_old now (set_cmd loc t key value) \<longleftrightarrow>
    (t + loc t * 1000000000) div 1000000 * 1000000 < now - 100 * 1000000000"
  using assms by (simp add: too_old_def set_cmd_def ParseTime_FormatTime)

lemma cmd_op_set:
  assumes "\<not> too_old now (set_cmd loc t key value)" "key \<noteq> ''/raft/cluster''"
  shows "cmd_op now (set_cmd loc t key value) = KSet key value"
  using assms by (simp add: cmd_op_def) (simp add: set_cmd_def)

lemma cmd_op_set_old:
  "too_old now (set_cmd loc t key value) \<Longrightarrow> cmd_op now (set_cmd loc t key value) = KNop"
  by (simp add: cmd_op_def set_cmd_def)

lemma cmd_op_delete: "cmd_op now (delete_cmd loc t key) = KDel key"
  by (simp add: cmd_op_def delete_cmd_def)

lemma entry_op_cmd:
  assumes "json_ok (se_js E)" "utf8_Command c" "log_Data l = js_Command (se_js E) c"
    and "\<not> snd (Intercept (se_unm E) a l c)"
  shows "entry_op E a (l, now) = Some (cmd_op now c)"
  using assms by (simp add: entry_op_def json_okD)

section \<open>Writes through Raft\<close>

lemma raft_Apply_refines:
  assumes "ra_Apply (se_api E) data (st_raft s) = (err, es, r)"
    and "map (entry_op E (st_Arg s)) es = map Some ops"
  shows "\<exists>s'. raft_Apply E data s = (Ret err, s') \<and> st_m s' = fold kv_apply ops (st_m s) \<and>
    st_raft s' = r \<and> st_Arg s' = st_Arg s"
  using apply_logs_refines [of E "s\<lparr>st_raft := r\<rparr>" es ops] assms
  by (auto simp: raft_Apply_def)

lemma Set_leader: "IsLeader E s \<Longrightarrow>
    Set E t key value s = raft_Apply E (js_Command (se_js E) (set_cmd (se_loc E) t key value)) s"
  by (simp add: Set_def set_cmd_def)

lemma Delete_leader: "IsLeader E s \<Longrightarrow>
    Delete E t key s = raft_Apply E (js_Command (se_js E) (delete_cmd (se_loc E) t key)) s"
  by (simp add: Delete_def delete_cmd_def)

lemma entries_ops:
  assumes "list_all (\<lambda>e. entry_op E a e \<noteq> None) es"
  shows "\<exists>ops. map (entry_op E a) es = map Some ops"
  using assms by (intro exI [of _ "map (\<lambda>e. the (entry_op E a e)) es"]) (auto simp: list_all_iff)

text \<open>
  The last write to a key decides: a log that ends with a write to the key and, after it,
  entries that do not write to it.
\<close>

lemma kv_lookup_last:
  assumes "kv_key op = Some k" "\<forall>op' \<in> set post. kv_key op' \<noteq> Some k"
  shows "kv_lookup (pre @ op # post) m k = kv_val op"
proof -
  have "find (\<lambda>op'. kv_key op' = Some k) (rev post @ op # rev pre) = Some op"
    using assms by (subst find_skip) auto
  then show ?thesis by (simp add: kv_lookup_def)
qed

lemma raft_Apply_writes:
  assumes "ra_Apply (se_api E) data (st_raft s) = (None, pre @ e # post, r)"
    and "entry_op E (st_Arg s) e = Some op" "kv_key op = Some key"
    and "list_all (\<lambda>e. entry_op E (st_Arg s) e \<noteq> None) (pre @ post)"
    and "list_all (\<lambda>e. Option.bind (entry_op E (st_Arg s) e) kv_key \<noteq> Some key) post"
  shows "\<exists>s'. raft_Apply E data s = (Ret None, s') \<and> Get key s' = kv_val op"
proof -
  obtain ops1 ops2 where ops: "map (entry_op E (st_Arg s)) pre = map Some ops1"
      "map (entry_op E (st_Arg s)) post = map Some ops2"
    using assms(4) entries_ops [of E "st_Arg s"] by (metis list_all_append)
  then have "map (entry_op E (st_Arg s)) (pre @ e # post) = map Some (ops1 @ op # ops2)"
    using assms(2) by simp
  from raft_Apply_refines [OF assms(1) this] obtain s' where
    s': "raft_Apply E data s = (Ret None, s')" "st_m s' = fold kv_apply (ops1 @ op # ops2) (st_m s)"
    by blast
  have "\<forall>op' \<in> set ops2. kv_key op' \<noteq> Some key"
  proof
    fix op' assume "op' \<in> set ops2"
    then have "Some op' \<in> set (map (entry_op E (st_Arg s)) post)" using ops(2) by simp
    then obtain e' where "e' \<in> set post" "entry_op E (st_Arg s) e' = Some op'"
      unfolding set_map image_iff by metis
    then show "kv_key op' \<noteq> Some key" using assms(5) by (fastforce simp: list_all_iff)
  qed
  with s' assms(3) show ?thesis
    by (auto simp: Get_def fold_kv_apply kv_lookup_last simp del: fold_append fold.simps)
qed

section \<open>Properties\<close>

text \<open>
  C8. Applying a list of committed log entries is carrying out a list of writes: when every entry
  decodes, no entry panics, and afterwards each key holds what the last entry that writes to
  it left there (a set that is fresh, a delete), or what it held before if no entry writes to
  it. The Raft state and the parameters of the node are not touched. An entry that does not
  decode panics, and the entries after it are not applied.
\<close>

theorem Apply_log_refines:
  assumes "map (entry_op E (st_Arg s)) es = map Some ops"
  shows "\<exists>s'. apply_logs E es s = (Ret (), s') \<and> (\<forall>k. Get k s' = kv_lookup ops (st_m s) k) \<and>
      st_raft s' = st_raft s \<and> st_Arg s' = st_Arg s \<and>
      (\<forall>l now rest. entry_op E (st_Arg s) (l, now) = None \<longrightarrow>
         (\<exists>msg. apply_logs E (es @ (l, now) # rest) s = (Panic msg, s')))"
proof -
  obtain s' where s': "apply_logs E es s = (Ret (), s')" "st_m s' = fold kv_apply ops (st_m s)"
      "st_raft s' = st_raft s" "st_Arg s' = st_Arg s"
    using apply_logs_refines [OF assms] by blast
  have "\<exists>msg. apply_logs E (es @ (l, now) # rest) s = (Panic msg, s')"
    if "entry_op E (st_Arg s) (l, now) = None" for l now rest
    using Apply_None [of E s' l now] that s'(1,4) by (auto simp: apply_logs_append)
  with s' show ?thesis by (auto simp: Get_def fold_kv_apply)
qed

definition demo_log :: "Command \<Rightarrow> raft_log" where
  "demo_log c = \<lparr>log_Index = 1, log_Data = enc_Command c\<rparr>"

lemma demo_entry_op:
  assumes "E = demo_senv loc"
  shows "entry_op E (st_Arg demo_store) (demo_log c, now) = Some (cmd_op now c)"
  using assms by (simp add: entry_op_def demo_log_def)

lemma demo_fresh: "\<not> too_old demo_t (set_cmd utc demo_t key value)"
  using demo_clock_ok(1) by (simp add: too_old_set_cmd)

theorem Apply_log_refines_witness:
  "\<exists>s'. apply_logs (demo_senv utc)
        [(demo_log (set_cmd utc demo_t ''a'' ''1''), demo_t),
         (demo_log (set_cmd utc demo_t ''b'' ''2''), demo_t),
         (demo_log (delete_cmd utc demo_t ''a''), demo_t)] demo_store = (Ret (), s') \<and>
      Get ''a'' s' = None \<and> Get ''b'' s' = Some ''2''"
proof -
  have "map (entry_op (demo_senv utc) (st_Arg demo_store))
        [(demo_log (set_cmd utc demo_t ''a'' ''1''), demo_t),
         (demo_log (set_cmd utc demo_t ''b'' ''2''), demo_t),
         (demo_log (delete_cmd utc demo_t ''a''), demo_t)] =
      map Some [KSet ''a'' ''1'', KSet ''b'' ''2'', KDel ''a'']"
    by (simp add: demo_entry_op [OF refl] cmd_op_set [OF demo_fresh] cmd_op_delete)
  from Apply_log_refines [OF this] show ?thesis by (auto simp: kv_lookup_def)
qed

text \<open>
  Read your writes: when the leader's \<open>Set\<close> returns without an error, \<open>Get\<close> returns the value
  that was set. The assumptions: the JSON library round-trips valid UTF-8; Raft's future
  reports success only after handing the command, at some place among other decodable
  entries, to the state machine (\<open>l\<close>, applied at \<open>now\<close>), and no later entry of those writes
  the key; no interceptor or log dealer takes the command; and the age check passes, that is,
  the wall-clock time of the \<open>Set\<close>, read as UTC, is at most 100 s behind \<open>now\<close>.
\<close>

theorem Set_Get:
  assumes "json_ok (se_js E)" "valid_utf8 key" "valid_utf8 value" "key \<noteq> ''/raft/cluster''"
    and "clock_ok (se_loc E) t" "IsLeader E s"
    and "ra_Apply (se_api E) (js_Command (se_js E) (set_cmd (se_loc E) t key value)) (st_raft s) =
          (None, pre @ (l, now) # post, r)"
    and "log_Data l = js_Command (se_js E) (set_cmd (se_loc E) t key value)"
    and "\<not> snd (Intercept (se_unm E) (st_Arg s) l (set_cmd (se_loc E) t key value))"
    and "now - 100 * 1000000000 \<le> (t + se_loc E t * 1000000000) div 1000000 * 1000000"
    and "list_all (\<lambda>e. entry_op E (st_Arg s) e \<noteq> None) (pre @ post)"
    and "list_all (\<lambda>e. Option.bind (entry_op E (st_Arg s) e) kv_key \<noteq> Some key) post"
  shows "\<exists>s'. Set E t key value s = (Ret None, s') \<and> Get key s' = Some value"
proof -
  have "\<not> too_old now (set_cmd (se_loc E) t key value)"
    using assms(5,10) by (simp add: too_old_set_cmd)
  then have "entry_op E (st_Arg s) (l, now) = Some (KSet key value)"
    using entry_op_cmd [OF assms(1) utf8_set_cmd [OF assms(2,3)] assms(8,9), of now] assms(4)
    by (simp add: cmd_op_set)
  from raft_Apply_writes [OF assms(7) this _ assms(11,12)] assms(6) show ?thesis
    by (simp add: Set_leader)
qed

lemma demo_ra_Apply:
  assumes "st_raft s = demo_raft0"
  shows "ra_Apply (se_api (demo_senv loc)) data (st_raft s) =
     (None, [] @ (\<lparr>log_Index = 1, log_Data = data\<rparr>, demo_t) # [],
      demo_raft0\<lparr>dr_index := 1, dr_log := [(\<lparr>log_Index = 1, log_Data = data\<rparr>, demo_t)]\<rparr>)"
  unfolding assms by (simp add: demo_defs)

theorem Set_Get_witness:
  "\<exists>s'. Set (demo_senv utc) demo_t ''user1'' ''batman'' demo_store = (Ret None, s') \<and>
     Get ''user1'' s' = Some ''batman''"
  by (rule Set_Get [of "demo_senv utc" "''user1''" "''batman''" "demo_t" demo_store "[]" _ "demo_t" "[]",
        OF _ _ _ _ _ _ demo_ra_Apply [OF demo_store_raft]])
    (simp_all add: demo_json_ok demo_clock_ok byte_in_def)

text \<open>
  When the leader's \<open>Delete\<close> returns without an error, the key is gone, under the same
  assumptions on Raft and JSON. A delete is never too old.
\<close>

theorem Delete_Get:
  assumes "json_ok (se_js E)" "valid_utf8 key" "IsLeader E s"
    and "ra_Apply (se_api E) (js_Command (se_js E) (delete_cmd (se_loc E) t key)) (st_raft s) =
          (None, pre @ (l, now) # post, r)"
    and "log_Data l = js_Command (se_js E) (delete_cmd (se_loc E) t key)"
    and "\<not> snd (Intercept (se_unm E) (st_Arg s) l (delete_cmd (se_loc E) t key))"
    and "list_all (\<lambda>e. entry_op E (st_Arg s) e \<noteq> None) (pre @ post)"
    and "list_all (\<lambda>e. Option.bind (entry_op E (st_Arg s) e) kv_key \<noteq> Some key) post"
  shows "\<exists>s'. Delete E t key s = (Ret None, s') \<and> Get key s' = None"
proof -
  have "entry_op E (st_Arg s) (l, now) = Some (KDel key)"
    using entry_op_cmd [OF assms(1) utf8_delete_cmd [OF assms(2)] assms(5,6), of now]
    by (simp add: cmd_op_delete)
  from raft_Apply_writes [OF assms(4) this _ assms(7,8)] assms(3) show ?thesis
    by (simp add: Delete_leader)
qed

theorem Delete_Get_witness:
  "\<exists>s'. Delete (demo_senv utc) demo_t ''user1'' (demo_store\<lparr>st_m := [''user1'' \<mapsto> ''batman'']\<rparr>) =
     (Ret None, s') \<and> Get ''user1'' s' = None"
  by (rule Delete_Get [of "demo_senv utc" "''user1''" "demo_store\<lparr>st_m := [''user1'' \<mapsto> ''batman'']\<rparr>"
        "demo_t" "[]" _ "demo_t" "[]", OF _ _ _ demo_ra_Apply])
    (simp_all add: demo_json_ok byte_in_def IsLeader_def demo_api_def demo_raft0_def)

text \<open>
  Only the leader changes anything: on a node that is not the leader \<open>Set\<close>, \<open>Delete\<close>,
  \<open>Join\<close> and \<open>Remove\<close> return \<open>ErrNotLeader\<close> and leave the store, its files and Raft as they are.
\<close>

theorem not_leader_refuses:
  assumes "\<not> IsLeader E s"
  shows "Set E t key value s = (Ret (Some ErrNotLeader), s) \<and>
    Delete E t key s = (Ret (Some ErrNotLeader), s) \<and>
    RaftStore_Join E nodeID addr s = (Some ErrNotLeader, s) \<and>
    Remove E nodeID s = (Some ErrNotLeader, s)"
  using assms by (simp add: Set_def Delete_def RaftStore_Join_def Remove_def IsLeader_def)

theorem not_leader_refuses_witness:
  "Set (demo_senv utc) demo_t ''a'' ''b'' (demo_store\<lparr>st_raft := demo_raft0\<lparr>dr_State := Follower\<rparr>\<rparr>) =
     (Ret (Some ErrNotLeader), demo_store\<lparr>st_raft := demo_raft0\<lparr>dr_State := Follower\<rparr>\<rparr>)"
proof -
  have "\<not> IsLeader (demo_senv utc) (demo_store\<lparr>st_raft := demo_raft0\<lparr>dr_State := Follower\<rparr>\<rparr>)"
    by (simp add: IsLeader_def demo_api_def)
  from not_leader_refuses [OF this, of demo_t "''a''" "''b''" "[]" "[]"] show ?thesis by simp
qed

definition sink_keeps :: "'k sink_api \<Rightarrow> ('k \<Rightarrow> string option) \<Rightarrow> 'k \<Rightarrow> bool" where
  "sink_keeps api content sink \<longleftrightarrow>
     (\<forall>d k k'. sk_Write api d sink = (None, k) \<longrightarrow> sk_Close api k = (None, k') \<longrightarrow> content k' = Some d)"

lemma Persist_ok:
  assumes "Persist js api f sink = (None, sink')" "sink_keeps api content sink"
  shows "content sink' = Some (js_map js (snap_store f))"
  using assms by (auto simp: Persist_def sink_keeps_def Let_def split: prod.splits option.splits if_splits)

text \<open>
  C14. Snapshots make log compaction safe: take a snapshot of the store after it applied \<open>pre\<close>,
  persist it without an error, restore it on another node with the same parameters and apply
  the rest of the log there. The restoring succeeds, and that node ends as a node that
  applied the whole log: the same map, and a panic at the same entry if there is one. The
  assumptions: JSON round-trips, the store held valid UTF-8 and so do the applied commands,
  \<open>ks\<close> is the order in which the map was ranged over, and a sink written and closed without an
  error holds what was written.
\<close>

theorem snapshot_compaction:
  assumes "json_ok (se_js E)" "store_inv s" "list_all (entry_good E) pre"
    and "apply_logs E pre s = (Ret (), s1)" "set ks = dom (st_m s1)"
    and "Persist (se_js E) api (fst (Snapshot ks s1)) sink = (None, sink')" "sink_keeps api content sink"
    and "st_Arg t = st_Arg s"
  shows "\<exists>data t'. content sink' = Some data \<and> Restore (se_js E) data t = (None, t') \<and>
    fst (apply_logs E post t') = fst (apply_logs E (pre @ post) s) \<and>
    st_m (snd (apply_logs E post t')) = st_m (snd (apply_logs E (pre @ post) s))"
proof -
  have "content sink' = Some (js_map (se_js E) (st_m s1))"
    using Persist_ok [OF assms(6,7)] CloneMap_id [OF assms(5)] by (simp add: Snapshot_def)
  moreover have "kv.run E pre s = (Ret (), s1)" using assms(4) by (simp add: run_apply_logs)
  ultimately show ?thesis
    using kv.compaction [of E s pre s1 t post] assms(1,2,3,8) by (simp add: run_apply_logs)
qed

definition demo_sink :: "(string \<times> bool) sink_api" where
  "demo_sink = \<lparr>sk_Write = (\<lambda>d k. (None, (fst k @ d, snd k))), sk_Close = (\<lambda>k. (None, (fst k, True))),
     sk_Cancel = (\<lambda>k. (None, ([], True)))\<rparr>"

theorem snapshot_compaction_witness:
  "\<exists>data t'. Some (js_map demo_json [''a'' \<mapsto> ''1'']) = Some data \<and>
     Restore demo_json data demo_store = (None, t') \<and>
     st_m (snd (apply_logs (demo_senv utc) [(demo_log (set_cmd utc demo_t ''b'' ''2''), demo_t)] t')) =
       st_m (snd (apply_logs (demo_senv utc)
         ([(demo_log (set_cmd utc demo_t ''a'' ''1''), demo_t)] @
          [(demo_log (set_cmd utc demo_t ''b'' ''2''), demo_t)]) demo_store))"
proof -
  define s1 where "s1 = demo_store\<lparr>st_m := [''a'' \<mapsto> ''1'']\<rparr>"
  have one: "apply_logs (demo_senv utc) [(demo_log (set_cmd utc demo_t ''a'' ''1''), demo_t)] demo_store = (Ret (), s1)"
    using demo_fresh [of "''a''" "''1''"]
    by (simp add: Apply_def demo_log_def s1_def) (simp add: set_cmd_def demo_store_def New_def)
  have good: "list_all (entry_good (demo_senv utc)) [(demo_log (set_cmd utc demo_t ''a'' ''1''), demo_t)]"
    by (simp add: entry_good_def demo_log_def utf8_set_cmd byte_in_def)
  have pers: "Persist (se_js (demo_senv utc)) demo_sink (fst (Snapshot [''a''] s1)) ([], False) =
      (None, js_map demo_json [''a'' \<mapsto> ''1''], True)"
    by (simp add: Persist_def demo_sink_def Snapshot_def CloneMap_def s1_def)
  have keeps: "sink_keeps demo_sink (\<lambda>k. if snd k then Some (fst k) else None) ([], False)"
    by (simp add: sink_keeps_def demo_sink_def)
  have inv: "store_inv demo_store" unfolding demo_store_def by (rule New_inv)
  have ok: "json_ok (se_js (demo_senv utc))" by (simp add: demo_json_ok)
  have ks: "set [''a''] = dom (st_m s1)" by (simp add: s1_def)
  from snapshot_compaction [OF ok inv good one ks pers keeps refl,
      of "[(demo_log (set_cmd utc demo_t ''b'' ''2''), demo_t)]"]
  show ?thesis by auto
qed

text \<open>
  Replicas agree: two nodes with the same map and the same parameters that apply the same log
  entries, each by its own clock, end with the same map and the same outcome, provided the
  age check gives the same answer on both nodes for every command of the log.
\<close>

theorem replicas_agree:
  assumes "st_Arg s = st_Arg t" "st_m s = st_m t"
    and "list_all2 (\<lambda>e e'. fst e = fst e' \<and>
      (\<forall>c. js_unCommand (se_js E) (log_Data (fst e)) = Inr c \<longrightarrow> too_old (snd e) c = too_old (snd e') c)) es es'"
  shows "fst (apply_logs E es s) = fst (apply_logs E es' t) \<and>
    st_m (snd (apply_logs E es s)) = st_m (snd (apply_logs E es' t))"
proof -
  have "\<forall>s. Apply E (snd e) (fst e) s = Apply E (snd e') (fst e') s"
    if "fst e = fst e' \<and>
      (\<forall>c. js_unCommand (se_js E) (log_Data (fst e)) = Inr c \<longrightarrow> too_old (snd e) c = too_old (snd e') c)" for e e'
    using that by (auto simp: Apply_def split: sum.splits prod.splits bool.splits)
  note step_agree = this
  have "list_all2 (\<lambda>e e'. \<forall>s. (case e of (l, now) \<Rightarrow> \<lambda>s. Apply E now l s) s = (case e' of (l, now) \<Rightarrow> \<lambda>s. Apply E now l s) s) es es'"
    using assms(3) by (rule list_all2_mono) (use step_agree in \<open>simp add: case_prod_beta\<close>)
  from kv.run_agree [OF this assms(1,2)] show ?thesis by (simp add: run_apply_logs)
qed

theorem replicas_agree_witness:
  "st_m (snd (apply_logs (demo_senv utc) [(demo_log (delete_cmd utc demo_t ''a''), 0)] demo_store)) =
   st_m (snd (apply_logs (demo_senv utc) [(demo_log (delete_cmd utc demo_t ''a''), 1)]
     (demo_store\<lparr>st_raft := demo_raft0\<lparr>dr_State := Follower\<rparr>\<rparr>)))"
proof -
  have "ParseTime (FormatTime utc demo_t) = Some demo_t"
    using ParseTime_FormatTime [OF demo_clock_ok(1)] by simp
  then have "list_all2 (\<lambda>e e'. fst e = fst e' \<and>
      (\<forall>c. js_unCommand (se_js (demo_senv utc)) (log_Data (fst e)) = Inr c \<longrightarrow> too_old (snd e) c = too_old (snd e') c))
      [(demo_log (delete_cmd utc demo_t ''a''), 0)] [(demo_log (delete_cmd utc demo_t ''a''), 1)]"
    by (simp add: demo_log_def) (simp add: too_old_def delete_cmd_def)
  from replicas_agree [OF _ _ this, of demo_store "demo_store\<lparr>st_raft := demo_raft0\<lparr>dr_State := Follower\<rparr>\<rparr>"]
  show ?thesis by simp
qed

text \<open>
  C37. Without that proviso they do not agree: \<open>Apply\<close> reads the clock, so the same log entry,
  written at \<open>t\<close>, sets its key on a node that applies it at \<open>t\<close> and is dropped by a node that
  applies it 101 s later (a slow follower, or a restart that replays the log).
\<close>

theorem Apply_clock_divergence:
  assumes "json_ok (se_js E)" "valid_utf8 key" "valid_utf8 value" "key \<noteq> ''/raft/cluster''"
    and "clock_ok (se_loc E) t" "se_loc E t = 0"
    and "log_Data l = js_Command (se_js E) (set_cmd (se_loc E) t key value)"
    and "\<not> snd (Intercept (se_unm E) (st_Arg s) l (set_cmd (se_loc E) t key value))"
    and "Get key s = None"
  shows "Get key (snd (Apply E t l s)) = Some value \<and>
    Get key (snd (Apply E (t + 101 * 1000000000) l s)) = None"
proof -
  have op: "entry_op E (st_Arg s) (l, now) = Some (cmd_op now (set_cmd (se_loc E) t key value))" for now
    using entry_op_cmd [OF assms(1) utf8_set_cmd [OF assms(2,3)] assms(7,8)] .
  have "t - 1000000 < t div 1000000 * 1000000 \<and> t div 1000000 * 1000000 \<le> t" by presburger
  then have "\<not> too_old t (set_cmd (se_loc E) t key value)"
      "too_old (t + 101 * 1000000000) (set_cmd (se_loc E) t key value)"
    using assms(5,6) by (auto simp: too_old_set_cmd)
  with Apply_Some [OF op [of t]] Apply_Some [OF op [of "t + 101 * 1000000000"]] assms(4,9) show ?thesis
    by (auto simp: Get_def cmd_op_set cmd_op_set_old)
qed

lemma demo_empty: "Get key demo_store = None"
  by (simp add: Get_def demo_store_def New_def)

theorem Apply_clock_divergence_witness:
  "Get ''a'' (snd (Apply (demo_senv utc) demo_t (demo_log (set_cmd utc demo_t ''a'' ''1'')) demo_store)) = Some ''1'' \<and>
   Get ''a'' (snd (Apply (demo_senv utc) (demo_t + 101 * 1000000000)
      (demo_log (set_cmd utc demo_t ''a'' ''1'')) demo_store)) = None"
  by (rule Apply_clock_divergence [of "demo_senv utc" "''a''" "''1''" demo_t, unfolded demo_senv_simps])
    (simp_all add: demo_json_ok demo_clock_ok byte_in_def demo_log_def demo_empty)

text \<open>
  C38. \<open>FormatTime\<close> prints the local wall-clock time and \<open>ParseTime\<close> reads it as UTC. On a node in a
  zone more than 100 s west of UTC every \<open>Set\<close> is therefore dropped as too old by the state
  machine, while \<open>Set\<close> itself reports success: the map is unchanged.
\<close>

theorem Set_west_of_UTC_lost:
  assumes "json_ok (se_js E)" "valid_utf8 key" "valid_utf8 value"
    and "clock_ok (se_loc E) t" "IsLeader E s" "se_loc E t < - 100" "t \<le> now"
    and "ra_Apply (se_api E) (js_Command (se_js E) (set_cmd (se_loc E) t key value)) (st_raft s) =
          (None, [(l, now)], r)"
    and "log_Data l = js_Command (se_js E) (set_cmd (se_loc E) t key value)"
    and "\<not> snd (Intercept (se_unm E) (st_Arg s) l (set_cmd (se_loc E) t key value))"
  shows "\<exists>s'. Set E t key value s = (Ret None, s') \<and> st_m s' = st_m s"
proof -
  have "x div 1000000 * 1000000 \<le> x" for x :: int by presburger
  from this [of "t + se_loc E t * 1000000000"]
  have "(t + se_loc E t * 1000000000) div 1000000 * 1000000 < now - 100 * 1000000000"
    using assms(6,7) by linarith
  then have "too_old now (set_cmd (se_loc E) t key value)"
    using assms(4) by (simp add: too_old_set_cmd)
  then have "entry_op E (st_Arg s) (l, now) = Some KNop"
    using entry_op_cmd [OF assms(1) utf8_set_cmd [OF assms(2,3)] assms(9,10), of now]
    by (simp add: cmd_op_set_old)
  with raft_Apply_refines [OF assms(8), of "[KNop]"] assms(5) show ?thesis
    by (auto simp: Set_leader)
qed

theorem Set_west_of_UTC_lost_witness:
  "\<exists>s'. Set (demo_senv west) demo_t ''user1'' ''batman'' demo_store = (Ret None, s') \<and>
     st_m s' = st_m demo_store"
  by (rule Set_west_of_UTC_lost [of "demo_senv west" "''user1''" "''batman''" demo_t demo_store demo_t,
        OF _ _ _ _ _ _ _ demo_ra_Apply [OF demo_store_raft, simplified append_Nil]])
    (simp_all add: demo_json_ok demo_clock_ok byte_in_def)

end
