(* ===== verification/Store_Interface.thy ===== *)
theory Store_Interface
  imports Store_KV
begin

text \<open>
  The interface \<open>Store\<close> of \<open>storei.go\<close> as its clients, the HTTP handlers, rely on it: what a read
  returns after a write that reported success. The locale \<open>kv_store\<close> states it and is
  interpreted on \<open>Set\<close>, \<open>Delete\<close> and \<open>Get\<close> of the Raft store.
\<close>

section \<open>The contract\<close>

locale kv_store =
  fixes ready :: "'env \<Rightarrow> 's \<Rightarrow> bool"
    and key_ok :: "'k \<Rightarrow> bool"
    and val_ok :: "'v \<Rightarrow> bool"
    and set_kv :: "'env \<Rightarrow> 'k \<Rightarrow> 'v \<Rightarrow> 's \<Rightarrow> 'e option outcome \<times> 's"
    and del_kv :: "'env \<Rightarrow> 'k \<Rightarrow> 's \<Rightarrow> 'e option outcome \<times> 's"
    and get_kv :: "'k \<Rightarrow> 's \<Rightarrow> 'v option"
  assumes set_law: "ready E s \<Longrightarrow> key_ok k \<Longrightarrow> val_ok v \<Longrightarrow> set_kv E k v s = (Ret None, s') \<Longrightarrow>
      ready E s' \<and> get_kv k s' = Some v \<and> (\<forall>j. j \<noteq> k \<longrightarrow> get_kv j s' = get_kv j s)"
    and del_law: "ready E s \<Longrightarrow> key_ok k \<Longrightarrow> del_kv E k s = (Ret None, s') \<Longrightarrow>
      ready E s' \<and> get_kv k s' = None \<and> (\<forall>j. j \<noteq> k \<longrightarrow> get_kv j s' = get_kv j s)"
begin

text \<open>Writing a list of keys, up to the first failure.\<close>

primrec set_all :: "'env \<Rightarrow> ('k \<Rightarrow> 'v) \<Rightarrow> 'k list \<Rightarrow> 's \<Rightarrow> 'e option outcome \<times> 's" where
  "set_all E m [] s = (Ret None, s)"
| "set_all E m (k # ks) s =
     (case set_kv E k (m k) s of (Ret None, s') \<Rightarrow> set_all E m ks s' | r \<Rightarrow> r)"

lemma set_all_get:
  "ready E s \<Longrightarrow> distinct ks \<Longrightarrow> \<forall>k \<in> set ks. key_ok k \<and> val_ok (m k) \<Longrightarrow>
   set_all E m ks s = (Ret None, s') \<Longrightarrow>
   ready E s' \<and> (\<forall>j. get_kv j s' = (if j \<in> set ks then Some (m j) else get_kv j s))"
proof (induction ks arbitrary: s)
  case (Cons k ks)
  obtain s1 where s1: "set_kv E k (m k) s = (Ret None, s1)" "set_all E m ks s1 = (Ret None, s')"
    using Cons.prems(4) by (auto split: prod.splits outcome.splits option.splits)
  from set_law [OF Cons.prems(1) _ _ s1(1)] Cons.prems(3)
  have law: "ready E s1" "get_kv k s1 = Some (m k)" "\<forall>j. j \<noteq> k \<longrightarrow> get_kv j s1 = get_kv j s" by auto
  from Cons.IH [OF law(1) _ _ s1(2)] Cons.prems(2,3) law(2,3) show ?case by auto
qed simp

end

section \<open>The Raft store keeps it\<close>

text \<open>
  The contract holds where Raft is prompt: a future reports success only when exactly the
  command has been handed to the state machine, while it still counts as fresh; nothing
  intercepts commands; JSON round-trips. \<open>clk k\<close> is the clock when the key \<open>k\<close> is written.
\<close>

definition prompt :: "('r, 'v) store_env \<Rightarrow> (string \<Rightarrow> int) \<Rightarrow> bool" where
  "prompt E clk \<longleftrightarrow> json_ok (se_js E) \<and> (\<forall>k. clock_ok (se_loc E) (clk k)) \<and>
     (\<forall>data r es r'. ra_Apply (se_api E) data r = (None, es, r') \<longrightarrow>
        (\<exists>l now. es = [(l, now)] \<and> log_Data l = data \<and>
           (\<forall>k. now - 100 * 1000000000 \<le> (clk k + se_loc E (clk k) * 1000000000) div 1000000 * 1000000)))"

definition store_ready :: "('r, 'v) store_env \<times> (string \<Rightarrow> int) \<Rightarrow> ('r, 'v, 'w) RaftStore \<Rightarrow> bool" where
  "store_ready X s \<longleftrightarrow> prompt (fst X) (snd X) \<and>
     (\<forall>l c. \<not> snd (Intercept (se_unm (fst X)) (st_Arg s) l c))"

definition plain_key :: "string \<Rightarrow> bool" where
  "plain_key k \<longleftrightarrow> valid_utf8 k \<and> k \<noteq> ''/raft/cluster''"

lemma promptD:
  assumes "prompt E clk"
  shows "json_ok (se_js E)" "clock_ok (se_loc E) (clk k)"
    and "ra_Apply (se_api E) data r = (None, es, r') \<Longrightarrow> \<exists>l now. es = [(l, now)] \<and> log_Data l = data \<and>
      now - 100 * 1000000000 \<le> (clk k + se_loc E (clk k) * 1000000000) div 1000000 * 1000000"
  using assms unfolding prompt_def by blast+

lemma raft_Apply_err:
  assumes "raft_Apply E data s = (Ret err, s')"
  shows "\<exists>es r. ra_Apply (se_api E) data (st_raft s) = (err, es, r)"
  using assms by (auto simp: raft_Apply_def split: prod.splits outcome.splits)

lemma raft_Apply_prompt:
  assumes "store_ready (E, clk) s" "raft_Apply E (js_Command (se_js E) c) s = (Ret None, s')"
    and "utf8_Command c"
    and op: "\<And>now. now - 100 * 1000000000 \<le> (clk k + se_loc E (clk k) * 1000000000) div 1000000 * 1000000 \<Longrightarrow>
          cmd_op now c = op"
  shows "st_m s' = kv_apply op (st_m s) \<and> store_ready (E, clk) s'"
proof -
  have p: "prompt E clk" using assms(1) by (simp add: store_ready_def)
  obtain es r where ra: "ra_Apply (se_api E) (js_Command (se_js E) c) (st_raft s) = (None, es, r)"
    using raft_Apply_err [OF assms(2)] by blast
  from promptD(3) [OF p ra, of k] obtain l now where l: "es = [(l, now)]" "log_Data l = js_Command (se_js E) c"
      "now - 100 * 1000000000 \<le> (clk k + se_loc E (clk k) * 1000000000) div 1000000 * 1000000" by blast
  have "entry_op E (st_Arg s) (l, now) = Some op"
    using entry_op_cmd [OF promptD(1) [OF p] assms(3) l(2), of "st_Arg s" now] op [OF l(3)] assms(1)
    by (simp add: store_ready_def)
  then have "map (entry_op E (st_Arg s)) es = map Some [op]" by (simp add: l(1))
  from raft_Apply_refines [OF ra this] assms(1,2) show ?thesis by (auto simp: store_ready_def)
qed

lemma Set_prompt:
  assumes "store_ready (E, clk) s" "plain_key k" "valid_utf8 v" "Set E (clk k) k v s = (Ret None, s')"
  shows "st_m s' = (st_m s)(k \<mapsto> v) \<and> store_ready (E, clk) s'"
proof -
  let ?c = "set_cmd (se_loc E) (clk k) k v"
  have "IsLeader E s" using assms(4) by (auto simp: Set_def split: if_splits)
  then have ra: "raft_Apply E (js_Command (se_js E) ?c) s = (Ret None, s')"
    using assms(4) by (simp add: Set_leader)
  have "clock_ok (se_loc E) (clk k)" using assms(1) promptD(2) by (auto simp: store_ready_def)
  then have op: "cmd_op now ?c = KSet k v"
    if "now - 100 * 1000000000 \<le> (clk k + se_loc E (clk k) * 1000000000) div 1000000 * 1000000" for now
    using that assms(2) by (intro cmd_op_set) (simp_all add: too_old_set_cmd plain_key_def)
  have "utf8_Command ?c" using assms(2,3) by (simp add: utf8_set_cmd plain_key_def)
  from raft_Apply_prompt [OF assms(1) ra this op] show ?thesis by simp
qed

lemma Delete_prompt:
  assumes "store_ready (E, clk) s" "plain_key k" "Delete E (clk k) k s = (Ret None, s')"
  shows "st_m s' = (st_m s)(k := None) \<and> store_ready (E, clk) s'"
proof -
  let ?c = "delete_cmd (se_loc E) (clk k) k"
  have "IsLeader E s" using assms(3) by (auto simp: Delete_def split: if_splits)
  then have ra: "raft_Apply E (js_Command (se_js E) ?c) s = (Ret None, s')"
    using assms(3) by (simp add: Delete_leader)
  have "utf8_Command ?c" using assms(2) by (simp add: utf8_delete_cmd plain_key_def)
  from raft_Apply_prompt [OF assms(1) ra this cmd_op_delete] show ?thesis by simp
qed

interpretation raft_kv: kv_store store_ready plain_key valid_utf8
    "\<lambda>X k v s. Set (fst X) (snd X k) k v s" "\<lambda>X k s. Delete (fst X) (snd X k) k s" Get
proof (unfold_locales, goal_cases)
  case (1 X s k v s')
  then show ?case using Set_prompt [of "fst X" "snd X" s k v s'] by (simp add: Get_def)
next
  case (2 X s k s')
  then show ?case using Delete_prompt [of "fst X" "snd X" s k s'] by (simp add: Get_def)
qed

lemma demo_prompt: "prompt (demo_senv utc) (\<lambda>_. demo_t)"
  by (simp add: prompt_def demo_json_ok demo_clock_ok) (simp add: demo_api_def)

lemma demo_Set: "\<exists>s'. Set (demo_senv utc) demo_t key value demo_store = (Ret None, s')"
proof -
  let ?data = "js_Command (se_js (demo_senv utc)) (set_cmd utc demo_t key value)"
  have "map (entry_op (demo_senv utc) (st_Arg demo_store)) ([] @ (\<lparr>log_Index = 1, log_Data = ?data\<rparr>, demo_t) # []) =
      map Some [cmd_op demo_t (set_cmd utc demo_t key value)]"
    by (simp add: entry_op_def)
  from raft_Apply_refines [OF demo_ra_Apply [OF demo_store_raft] this] show ?thesis
    by (auto simp: Set_leader)
qed

lemma demo_Set_returns: "\<exists>x s'. Set (demo_senv loc) t key value s = (Ret x, s')"
proof (cases "IsLeader (demo_senv loc) s")
  case True
  let ?data = "js_Command (se_js (demo_senv loc)) (set_cmd loc t key value)"
  let ?e = "(\<lparr>log_Index = Suc (dr_index (st_raft s)), log_Data = ?data\<rparr>, demo_t)"
  have ra: "ra_Apply (se_api (demo_senv loc)) ?data (st_raft s) =
      (None, [?e], (st_raft s)\<lparr>dr_index := Suc (dr_index (st_raft s)), dr_log := dr_log (st_raft s) @ [?e]\<rparr>)"
    by (simp add: demo_api_def)
  have "\<exists>op. map (entry_op (demo_senv loc) (st_Arg s))
      [(\<lparr>log_Index = Suc (dr_index (st_raft s)), log_Data = ?data\<rparr>, demo_t)] = map Some [op]"
    by (simp add: entry_op_def)
  with raft_Apply_refines [OF ra] True show ?thesis by (fastforce simp: Set_leader)
qed (simp add: Set_def)

end
