(* ===== verification/Store_Members.thy ===== *)
theory Store_Members
  imports Raft_Instance
begin

text \<open>
  The membership half of the store: \<open>Join\<close> and \<open>Remove\<close> against their specification, the peers
  file they leave behind, and the queries \<open>LeadServer\<close> and \<open>Cluster\<close>.
\<close>

section \<open>The peers file\<close>

definition utf8_server :: "Server \<Rightarrow> bool" where
  "utf8_server srv \<longleftrightarrow> valid_utf8 (srv_ID srv) \<and> valid_utf8 (srv_Address srv)"

lemma ParseSuffrage_String [simp]: "ParseSuffrage (Suffrage_String x) = x"
  by (cases x) (simp_all add: ParseSuffrage_def)

lemma utf8_config_entry: "utf8_server srv \<Longrightarrow> utf8_entry (config_entry srv)"
  by (cases "srv_Suffrage srv") (simp_all add: utf8_server_def utf8_entry_def config_entry_def byte_in_def)

lemma parse_config_entry:
  "\<lparr>srv_Suffrage = ParseSuffrage (ce_Suffrage (config_entry srv)), srv_ID = ce_ID (config_entry srv),
    srv_Address = ce_Address (config_entry srv)\<rparr> = srv"
  by (simp add: config_entry_def)

text \<open>The node may write and read its peers file.\<close>

definition peers_file_ok :: "('r, 'v, 'w) RaftStore \<Rightarrow> bool" where
  "peers_file_ok s \<longleftrightarrow> fs_write_err (st_fs s) (peers_path (st_Arg s)) = None \<and>
     fs_read_err (st_fs s) (peers_path (st_Arg s)) = None"

lemma writeConfigEntries_read:
  assumes "json_ok (se_js E)" "list_all utf8_server (members (se_api E) (st_raft s))" "peers_file_ok s"
    and "writeConfigEntries E s = (err, s')"
  shows "err = None \<and> ReadPeersJSON (se_js E) (peers_path (st_Arg s')) (st_fs s') =
    Inr (members (se_api E) (st_raft s'))"
proof -
  let ?es = "map config_entry (members (se_api E) (st_raft s))"
  have "list_all utf8_entry ?es"
    using assms(2) by (auto simp: list_all_iff utf8_config_entry)
  from json_okD(3) [OF assms(1) this] assms(3,4) show ?thesis
    by (auto simp: writeConfigEntries_def writePeersJSON_def WriteFile_def ReadPeersJSON_def ReadFile_def
        peers_file_ok_def members_def parse_config_entry comp_def)
qed

section \<open>Join and Remove\<close>

lemma walkRaftServers_ok:
  assumes "walkRaftServers api r fn x = (None, y)"
  shows "ra_GetConfiguration api r = (None, members api r) \<and> walk_loop fn (members api r) x = (None, y)"
  using assms by (auto simp: walkRaftServers_def members_def split: prod.splits option.splits)

lemma join_spec_ok: "config_ok srvs \<Longrightarrow> config_ok (join_spec nodeID addr srvs)"
  by (auto simp: config_ok_def join_spec_def conflicts_def distinct_map_filter)

lemma add_voter_clean:
  "add_voter nodeID addr (filter (\<lambda>srv. \<not> conflicts nodeID addr srv) srvs) = join_spec nodeID addr srvs"
  unfolding join_spec_def by (rule add_voter_new) (auto simp: conflicts_def)

lemma Join_cases:
  assumes "members_ok (se_api E)" "config_ok (members (se_api E) (st_raft s))"
    and "RaftStore_Join E nodeID addr s = (None, s')"
  shows "joined_in nodeID addr (members (se_api E) (st_raft s)) \<and> s' = s \<or>
    \<not> joined_in nodeID addr (members (se_api E) (st_raft s)) \<and>
    (\<exists>r err. members (se_api E) r = join_spec nodeID addr (members (se_api E) (st_raft s)) \<and>
       writeConfigEntries E (s\<lparr>st_raft := r\<rparr>) = (err, s'))"
proof -
  obtain joined r where walk:
    "walkRaftServers (se_api E) (st_raft s) (join_server (se_api E) nodeID addr) (False, st_raft s) = (None, joined, r)"
    using assms(3) by (auto simp: RaftStore_Join_def split: if_splits prod.splits option.splits bool.splits)
  note loop = conjunct2 [OF walkRaftServers_ok [OF walk]]
  show ?thesis
  proof (cases "joined_in nodeID addr (members (se_api E) (st_raft s))")
    case True
    from loop walk_join_already [OF True assms(2), of "se_api E" False "st_raft s"] have "joined" "r = st_raft s" by auto
    with walk assms(3) True show ?thesis by (auto simp: RaftStore_Join_def split: if_splits)
  next
    case False
    have d: "distinct (map srv_ID (members (se_api E) (st_raft s)))"
      using assms(2) by (simp add: config_ok_def)
    note w = walk_join [OF assms(1) loop False, unfolded filter_conflicts [OF d]]
    have "\<not> joined" "members (se_api E) r =
        filter (\<lambda>srv. \<not> conflicts nodeID addr srv) (members (se_api E) (st_raft s))"
      using w by blast+
    moreover from this walk assms(3) obtain r' where r': "ra_AddVoter (se_api E) nodeID addr r = (None, r')"
        "s' = snd (writeConfigEntries E (s\<lparr>st_raft := r'\<rparr>))"
      by (auto simp: RaftStore_Join_def split: if_splits prod.splits option.splits)
    ultimately have "members (se_api E) r' = join_spec nodeID addr (members (se_api E) (st_raft s))"
      by (simp only: members_ok_members(2) [OF assms(1) r'(1)] add_voter_clean)
    with False r' show ?thesis by (metis surjective_pairing)
  qed
qed

section \<open>Queries\<close>

lemma RaftState_String_nonempty [simp]: "RaftState_String x \<noteq> []"
  by (cases x) simp_all

lemma leader_walk:
  fixes leader :: string
  defines "fn \<equiv> \<lambda>srv peer.
     if leader \<noteq> srv_Address srv then (Inr True, peer)
     else (Inr False, \<lparr>peer_Address = srv_Address srv, peer_ID = srv_ID srv,
             peer_State = RaftState_String Leader, peer_Suffrage = []\<rparr>)"
  shows "walk_loop fn srvs p =
    (None, case find (\<lambda>srv. srv_Address srv = leader) srvs of
       None \<Rightarrow> p
     | Some srv \<Rightarrow> \<lparr>peer_Address = leader, peer_ID = srv_ID srv, peer_State = RaftState_String Leader,
                    peer_Suffrage = []\<rparr>)"
  by (induction srvs arbitrary: p) (auto simp: fn_def)

text \<open>The servers \<open>Cluster\<close> asks for their state: all but the leader and the node itself.\<close>

definition asks :: "('r, 'v) store_env \<Rightarrow> ('r, 'v, 'w) RaftStore \<Rightarrow> Server \<Rightarrow> bool" where
  "asks E s srv \<longleftrightarrow> srv_Address srv \<noteq> LeaderAddr E s \<and> srv_ID srv \<noteq> arg_NodeID (st_Arg s)"

definition lists_server :: "Server \<Rightarrow> Peer \<Rightarrow> bool" where
  "lists_server srv p \<longleftrightarrow> peer_ID p = srv_ID srv \<and> peer_Address p = srv_Address srv \<and>
     peer_Suffrage p = Suffrage_String (srv_Suffrage srv) \<and> peer_State p \<noteq> []"

lemma getNodeState_log [simp]:
  "http_log (snd (getNodeState js n w)) = http_log w @ [GET (URLRaftState n)]"
  by (simp add: getNodeState_def case_prod_beta)

lemma cluster_peer_step:
  "\<exists>p cl' w'. cluster_peer E s srv (cl, w) = (Inr True, cl', w') \<and> lists_server srv p \<and>
     rc_Servers cl' = rc_Servers cl @ [p] \<and>
     (srv_ID srv = arg_NodeID (st_Arg s) \<longrightarrow> peer_State p = NodeState E s \<and> rc_Current cl' = p) \<and>
     (srv_ID srv \<noteq> arg_NodeID (st_Arg s) \<longrightarrow> rc_Current cl' = rc_Current cl) \<and>
     http_log w' = http_log w @ (if asks E s srv then [GET (URLRaftState (srv_ID srv))] else [])"
proof -
  let ?p = "\<lambda>st. \<lparr>peer_Address = srv_Address srv, peer_ID = srv_ID srv, peer_State = st,
      peer_Suffrage = Suffrage_String (srv_Suffrage srv)\<rparr>"
  obtain r w' where g: "getNodeState (se_js E) (srv_ID srv) w = (r, w')" by fastforce
  then have log: "http_log w' = http_log w @ [GET (URLRaftState (srv_ID srv))]"
    using getNodeState_log [of "se_js E" "srv_ID srv" w] by simp
  have ns: "NodeState E s \<noteq> []" by (simp add: NodeState_def)
  consider (own) "arg_NodeID (st_Arg s) = srv_ID srv"
    | (leader) "arg_NodeID (st_Arg s) \<noteq> srv_ID srv" "LeaderAddr E s = srv_Address srv"
    | (other) "arg_NodeID (st_Arg s) \<noteq> srv_ID srv" "LeaderAddr E s \<noteq> srv_Address srv" by blast
  then show ?thesis
  proof cases
    case own
    then show ?thesis using ns
      by (intro exI [of _ "?p (NodeState E s)"])
        (simp add: cluster_peer_def Let_def case_prod_beta lists_server_def asks_def)
  next
    case leader
    then show ?thesis
      by (intro exI [of _ "?p ''Leader''"])
        (simp add: cluster_peer_def Let_def case_prod_beta lists_server_def asks_def)
  next
    case other
    then show ?thesis using g log
      by (intro exI [of _ "?p (if rsp_OK r \<and> rsp_Msg r \<noteq> [] then rsp_Msg r else ''Lost'')"])
        (auto simp: cluster_peer_def Let_def lists_server_def asks_def)
  qed
qed

lemma cluster_walk:
  "\<exists>cl' ps w'. walk_loop (cluster_peer E s) srvs (cl, w) = (None, cl', w') \<and>
     rc_Servers cl' = rc_Servers cl @ ps \<and> list_all2 lists_server srvs ps \<and>
     (arg_NodeID (st_Arg s) \<in> srv_ID ` set srvs \<longrightarrow> rc_Current cl' \<in> set ps \<and>
        peer_ID (rc_Current cl') = arg_NodeID (st_Arg s) \<and> peer_State (rc_Current cl') = NodeState E s) \<and>
     (arg_NodeID (st_Arg s) \<notin> srv_ID ` set srvs \<longrightarrow> rc_Current cl' = rc_Current cl) \<and>
     http_log w' = http_log w @ map (\<lambda>srv. GET (URLRaftState (srv_ID srv))) (filter (asks E s) srvs)"
proof (induction srvs arbitrary: cl w)
  case (Cons srv srvs)
  obtain p cl1 w1 where st: "cluster_peer E s srv (cl, w) = (Inr True, cl1, w1)" "lists_server srv p"
     "rc_Servers cl1 = rc_Servers cl @ [p]"
     "srv_ID srv = arg_NodeID (st_Arg s) \<longrightarrow> peer_State p = NodeState E s \<and> rc_Current cl1 = p"
     "srv_ID srv \<noteq> arg_NodeID (st_Arg s) \<longrightarrow> rc_Current cl1 = rc_Current cl"
     "http_log w1 = http_log w @ (if asks E s srv then [GET (URLRaftState (srv_ID srv))] else [])"
    using cluster_peer_step [of E s srv cl w] by blast
  obtain cl' ps w' where rest: "walk_loop (cluster_peer E s) srvs (cl1, w1) = (None, cl', w')"
     "rc_Servers cl' = rc_Servers cl1 @ ps" "list_all2 lists_server srvs ps"
     "arg_NodeID (st_Arg s) \<in> srv_ID ` set srvs \<longrightarrow> rc_Current cl' \<in> set ps \<and>
        peer_ID (rc_Current cl') = arg_NodeID (st_Arg s) \<and> peer_State (rc_Current cl') = NodeState E s"
     "arg_NodeID (st_Arg s) \<notin> srv_ID ` set srvs \<longrightarrow> rc_Current cl' = rc_Current cl1"
     "http_log w' = http_log w1 @ map (\<lambda>srv. GET (URLRaftState (srv_ID srv))) (filter (asks E s) srvs)"
    using Cons.IH [of cl1 w1] by blast
  show ?case
  proof (intro exI conjI)
    show "walk_loop (cluster_peer E s) (srv # srvs) (cl, w) = (None, cl', w')"
      using st(1) rest(1) by simp
    show "rc_Servers cl' = rc_Servers cl @ (p # ps)" using st(3) rest(2) by simp
    show "list_all2 lists_server (srv # srvs) (p # ps)" using st(2) rest(3) by simp
    show "arg_NodeID (st_Arg s) \<in> srv_ID ` set (srv # srvs) \<longrightarrow> rc_Current cl' \<in> set (p # ps) \<and>
        peer_ID (rc_Current cl') = arg_NodeID (st_Arg s) \<and> peer_State (rc_Current cl') = NodeState E s"
      using st(2,4) rest(4,5) by (cases "arg_NodeID (st_Arg s) \<in> srv_ID ` set srvs") (auto simp: lists_server_def)
    show "arg_NodeID (st_Arg s) \<notin> srv_ID ` set (srv # srvs) \<longrightarrow> rc_Current cl' = rc_Current cl"
      using st(5) rest(5) by auto
    show "http_log w' = http_log w @
        map (\<lambda>srv. GET (URLRaftState (srv_ID srv))) (filter (asks E s) (srv # srvs))"
      using st(6) rest(6) by simp
  qed
qed auto

section \<open>Properties\<close>

text \<open>
  C17. \<open>Join\<close> keeps the configuration clean: when the leader's \<open>Join\<close> succeeds, either the node was
  already a member with this ID and address, and nothing changed at all, or the servers that
  shared its ID or its address are gone, the node has been added as a voter at the end, and
  every other server is kept in its place. No two servers share an ID or an address
  afterwards, and the key-value map is untouched.
\<close>

theorem Join_members:
  assumes "members_ok (se_api E)" "config_ok (members (se_api E) (st_raft s))"
    and "RaftStore_Join E nodeID addr s = (None, s')"
  shows "(if joined_in nodeID addr (members (se_api E) (st_raft s)) then s' = s
      else members (se_api E) (st_raft s') = join_spec nodeID addr (members (se_api E) (st_raft s))) \<and>
    config_ok (members (se_api E) (st_raft s')) \<and> st_m s' = st_m s"
  using Join_cases [OF assms]
proof (elim disjE conjE exE)
  assume "joined_in nodeID addr (members (se_api E) (st_raft s))" "s' = s"
  with assms(2) show ?thesis by simp
next
  fix r err
  assume n: "\<not> joined_in nodeID addr (members (se_api E) (st_raft s))"
    and r: "members (se_api E) r = join_spec nodeID addr (members (se_api E) (st_raft s))"
    and w: "writeConfigEntries E (s\<lparr>st_raft := r\<rparr>) = (err, s')"
  have "st_raft s' = r" "st_m s' = st_m s"
    using same_core_writeConfigEntries [of "s\<lparr>st_raft := r\<rparr>" E] w by (auto simp: same_core_def)
  with n r join_spec_ok [OF assms(2)] show ?thesis by simp
qed

lemma demo_members [simp]: "members demo_api demo_raft0 = [demo_server]"
  by (simp add: members_def demo_defs)

lemma demo_store_ok:
  "config_ok [demo_server]" "utf8_server demo_server" "peers_file_ok demo_store"
  by (simp_all add: config_ok_def utf8_server_def byte_in_def peers_file_ok_def demo_store_def New_def
      demo_fs_def demo_server_def demo_ID_def)

abbreviation node2 :: NodeID where
  "node2 \<equiv> ''10.0.0.2:11000,10.0.0.2:12000''"

lemma demo_Join: "\<exists>s'. RaftStore_Join (demo_senv utc) node2 ''10.0.0.2:12000'' demo_store = (None, s')"
  by (simp add: RaftStore_Join_def walkRaftServers_def join_server_def demo_defs)

theorem Join_members_witness:
  "\<exists>s'. RaftStore_Join (demo_senv utc) node2 ''10.0.0.2:12000'' demo_store = (None, s') \<and>
     members demo_api (st_raft s') =
       [demo_server, \<lparr>srv_Suffrage = Voter, srv_ID = node2, srv_Address = ''10.0.0.2:12000''\<rparr>]"
proof -
  obtain s' where s': "RaftStore_Join (demo_senv utc) node2 ''10.0.0.2:12000'' demo_store = (None, s')"
    using demo_Join by blast
  from Join_members [OF _ _ s'] show ?thesis
    using s' demo_members_ok demo_store_ok
    by (auto simp: joined_in_def join_spec_def conflicts_def demo_server_def demo_ID_def)
qed

text \<open>
  C27. The peers file follows the configuration: after a \<open>Join\<close> that changed it, reading the file
  back gives exactly the servers Raft now has, IDs, addresses and voting rights included.
\<close>

theorem Join_saves_peers:
  assumes "json_ok (se_js E)" "members_ok (se_api E)" "config_ok (members (se_api E) (st_raft s))"
    and "peers_file_ok s" "list_all utf8_server (members (se_api E) (st_raft s))"
    and "valid_utf8 nodeID" "valid_utf8 addr"
    and "RaftStore_Join E nodeID addr s = (None, s')"
    and "\<not> joined_in nodeID addr (members (se_api E) (st_raft s))"
  shows "ReadPeersJSON (se_js E) (peers_path (st_Arg s')) (st_fs s') = Inr (members (se_api E) (st_raft s'))"
proof -
  obtain r err where r: "members (se_api E) r = join_spec nodeID addr (members (se_api E) (st_raft s))"
      "writeConfigEntries E (s\<lparr>st_raft := r\<rparr>) = (err, s')"
    using Join_cases [OF assms(2,3,8)] assms(9) by blast
  have "list_all utf8_server (members (se_api E) r)"
    using assms(5,6,7) unfolding r(1) by (auto simp: join_spec_def list_all_iff utf8_server_def)
  from writeConfigEntries_read [OF assms(1) _ _ r(2)] this assms(4) show ?thesis
    by (simp add: peers_file_ok_def)
qed

theorem Join_saves_peers_witness:
  "\<exists>s'. RaftStore_Join (demo_senv utc) node2 ''10.0.0.2:12000'' demo_store = (None, s') \<and>
     ReadPeersJSON demo_json (peers_path (st_Arg s')) (st_fs s') = Inr (members demo_api (st_raft s'))"
proof -
  obtain s' where s': "RaftStore_Join (demo_senv utc) node2 ''10.0.0.2:12000'' demo_store = (None, s')"
    using demo_Join by blast
  have "ReadPeersJSON (se_js (demo_senv utc)) (peers_path (st_Arg s')) (st_fs s') =
      Inr (members (se_api (demo_senv utc)) (st_raft s'))"
    by (rule Join_saves_peers [OF _ _ _ _ _ _ _ s'])
      (simp_all add: demo_json_ok demo_members_ok demo_store_ok joined_in_def byte_in_def,
        simp add: demo_server_def)
  with s' show ?thesis by auto
qed

text \<open>
  \<open>Remove\<close>: when the leader's \<open>Remove\<close> succeeds, exactly the server with that ID has left the
  configuration (there is none when it was no member), and the peers file read back gives the
  remaining servers.
\<close>

theorem Remove_members:
  assumes "json_ok (se_js E)" "members_ok (se_api E)" "peers_file_ok s"
    and "list_all utf8_server (members (se_api E) (st_raft s))" "Remove E nodeID s = (None, s')"
  shows "members (se_api E) (st_raft s') = filter (\<lambda>srv. srv_ID srv \<noteq> nodeID) (members (se_api E) (st_raft s)) \<and>
    ReadPeersJSON (se_js E) (peers_path (st_Arg s')) (st_fs s') = Inr (members (se_api E) (st_raft s')) \<and>
    st_m s' = st_m s"
proof -
  obtain r where r: "ra_RemoveServer (se_api E) nodeID (st_raft s) = (None, r)"
      "s' = snd (writeConfigEntries E (s\<lparr>st_raft := r\<rparr>))"
    using assms(5) by (auto simp: Remove_def split: if_splits prod.splits option.splits)
  note mem = members_ok_members(1) [OF assms(2) r(1)]
  have core: "st_raft s' = r" "st_m s' = st_m s"
    using same_core_writeConfigEntries [of "s\<lparr>st_raft := r\<rparr>" E] r(2) by (auto simp: same_core_def)
  obtain err where w: "writeConfigEntries E (s\<lparr>st_raft := r\<rparr>) = (err, s')"
    using r(2) by (metis surjective_pairing)
  have "list_all utf8_server (members (se_api E) r)"
    using assms(4) by (auto simp: mem list_all_iff)
  from writeConfigEntries_read [OF assms(1) _ _ w] this assms(3) core mem show ?thesis
    by (simp add: peers_file_ok_def)
qed

theorem Remove_members_witness:
  "\<exists>s'. Remove (demo_senv utc) demo_ID demo_store = (None, s') \<and> members demo_api (st_raft s') = []"
proof -
  obtain s' where s': "Remove (demo_senv utc) demo_ID demo_store = (None, s')"
    by (simp add: Remove_def demo_defs)
  from Remove_members [OF _ _ _ _ s'] show ?thesis
    using s' by (auto simp: demo_json_ok demo_members_ok demo_store_ok) (simp add: demo_server_def)
qed

text \<open>
  \<open>LeadServer\<close> names the server of the configuration that has the leader's address, as leader;
  it reports an error when there is no leader, when the configuration cannot be read, or when
  no server has that address.
\<close>

theorem LeadServer_finds:
  "LeadServer E s =
     (if LeaderAddr E s = [] then (zero_Peer, Some (Err ''leader NA''))
      else case ra_GetConfiguration (se_api E) (st_raft s) of
        (Some err, _) \<Rightarrow> (zero_Peer, Some (ErrWrap ''failed to get raft configuration: '' err))
      | (None, srvs) \<Rightarrow>
          (case find (\<lambda>srv. srv_Address srv = LeaderAddr E s) srvs of
             None \<Rightarrow> (zero_Peer, Some (Err ''leader NA''))
           | Some srv \<Rightarrow>
               (\<lparr>peer_Address = LeaderAddr E s, peer_ID = srv_ID srv, peer_State = ''Leader'', peer_Suffrage = []\<rparr>,
                if srv_ID srv = [] then Some (Err ''leader NA'') else None)))"
  by (auto simp: LeadServer_def Let_def walkRaftServers_def leader_walk zero_Peer_def
      split: prod.splits option.splits)

text \<open>
  \<open>Cluster\<close> reports every server of the configuration, in order, with its ID, address and
  voting right and a state that is never empty; its own entry carries its own state. It asks,
  once each and in order, exactly the servers that are neither the leader nor the node
  itself, and changes nothing else.
\<close>

theorem Cluster_reports:
  assumes "ra_GetConfiguration (se_api E) (st_raft s) = (None, srvs)"
  shows "\<exists>cl s'. Cluster E s = ((cl, None), s') \<and> list_all2 lists_server srvs (rc_Servers cl) \<and>
    (arg_NodeID (st_Arg s) \<in> srv_ID ` set srvs \<longrightarrow> rc_Current cl \<in> set (rc_Servers cl) \<and>
       peer_ID (rc_Current cl) = arg_NodeID (st_Arg s) \<and> peer_State (rc_Current cl) = NodeState E s) \<and>
    http_log (st_net s') = http_log (st_net s) @
      map (\<lambda>srv. GET (URLRaftState (srv_ID srv))) (filter (asks E s) srvs) \<and>
    s' = s\<lparr>st_net := st_net s'\<rparr>"
  using cluster_walk [of E s srvs zero_RaftCluster "st_net s"] assms
  by (auto simp: Cluster_def walkRaftServers_def zero_RaftCluster_def)

theorem Cluster_reports_witness:
  "\<exists>cl s'. Cluster (demo_senv utc) demo_store = ((cl, None), s') \<and>
     list_all2 lists_server [demo_server] (rc_Servers cl) \<and> http_log (st_net s') = []"
proof -
  have "ra_GetConfiguration (se_api (demo_senv utc)) (st_raft demo_store) = (None, [demo_server])"
    by (simp add: demo_defs)
  from Cluster_reports [OF this] show ?thesis
    by (auto simp: asks_def LeaderAddr_def demo_defs)
qed

end
