(* ===== verification/Store_Open.thy ===== *)
theory Store_Open
  imports Raft_Instance
begin

text \<open>
  Opening a store (\<open>Open\<close>, \<open>createStores\<close>, \<open>createTransport\<close> of \<open>store.go\<close>) and the two waits
  (\<open>WaitForLeader\<close>, \<open>WaitForApplied\<close>). The constructors of Raft and its stores are the parameter
  \<open>open_env\<close>. A wait is a loop over a ticker and a timer: the argument is the sequence of
  their events, each tick with the state Raft is in at that moment; the result is \<^term>\<open>None\<close>
  while the loop has not returned.
\<close>

section \<open>Opening\<close>

datatype stores = InmemStores | FileStores string string

record raft_config =
  cf_SnapshotInterval :: nat
  cf_SnapshotThreshold :: nat
  cf_TrailingLogs :: nat
  cf_LocalID :: string

text \<open>
  \<open>oe_NewRaft\<close> is given the configuration, the state machine's \<open>Restore\<close> with its map (a stored
  snapshot is restored while Raft starts), the stores and the transport.
\<close>

record 'r open_env =
  oe_NewBoltStore :: "string \<Rightarrow> go_error option"
  oe_NewFileSnapshotStore :: "string \<Rightarrow> nat \<Rightarrow> go_error option"
  oe_ResolveTCPAddr :: "string \<Rightarrow> go_error + string"
  oe_NewTCPTransport :: "string \<Rightarrow> string \<Rightarrow> go_error + string"
  oe_NewRaft :: "raft_config \<Rightarrow>
    (string \<Rightarrow> (string \<rightharpoonup> string) \<Rightarrow> go_error option \<times> (string \<rightharpoonup> string)) \<Rightarrow> (string \<rightharpoonup> string) \<Rightarrow>
    stores \<Rightarrow> string \<Rightarrow> (go_error + 'r) \<times> (string \<rightharpoonup> string)"
  oe_BootstrapCluster :: "Server list \<Rightarrow> 'r \<Rightarrow> 'r"

definition retainSnapshotCount :: nat where
  "retainSnapshotCount = 2"

definition createStores :: "'r open_env \<Rightarrow> ('v, 'w) Arg \<Rightarrow> go_error + stores" where
  "createStores oe a =
     (if arg_InMem a then Inr InmemStores
      else
        let db = filepath_Join [arg_RaftNodeDir a, ''raft.db''] in
        (case oe_NewBoltStore oe db of
           Some err \<Rightarrow> Inl (Err (''new bolt store: '' @ err_Error err))
         | None \<Rightarrow>
             (case oe_NewFileSnapshotStore oe (arg_RaftNodeDir a) retainSnapshotCount of
                Some err \<Rightarrow> Inl (Err (''file snapshot store: '' @ err_Error err))
              | None \<Rightarrow> Inr (FileStores db (arg_RaftNodeDir a)))))"

definition createTransport :: "'r open_env \<Rightarrow> ('v, 'w) Arg \<Rightarrow> go_error + string" where
  "createTransport oe a =
     (case oe_ResolveTCPAddr oe (arg_RaftAddr a) of
        Inl err \<Rightarrow> Inl err
      | Inr addr \<Rightarrow> oe_NewTCPTransport oe (arg_RaftAddr a) addr)"

definition raft_conf :: "('v, 'w) Arg \<Rightarrow> raft_config" where
  "raft_conf a = \<lparr>cf_SnapshotInterval = 30000000000, cf_SnapshotThreshold = 0, cf_TrailingLogs = 0,
     cf_LocalID = arg_NodeID a\<rparr>"

definition Open ::
    "('r, 'v) store_env \<Rightarrow> 'r open_env \<Rightarrow> ('r, 'v, 'w) RaftStore \<Rightarrow>
     go_error option \<times> ('r, 'v, 'w) RaftStore" where
  "Open E oe s0 =
     (let a = (st_Arg s0)\<lparr>arg_LoggerSet := True\<rparr>; s = s0\<lparr>st_Arg := a\<rparr>;
          peerFile = peers_path a;
          peerFileExits = (\<not> arg_InMem a \<and> PathExists peerFile (st_fs s))
      in case createStores oe a of
           Inl err \<Rightarrow> (Some err, s)
         | Inr sts \<Rightarrow>
             (case createTransport oe a of
                Inl err \<Rightarrow> (Some err, s)
              | Inr t \<Rightarrow>
                  (case oe_NewRaft oe (raft_conf a) (restore_map (se_js E)) (st_m s) sts t of
                     (Inl err, m) \<Rightarrow> (Some (Err (''new raft: '' @ err_Error err)), s\<lparr>st_m := m\<rparr>)
                   | (Inr r, m) \<Rightarrow>
                       let r = (if arg_Bootstrap a \<and> \<not> peerFileExits
                                then oe_BootstrapCluster oe
                                       [\<lparr>srv_Suffrage = Voter, srv_ID = arg_NodeID a, srv_Address = t\<rparr>] r
                                else r);
                           s = s\<lparr>st_m := m, st_raft := r\<rparr>
                       in if peerFileExits then recoverJoin (se_js E) peerFile s else (None, s))))"

section \<open>Waiting\<close>

datatype 'r wait_event = Tick 'r | Expired

fun WaitForAppliedIndex :: "'r raft_api \<Rightarrow> nat \<Rightarrow> 'r wait_event list \<Rightarrow> go_error option option" where
  "WaitForAppliedIndex api idx [] = None"
| "WaitForAppliedIndex api idx (Tick r # evs) =
     (if ra_AppliedIndex api r \<ge> idx then Some None else WaitForAppliedIndex api idx evs)"
| "WaitForAppliedIndex api idx (Expired # evs) = Some (Some (Err ''timeout expired''))"

definition WaitForApplied ::
    "('r, 'v) store_env \<Rightarrow> int \<Rightarrow> 'r wait_event list \<Rightarrow> ('r, 'v, 'w) RaftStore \<Rightarrow> go_error option option" where
  "WaitForApplied E timeout evs s =
     (if timeout = 0 then Some None
      else
        (case WaitForAppliedIndex (se_api E) (ra_LastIndex (se_api E) (st_raft s)) evs of
           None \<Rightarrow> None
         | Some (Some err) \<Rightarrow> Some (Some ErrOpenTimeout)
         | Some None \<Rightarrow> Some None))"

fun WaitForLeader ::
    "('r, 'v) store_env \<Rightarrow> 'r wait_event list \<Rightarrow> ('r, 'v, 'w) RaftStore \<Rightarrow>
     (string \<times> go_error option) option \<times> ('r, 'v, 'w) RaftStore" where
  "WaitForLeader E [] s = (None, s)"
| "WaitForLeader E (Tick r # evs) s =
     (let s = s\<lparr>st_raft := r\<rparr>; l = LeaderAddr E s in
      if l \<noteq> [] then (Some (l, None), s)
      else WaitForLeader E evs (joinNodesFromLeader E s))"
| "WaitForLeader E (Expired # evs) s = (Some ([], Some (Err ''WaitForLeader timeout expired'')), s)"

section \<open>Properties\<close>

text \<open>The ticks before the timer expires.\<close>

fun ticks :: "'r wait_event list \<Rightarrow> 'r list" where
  "ticks (Tick r # evs) = r # ticks evs"
| "ticks _ = []"

lemma WaitForAppliedIndex_eq:
  "WaitForAppliedIndex api idx evs =
     (if \<exists>r \<in> set (ticks evs). idx \<le> ra_AppliedIndex api r then Some None
      else if Expired \<in> set evs then Some (Some (Err ''timeout expired'')) else None)"
  by (induction api idx evs rule: WaitForAppliedIndex.induct) auto

text \<open>
  \<open>WaitForApplied\<close> returns whenever its timer expires, whatever the ticks show: without an error
  if at some tick before that Raft had applied the index that was its last one when the wait
  began, with \<open>ErrOpenTimeout\<close> otherwise. It returns at once for the timeout 0.
\<close>

theorem WaitForApplied_returns:
  "WaitForApplied E 0 evs s = Some None \<and>
   (timeout \<noteq> 0 \<longrightarrow> Expired \<in> set evs \<longrightarrow>
      WaitForApplied E timeout evs s =
        Some (if \<exists>r \<in> set (ticks evs). ra_LastIndex (se_api E) (st_raft s) \<le> ra_AppliedIndex (se_api E) r
              then None else Some ErrOpenTimeout))"
  by (simp add: WaitForApplied_def WaitForAppliedIndex_eq)

theorem WaitForApplied_returns_witness:
  "WaitForApplied (demo_senv utc) 100 [Tick demo_raft0, Expired] demo_store = Some None \<and>
   WaitForApplied (demo_senv utc) 100 [Expired, Tick demo_raft0] demo_store = Some (Some ErrOpenTimeout)"
  using WaitForApplied_returns [of "demo_senv utc" "[Tick demo_raft0, Expired]" demo_store 100]
    WaitForApplied_returns [of "demo_senv utc" "[Expired, Tick demo_raft0]" demo_store 100]
  by (simp add: demo_api_def)

lemma same_core_Cluster: "same_core s (snd (Cluster E s))"
  by (simp add: Cluster_def case_prod_beta)

lemma same_core_joinNodes: "same_core s (joinNodesFromLeader E s)"
proof -
  obtain cl err s' where c: "Cluster E s = ((cl, err), s')" by (metis surjective_pairing)
  then have "same_core s s'" using same_core_Cluster [of s E] by simp
  with c show ?thesis
    by (cases err) (auto simp: joinNodesFromLeader_def intro: same_core_trans [OF _ same_core_tryFind])
qed

text \<open>
  C33. \<open>WaitForLeader\<close> returns whenever its timer expires: with the address of the leader if some
  tick before that saw one (the first such tick counts), with an error otherwise. However
  often it tries to join a cluster in between, it never touches the key-value map or the
  parameters.
\<close>

theorem WaitForLeader_returns:
  assumes "Expired \<in> set evs"
  shows "\<exists>s'. WaitForLeader E evs s =
      (Some (case find (\<lambda>r. ra_Leader (se_api E) r \<noteq> []) (ticks evs) of
         Some r \<Rightarrow> (ra_Leader (se_api E) r, None)
       | None \<Rightarrow> ([], Some (Err ''WaitForLeader timeout expired''))), s') \<and>
    st_m s' = st_m s \<and> st_Arg s' = st_Arg s"
  using assms
proof (induction E evs s rule: WaitForLeader.induct)
  case (2 E r evs s)
  have j: "same_core (s\<lparr>st_raft := r\<rparr>) (joinNodesFromLeader E (s\<lparr>st_raft := r\<rparr>))"
    by (rule same_core_joinNodes)
  show ?case
  proof (cases "ra_Leader (se_api E) r = []")
    case True
    with 2 j show ?thesis by (auto simp: LeaderAddr_def same_core_def)
  qed (simp add: LeaderAddr_def)
qed auto

theorem WaitForLeader_returns_witness:
  "\<exists>s'. WaitForLeader (demo_senv utc) [Tick (demo_raft0\<lparr>dr_Leader := []\<rparr>), Tick demo_raft0, Expired] demo_store =
     (Some (''10.0.0.1:12000'', None), s')"
  using WaitForLeader_returns [of "[Tick (demo_raft0\<lparr>dr_Leader := []\<rparr>), Tick demo_raft0, Expired]"
      "demo_senv utc" demo_store]
  by (auto simp: demo_api_def demo_raft0_def)

text \<open>
  C32. When a store opens without an error, a new cluster with this node as its only server has
  been bootstrapped exactly if the node is the bootstrap node and has no peers file from an
  earlier run (an in-memory node never has one). Without a peers file no request is sent; with
  one the node keeps Raft's own state and only tries to join again. The map is the one Raft
  restored from its last snapshot.
\<close>

theorem Open_bootstraps:
  fixes s :: "('r, 'v, 'w) RaftStore"
  defines "a \<equiv> (st_Arg s)\<lparr>arg_LoggerSet := True\<rparr>"
  defines "recovering \<equiv> \<not> arg_InMem a \<and> PathExists (peers_path a) (st_fs s)"
  assumes "createStores oe a = Inr sts" "createTransport oe a = Inr t"
    and "oe_NewRaft oe (raft_conf a) (restore_map (se_js E)) (st_m s) sts t = (Inr r, m)"
    and "Open E oe s = (None, s')"
  shows "st_raft s' = (if arg_Bootstrap a \<and> \<not> recovering
      then oe_BootstrapCluster oe [\<lparr>srv_Suffrage = Voter, srv_ID = arg_NodeID a, srv_Address = t\<rparr>] r else r) \<and>
    (\<not> recovering \<longrightarrow> st_net s' = st_net s) \<and> st_m s' = m \<and> st_fs s' = st_fs s"
  using assms(3-)
  by (auto simp: Open_def a_def recovering_def Let_def recoverJoin_def tryJoinLeader_def
      split: if_splits sum.splits prod.splits)

definition demo_oe :: "demo_raft open_env" where
  "demo_oe = \<lparr>oe_NewBoltStore = (\<lambda>_. None), oe_NewFileSnapshotStore = (\<lambda>_ _. None),
     oe_ResolveTCPAddr = Inr, oe_NewTCPTransport = (\<lambda>_ a. Inr a),
     oe_NewRaft = (\<lambda>_ _ m _ _. (Inr (demo_raft0\<lparr>dr_servers := []\<rparr>), m)),
     oe_BootstrapCluster = (\<lambda>srvs r. r\<lparr>dr_servers := srvs\<rparr>)\<rparr>"

theorem Open_bootstraps_witness:
  "\<exists>s'. Open (demo_senv utc) demo_oe (demo_store\<lparr>st_Arg := demo_sarg\<lparr>arg_Bootstrap := True, arg_InMem := True\<rparr>\<rparr>) =
     (None, s') \<and> dr_servers (st_raft s') = [demo_server]"
proof -
  let ?s = "demo_store\<lparr>st_Arg := demo_sarg\<lparr>arg_Bootstrap := True, arg_InMem := True\<rparr>\<rparr>"
  obtain s' where s': "Open (demo_senv utc) demo_oe ?s = (None, s')"
    by (simp add: Open_def Let_def createStores_def createTransport_def demo_oe_def)
  have "st_raft s' = oe_BootstrapCluster demo_oe [demo_server] (demo_raft0\<lparr>dr_servers := []\<rparr>)"
    using Open_bootstraps [of demo_oe ?s InmemStores "''10.0.0.1:12000''" "demo_senv utc"
        "demo_raft0\<lparr>dr_servers := []\<rparr>" "st_m demo_store" s'] s'
    by (simp add: createStores_def createTransport_def demo_oe_def demo_sarg_def demo_server_def MakeArg_def)
  with s' show ?thesis by (auto simp: demo_oe_def)
qed

end
