(* ===== verification/Service.thy ===== *)
theory Service
  imports Store_Interface Store_Members
begin

text \<open>
  The HTTP service: \<open>service.go\<close>, \<open>service_key.go\<close>, \<open>service_raft.go\<close>, \<open>proxy.go\<close> and the job
  handler of \<open>job.go\<close>. A handler takes the request and the pair of the service and the response
  writer; it returns (with the error of the Go function, if it has one) or panics.

  Parameters: the encoders of the answers, the profiler of the Go library, what the
  leader answers to a forwarded request, and the order in which a decoded map is ranged over.
  The clock is the argument \<open>clk\<close>: \<open>clk k\<close> is its reading when the key \<open>k\<close> is written.
\<close>

section \<open>Requests and responses\<close>

text \<open>
  \<open>rq_Target\<close> is the request target as it was sent, which is what \<open>r.URL.String()\<close> gives for a
  request the server has parsed (path and query); \<open>rq_Scheme\<close> and \<open>rq_URLHost\<close> are empty there.
  Go compares header names in a canonical spelling; \<open>rq_Header\<close> is indexed by the names as the
  code writes them, which name different headers.
\<close>

record http_request =
  rq_Method :: string
  rq_Scheme :: string
  rq_URLHost :: string
  rq_Path :: string
  rq_Target :: string
  rq_RemoteAddr :: string
  rq_Host :: string
  rq_Header :: "string \<Rightarrow> string list"
  rq_Body :: string
  rq_BodyErr :: "go_error option"

definition Header_Get :: "string \<Rightarrow> http_request \<Rightarrow> string" where
  "Header_Get k rq = (case rq_Header rq k of [] \<Rightarrow> [] | v # _ \<Rightarrow> v)"

definition Header_Set :: "string \<Rightarrow> string \<Rightarrow> http_request \<Rightarrow> http_request" where
  "Header_Set k v rq = rq\<lparr>rq_Header := (rq_Header rq)(k := [v])\<rparr>"

definition Header_Add :: "string \<Rightarrow> string \<Rightarrow> http_request \<Rightarrow> http_request" where
  "Header_Add k v rq = rq\<lparr>rq_Header := (rq_Header rq)(k := rq_Header rq k @ [v])\<rparr>"

definition read_body :: "http_request \<Rightarrow> go_error + string" where
  "read_body rq = (case rq_BodyErr rq of Some err \<Rightarrow> Inl err | None \<Rightarrow> Inr (rq_Body rq))"

text \<open>The response writer: the first status counts, and a write without one sends 200.\<close>

record response =
  rs_Status :: "nat option"
  rs_Type :: string
  rs_Body :: string

definition new_response :: response where
  "new_response = \<lparr>rs_Status = None, rs_Type = [], rs_Body = []\<rparr>"

definition status_of :: "response \<Rightarrow> nat" where
  "status_of w = (case rs_Status w of None \<Rightarrow> 200 | Some c \<Rightarrow> c)"

definition WriteHeader :: "nat \<Rightarrow> response \<Rightarrow> response" where
  "WriteHeader c w = w\<lparr>rs_Status := Some (case rs_Status w of None \<Rightarrow> c | Some c' \<Rightarrow> c')\<rparr>"

definition Write :: "string \<Rightarrow> response \<Rightarrow> response" where
  "Write b w = w\<lparr>rs_Status := Some (status_of w), rs_Body := rs_Body w @ b\<rparr>"

definition WriteAsText :: "string \<Rightarrow> response \<Rightarrow> response" where
  "WriteAsText s w = Write s (w\<lparr>rs_Type := ''text/plain; charset=utf-8''\<rparr>)"

definition WriteAsJSON :: "string \<Rightarrow> response \<Rightarrow> response" where
  "WriteAsJSON j w = Write j (w\<lparr>rs_Type := ''application/json; charset=utf-8''\<rparr>)"

section \<open>The service\<close>

record ('r, 'v, 'w) Service =
  sv_Store :: "('r, 'v, 'w) RaftStore"
  sv_DealerMap :: "('v, 'w) DealerMap"
  sv_out :: "http_request list"

text \<open>\<open>sv_out\<close> records the requests forwarded to the leader.\<close>

record node_info =
  ni_StartTime :: string
  ni_NodeID :: string
  ni_Hostname :: string
  ni_IP :: string

text \<open>\<open>TryParseJSON\<close>: a parsed JSON value, or the text itself.\<close>

datatype 'j any_json = JText string | JVal 'j

definition TryParseJSON :: "(string \<Rightarrow> go_error + 'j) \<Rightarrow> string \<Rightarrow> 'j any_json" where
  "TryParseJSON parse v = (case parse v of Inr jv \<Rightarrow> JVal jv | Inl _ \<Rightarrow> JText v)"

record ('w, 'j) svc_env =
  sv_parse :: "string \<Rightarrow> go_error + 'j"
  sv_kv :: "string \<Rightarrow> 'j any_json \<Rightarrow> string"
  sv_stats :: "(string \<times> stat_value) list \<Rightarrow> string"
  sv_node :: "node_info \<Rightarrow> string"
  sv_job :: "'w option \<Rightarrow> string"
  sv_ReadBytes :: "http_request \<Rightarrow> string"
  sv_pprof :: "string \<Rightarrow> http_request \<Rightarrow> response \<Rightarrow> response"
  sv_backend :: "http_request \<Rightarrow> response \<Rightarrow> response"
  sv_order :: "(string \<rightharpoonup> string) \<Rightarrow> string list"
  sv_startup :: int
  sv_hostname :: string
  sv_mainIP :: string

type_synonym ('r, 'v, 'w) conn = "('r, 'v, 'w) Service \<times> response"
type_synonym ('r, 'v, 'w) ServeHTTPFn =
  "http_request \<Rightarrow> ('r, 'v, 'w) conn \<Rightarrow> unit outcome \<times> ('r, 'v, 'w) conn"
type_synonym ('r, 'v, 'w) ServeHTTPFnE =
  "http_request \<Rightarrow> ('r, 'v, 'w) conn \<Rightarrow> go_error option outcome \<times> ('r, 'v, 'w) conn"

definition reply :: "('r, 'v, 'w) Service \<Rightarrow> response \<Rightarrow> unit outcome \<times> ('r, 'v, 'w) conn" where
  "reply s w = (Ret (), s, w)"

definition rsp_msg :: "bool \<Rightarrow> string \<Rightarrow> string Rsp" where
  "rsp_msg ok msg = \<lparr>rsp_OK = ok, rsp_Msg = msg, rsp_Data = None\<rparr>"

definition CheckMethod :: "string \<Rightarrow> ('r, 'v, 'w) ServeHTTPFn \<Rightarrow> ('r, 'v, 'w) ServeHTTPFn" where
  "CheckMethod m f rq c =
     (if rq_Method rq = m then f rq c else reply (fst c) (WriteHeader 405 (snd c)))"

text \<open>The end of \<open>CheckMethodE\<close> and of \<open>tryForwardToLeader\<close>: an error is written as JSON.\<close>

definition report ::
    "json_lib \<Rightarrow> go_error option outcome \<times> ('r, 'v, 'w) conn \<Rightarrow> unit outcome \<times> ('r, 'v, 'w) conn" where
  "report js res =
     (case res of
        (Panic e, c) \<Rightarrow> (Panic e, c)
      | (Ret None, c) \<Rightarrow> (Ret (), c)
      | (Ret (Some err), s, w) \<Rightarrow> reply s (WriteAsJSON (js_rsp js (rsp_msg False (err_Error err))) w))"

definition CheckMethodE ::
    "json_lib \<Rightarrow> string \<Rightarrow> ('r, 'v, 'w) ServeHTTPFnE \<Rightarrow> ('r, 'v, 'w) ServeHTTPFn" where
  "CheckMethodE js m f rq c =
     (if rq_Method rq \<noteq> m then reply (fst c) (WriteHeader 405 (snd c)) else report js (f rq c))"

section \<open>Forwarding to the leader\<close>

definition XOriginRemoteAddr :: string where
  "XOriginRemoteAddr = ''X-Origin-RemoteAddr''"

text \<open>The director of \<open>ReverseProxy\<close>: the request as it goes to the target.\<close>

definition director :: "string \<Rightarrow> string \<Rightarrow> http_request \<Rightarrow> http_request" where
  "director targetHost targetPath rq =
     (let rq = rq\<lparr>rq_Scheme := ''http'', rq_URLHost := targetHost, rq_Path := targetPath\<rparr>;
          rq = Header_Set XOriginRemoteAddr (rq_RemoteAddr rq) rq;
          rq = Header_Add ''X-Forwarded-Host'' (rq_Host rq) rq
      in Header_Add ''X-Origin-Host'' (Header_Get ''Host'' rq) rq)"

definition ReverseProxy ::
    "('w, 'j) svc_env \<Rightarrow> string \<Rightarrow> string \<Rightarrow> http_request \<Rightarrow> ('r, 'v, 'w) conn \<Rightarrow> ('r, 'v, 'w) conn" where
  "ReverseProxy V targetHost targetPath rq c =
     (let out = director targetHost targetPath rq in
      ((fst c)\<lparr>sv_out := sv_out (fst c) @ [out]\<rparr>, sv_backend V out (snd c)))"

definition forwardToLeader ::
    "('r, 'v) store_env \<Rightarrow> ('w, 'j) svc_env \<Rightarrow> ('r, 'v, 'w) ServeHTTPFnE" where
  "forwardToLeader E V rq c =
     (case LeadServer E (sv_Store (fst c)) of
        (leader, Some err) \<Rightarrow> (Ret (Some err), c)
      | (leader, None) \<Rightarrow>
          let addr = NodeID_HTTPAddr (peer_ID leader) in
          if addr = [] then (Ret (Some (Err ''failed to get raft leader'')), c)
          else if Header_Get XOriginRemoteAddr rq \<noteq> []
          then (Ret (Some (Err ''forward two times not allowed'')), c)
          else (Ret None, ReverseProxy V addr (rq_Path rq) rq c))"

definition tryForwardToLeaderFn ::
    "('r, 'v) store_env \<Rightarrow> ('w, 'j) svc_env \<Rightarrow> ('r, 'v, 'w) ServeHTTPFnE \<Rightarrow> ('r, 'v, 'w) ServeHTTPFnE" where
  "tryForwardToLeaderFn E V f rq c =
     (if IsLeader E (sv_Store (fst c)) then f rq c else forwardToLeader E V rq c)"

definition tryForwardToLeader ::
    "('r, 'v) store_env \<Rightarrow> ('w, 'j) svc_env \<Rightarrow> ('r, 'v, 'w) ServeHTTPFn \<Rightarrow> ('r, 'v, 'w) ServeHTTPFn" where
  "tryForwardToLeader E V f rq c =
     (if IsLeader E (sv_Store (fst c)) then f rq c
      else report (se_js E) (forwardToLeader E V rq c))"

definition IsRelativeForward :: "nat \<Rightarrow> string \<Rightarrow> bool" where
  "IsRelativeForward statusCode locationHeader =
     (if statusCode \<noteq> 301 \<and> statusCode \<noteq> 302 then False
      else \<not> list_ex (str_HasPrefix locationHeader) [''http://'', ''https://''])"

section \<open>Keys\<close>

definition getKey :: "http_request \<Rightarrow> response \<Rightarrow> (string \<times> bool) \<times> response" where
  "getKey rq w =
     (let key = str_TrimPrefix (str_TrimPrefix (rq_Path rq) KeyPath) ''/'' in
      if key \<noteq> [] then ((key, True), w) else (([], False), WriteHeader 400 w))"

fun post_loop ::
    "('r, 'v) store_env \<Rightarrow> (string \<Rightarrow> int) \<Rightarrow> (string \<rightharpoonup> string) \<Rightarrow> string list \<Rightarrow>
     ('r, 'v, 'w) conn \<Rightarrow> unit outcome \<times> ('r, 'v, 'w) conn" where
  "post_loop E clk m [] c = (Ret (), c)"
| "post_loop E clk m (k # ks) c =
     (case Set E (clk k) k (the (m k)) (sv_Store (fst c)) of
        (Panic e, st) \<Rightarrow> (Panic e, (fst c)\<lparr>sv_Store := st\<rparr>, snd c)
      | (Ret (Some err), st) \<Rightarrow> reply ((fst c)\<lparr>sv_Store := st\<rparr>) (WriteHeader 500 (snd c))
      | (Ret None, st) \<Rightarrow> post_loop E clk m ks ((fst c)\<lparr>sv_Store := st\<rparr>, snd c))"

definition doKeyPost ::
    "('r, 'v) store_env \<Rightarrow> ('w, 'j) svc_env \<Rightarrow> (string \<Rightarrow> int) \<Rightarrow> ('r, 'v, 'w) ServeHTTPFn" where
  "doKeyPost E V clk rq c =
     (case read_body rq of
        Inl err \<Rightarrow> reply (fst c) (WriteHeader 400 (snd c))
      | Inr body \<Rightarrow>
          (case js_unmap (se_js E) body of
             Inl err \<Rightarrow> reply (fst c) (WriteHeader 400 (snd c))
           | Inr m \<Rightarrow> post_loop E clk m (sv_order V m) c))"

definition doKeyDelete ::
    "('r, 'v) store_env \<Rightarrow> (string \<Rightarrow> int) \<Rightarrow> string \<Rightarrow> ('r, 'v, 'w) ServeHTTPFn" where
  "doKeyDelete E clk key rq c =
     (case Delete E (clk key) key (sv_Store (fst c)) of
        (Panic e, st) \<Rightarrow> (Panic e, (fst c)\<lparr>sv_Store := st\<rparr>, snd c)
      | (Ret (Some err), st) \<Rightarrow> reply ((fst c)\<lparr>sv_Store := st\<rparr>) (WriteHeader 500 (snd c))
      | (Ret None, st) \<Rightarrow> reply ((fst c)\<lparr>sv_Store := st\<rparr>) (snd c))"

definition handleKeyRequest ::
    "('r, 'v) store_env \<Rightarrow> ('w, 'j) svc_env \<Rightarrow> (string \<Rightarrow> int) \<Rightarrow> ('r, 'v, 'w) ServeHTTPFn" where
  "handleKeyRequest E V clk rq c =
     (if rq_Method rq = ''GET'' then
        (case getKey rq (snd c) of
           ((key, False), w) \<Rightarrow> reply (fst c) w
         | ((key, True), w) \<Rightarrow>
             (case Get key (sv_Store (fst c)) of
                Some v \<Rightarrow> reply (fst c) (WriteAsJSON (sv_kv V key (TryParseJSON (sv_parse V) v)) w)
              | None \<Rightarrow> reply (fst c) (WriteHeader 404 w)))
      else if rq_Method rq = ''POST'' then tryForwardToLeader E V (doKeyPost E V clk) rq c
      else if rq_Method rq = ''DELETE'' then
        (case getKey rq (snd c) of
           ((key, False), w) \<Rightarrow> reply (fst c) w
         | ((key, True), w) \<Rightarrow> tryForwardToLeader E V (doKeyDelete E clk key) rq (fst c, w))
      else reply (fst c) (WriteHeader 405 (snd c)))"

section \<open>Raft requests\<close>

definition saveCluster ::
    "('r, 'v) store_env \<Rightarrow> (string \<Rightarrow> int) \<Rightarrow> ('r, 'v, 'w) RaftStore \<Rightarrow>
     unit outcome \<times> ('r, 'v, 'w) RaftStore" where
  "saveCluster E clk s =
     (case Cluster E s of
        ((cluster, Some err), s1) \<Rightarrow> (Ret (), s1)
      | ((cluster, None), s1) \<Rightarrow>
          (case Set E (clk ''raft/cluster'') ''raft/cluster'' (js_cluster (se_js E) cluster) s1 of
             (Panic e, s2) \<Rightarrow> (Panic e, s2)
           | (Ret _, s2) \<Rightarrow> (Ret (), s2)))"

definition handleJoin ::
    "('r, 'v) store_env \<Rightarrow> (string \<Rightarrow> int) \<Rightarrow> ('r, 'v, 'w) ServeHTTPFnE" where
  "handleJoin E clk rq c =
     (case read_body rq of
        Inl err \<Rightarrow> (Ret (Some err), c)
      | Inr body \<Rightarrow>
          (case js_unjoin (se_js E) body of
             Inl err \<Rightarrow> (Ret (Some err), c)
           | Inr m0 \<Rightarrow>
               (case JoinRequest_Fix (EmptyThen (Header_Get XOriginRemoteAddr rq) (rq_RemoteAddr rq)) m0 of
                  Panic e \<Rightarrow> (Panic e, c)
                | Ret m \<Rightarrow>
                    (case RaftStore_Join E (jr_NodeID m) (jr_Addr m) (sv_Store (fst c)) of
                       (Some err, st) \<Rightarrow> (Ret (Some err), (fst c)\<lparr>sv_Store := st\<rparr>, snd c)
                     | (None, st) \<Rightarrow>
                         (case saveCluster E clk st of
                            (Panic e, st') \<Rightarrow> (Panic e, (fst c)\<lparr>sv_Store := st'\<rparr>, snd c)
                          | (Ret _, st') \<Rightarrow>
                              (Ret None, (fst c)\<lparr>sv_Store := st'\<rparr>,
                               WriteAsJSON (js_rsp (se_js E) (rsp_msg True ''OK'')) (snd c)))))))"

definition handleRemove :: "('r, 'v) store_env \<Rightarrow> ('r, 'v, 'w) ServeHTTPFnE" where
  "handleRemove E rq c =
     (case read_body rq of
        Inl err \<Rightarrow> (Ret (Some err), c)
      | Inr body \<Rightarrow>
          (case js_unmap (se_js E) body of
             Inl err \<Rightarrow> (Ret (Some err), c)
           | Inr m \<Rightarrow>
               (case m ''id'' of
                  None \<Rightarrow> (Ret (Some (Err ''ID not found'')), c)
                | Some remoteID \<Rightarrow>
                    (case Remove E remoteID (sv_Store (fst c)) of
                       (Some err, st) \<Rightarrow> (Ret (Some err), (fst c)\<lparr>sv_Store := st\<rparr>, snd c)
                     | (None, st) \<Rightarrow>
                         (Ret None, (fst c)\<lparr>sv_Store := st\<rparr>,
                          WriteAsJSON (js_rsp (se_js E) (rsp_msg True ''OK'')) (snd c))))))"

definition handleNode ::
    "('r, 'v) store_env \<Rightarrow> ('w, 'j) svc_env \<Rightarrow> ('r, 'v, 'w) ServeHTTPFnE" where
  "handleNode E V rq c =
     (Ret None, fst c, WriteAsJSON (sv_node V
        \<lparr>ni_StartTime = FormatTime (se_loc E) (sv_startup V),
         ni_NodeID = arg_NodeID (st_Arg (sv_Store (fst c))),
         ni_Hostname = sv_hostname V, ni_IP = sv_mainIP V\<rparr>) (snd c))"

definition handleCluster :: "('r, 'v) store_env \<Rightarrow> ('r, 'v, 'w) ServeHTTPFnE" where
  "handleCluster E rq c =
     (case Cluster E (sv_Store (fst c)) of
        ((cl, Some err), st) \<Rightarrow> (Ret (Some err), (fst c)\<lparr>sv_Store := st\<rparr>, snd c)
      | ((cl, None), st) \<Rightarrow>
          (Ret None, (fst c)\<lparr>sv_Store := st\<rparr>, WriteAsJSON (js_cluster (se_js E) cl) (snd c)))"

definition handleRaftRequest ::
    "('r, 'v) store_env \<Rightarrow> ('w, 'j) svc_env \<Rightarrow> (string \<Rightarrow> int) \<Rightarrow> ('r, 'v, 'w) ServeHTTPFn" where
  "handleRaftRequest E V clk rq c =
     (let p = str_TrimPrefix (rq_Path rq) RaftPath; js = se_js E in
      if p = ''/health'' then
        CheckMethod ''GET'' (\<lambda>rq (s, w). reply s (WriteAsText ''OK'' w)) rq c
      else if p = ''/join'' then
        CheckMethodE js ''POST'' (tryForwardToLeaderFn E V (handleJoin E clk)) rq c
      else if p = ''/remove'' then
        CheckMethodE js ''DELETE'' (tryForwardToLeaderFn E V (handleRemove E)) rq c
      else if p = ''/stats'' then
        CheckMethod ''GET'' (\<lambda>rq (s, w). reply s (WriteAsJSON (sv_stats V (RaftStats E (sv_Store s))) w)) rq c
      else if p = ''/state'' then
        CheckMethod ''GET''
          (\<lambda>rq (s, w). reply s (WriteAsJSON (js_rsp js (rsp_msg True (NodeState E (sv_Store s)))) w)) rq c
      else if p = ''/cluster'' then CheckMethodE js ''GET'' (handleCluster E) rq c
      else if p = ''/node'' then CheckMethodE js ''GET'' (handleNode E V) rq c
      else reply (fst c) (WriteHeader 404 (snd c)))"

section \<open>Jobs and routing\<close>

definition handleJobRequest ::
    "('r, 'v) store_env \<Rightarrow> ('w, 'j) svc_env \<Rightarrow> ('r, 'v, 'w) ServeHTTPFnE" where
  "handleJobRequest E V rq c =
     (let path = str_TrimPrefix (rq_Target rq) DoJobPath; body = sv_ReadBytes V rq in
      case Invoke (se_unm E) (sv_DealerMap (fst c)) path body of
        (rsp, Some err) \<Rightarrow> (Ret (Some err), c)
      | (rsp, None) \<Rightarrow> (Ret None, fst c, WriteAsJSON (sv_job V rsp) (snd c)))"

definition debugPprof :: "('w, 'j) svc_env \<Rightarrow> ('r, 'v, 'w) ServeHTTPFnE" where
  "debugPprof V rq c =
     (if rq_Path rq \<in> set [''/debug/pprof'', ''/debug/cmdline'', ''/debug/symbol'', ''/debug/profile'',
          ''/debug/trace'', ''/debug/heap'', ''/debug/goroutine'', ''/debug/allocs'', ''/debug/block'',
          ''/debug/threadcreate'', ''/debug/mutex'']
      then (Ret None, fst c, sv_pprof V (rq_Path rq) rq (snd c))
      else (Ret (Some (Err (''404 '' @ rq_Path rq))), fst c, WriteHeader 404 (snd c)))"

definition ServeHTTP ::
    "('r, 'v) store_env \<Rightarrow> ('w, 'j) svc_env \<Rightarrow> (string \<Rightarrow> int) \<Rightarrow> ('r, 'v, 'w) ServeHTTPFn" where
  "ServeHTTP E V clk rq c =
     (let path = rq_Path rq in
      if str_HasPrefix path KeyPath then handleKeyRequest E V clk rq c
      else if str_HasPrefix path RaftPath then handleRaftRequest E V clk rq c
      else if str_HasPrefix path DoJobPath then
        CheckMethodE (se_js E) ''POST'' (handleJobRequest E V) rq c
      else if str_HasPrefix path ''/debug'' then reply (fst (snd (debugPprof V rq c))) (snd (snd (debugPprof V rq c)))
      else reply (fst c) (WriteHeader 404 (snd c)))"

section \<open>Routing facts\<close>

lemma path_eval [simp]:
  "str_HasPrefix (KeyPath @ p) KeyPath"
  "\<not> str_HasPrefix (RaftPath @ p) KeyPath"
  "str_HasPrefix (RaftPath @ p) RaftPath"
  "\<not> str_HasPrefix (DoJobPath @ p) KeyPath"
  "\<not> str_HasPrefix (DoJobPath @ p) RaftPath"
  "str_HasPrefix (DoJobPath @ p) DoJobPath"
  by (simp_all add: KeyPath_def RaftPath_def DoJobPath_def str_HasPrefix_def)

lemma getKey_path:
  "k \<noteq> [] \<Longrightarrow> rq_Path rq = KeyPath @ CHR ''/'' # k \<Longrightarrow> getKey rq w = ((k, True), w)"
  using str_TrimPrefix_append [of "''/''" k] by (simp add: getKey_def Let_def)

lemma ServeHTTP_key: "rq_Path rq = KeyPath @ p \<Longrightarrow> ServeHTTP E V clk rq c = handleKeyRequest E V clk rq c"
  by (simp add: ServeHTTP_def)

lemma ServeHTTP_raft: "rq_Path rq = RaftPath @ p \<Longrightarrow> ServeHTTP E V clk rq c = handleRaftRequest E V clk rq c"
  by (simp add: ServeHTTP_def)

lemma ServeHTTP_job: "rq_Path rq = DoJobPath @ p \<Longrightarrow>
    ServeHTTP E V clk rq c = CheckMethodE (se_js E) ''POST'' (handleJobRequest E V) rq c"
  by (simp add: ServeHTTP_def)

lemma status_reply [simp]:
  "status_of (WriteHeader n w) = (case rs_Status w of None \<Rightarrow> n | Some c \<Rightarrow> c)"
  by (simp add: status_of_def WriteHeader_def)

lemma reply_simps [simp]: "reply s w = (Ret (), s, w)"
  by (simp add: reply_def)

section \<open>Writing keys\<close>

lemma post_loop_ok:
  assumes "post_loop E clk m ks (s, w) = (Ret (), s', w')" "rs_Status w = None" "status_of w' = 200"
  shows "raft_kv.set_all (E, clk) (\<lambda>k. the (m k)) ks (sv_Store s) = (Ret None, sv_Store s') \<and> w' = w \<and>
    sv_DealerMap s' = sv_DealerMap s \<and> sv_out s' = sv_out s"
  using assms
proof (induction ks arbitrary: s)
  case (Cons k ks)
  obtain r st where set1: "Set E (clk k) k (the (m k)) (sv_Store s) = (r, st)" by fastforce
  then have "r = Ret None" using Cons.prems by (cases r) (auto split: option.splits)
  with set1 Cons.prems Cons.IH [of "s\<lparr>sv_Store := st\<rparr>"] show ?case by simp
qed simp

text \<open>What a POST answered with status 200 has stored.\<close>

lemma POST_stores:
  assumes "store_ready (E, clk) (sv_Store s)" "IsLeader E (sv_Store s)"
    and "rq_Method rq = ''POST''" "rq_Path rq = KeyPath @ p"
    and "read_body rq = Inr body" "js_unmap (se_js E) body = Inr m"
    and "\<forall>k v. m k = Some v \<longrightarrow> plain_key k \<and> valid_utf8 v"
    and "set (sv_order V m) = dom m" "distinct (sv_order V m)"
    and "ServeHTTP E V clk rq (s, new_response) = (Ret (), s', w')" "status_of w' = 200"
  shows "Get k (sv_Store s') = (if k \<in> dom m then m k else Get k (sv_Store s))"
proof -
  have "post_loop E clk m (sv_order V m) (s, new_response) = (Ret (), s', w')"
    using assms(2-6,10) by (simp add: ServeHTTP_key handleKeyRequest_def tryForwardToLeader_def doKeyPost_def)
  from post_loop_ok [OF this _ assms(11)]
  have set_all: "raft_kv.set_all (E, clk) (\<lambda>k. the (m k)) (sv_order V m) (sv_Store s) = (Ret None, sv_Store s')"
    by (simp add: new_response_def)
  have fits: "\<forall>k \<in> set (sv_order V m). plain_key k \<and> valid_utf8 (the (m k))"
    using assms(7,8) by auto
  from raft_kv.set_all_get [OF assms(1,9) fits set_all] assms(8) show ?thesis by auto
qed

definition get_request :: "string \<Rightarrow> http_request" where
  "get_request k = \<lparr>rq_Method = ''GET'', rq_Scheme = [], rq_URLHost = [], rq_Path = KeyPath @ ''/'' @ k,
     rq_Target = KeyPath @ ''/'' @ k, rq_RemoteAddr = ''10.0.0.9:40000'', rq_Host = [], rq_Header = (\<lambda>_. []),
     rq_Body = [], rq_BodyErr = None\<rparr>"

lemma GET_key:
  assumes "rq_Method rq = ''GET''" "rq_Path rq = KeyPath @ ''/'' @ k" "k \<noteq> []"
  shows "ServeHTTP E V clk rq (s, w) =
    (Ret (), s, case Get k (sv_Store s) of
       Some v \<Rightarrow> WriteAsJSON (sv_kv V k (TryParseJSON (sv_parse V) v)) w
     | None \<Rightarrow> WriteHeader 404 w)"
  using assms getKey_path [OF assms(3), of rq w]
  by (simp add: ServeHTTP_key handleKeyRequest_def split: option.splits)

text \<open>
  C1. What is posted can be read: when the leader answers a POST of a JSON object under the key
  path with status 200, every pair of the object has been stored, and a GET of each of its
  keys, served by the node afterwards, answers with that key and value as JSON and changes
  nothing. Keys that were not posted keep their values. The assumptions are the contract of
  the store and that the keys are plain; \<open>sv_order\<close> is the order the object is ranged over.
\<close>

theorem POST_then_GET:
  assumes "store_ready (E, clk) (sv_Store s)" "IsLeader E (sv_Store s)"
    and "rq_Method rq = ''POST''" "rq_Path rq = KeyPath @ p"
    and "read_body rq = Inr body" "js_unmap (se_js E) body = Inr m"
    and "\<forall>k v. m k = Some v \<longrightarrow> plain_key k \<and> valid_utf8 v"
    and "set (sv_order V m) = dom m" "distinct (sv_order V m)"
    and "ServeHTTP E V clk rq (s, new_response) = (Ret (), s', w')" "status_of w' = 200"
  shows "(\<forall>k v. m k = Some v \<longrightarrow> k \<noteq> [] \<longrightarrow>
      ServeHTTP E V clk (get_request k) (s', new_response) =
        (Ret (), s', WriteAsJSON (sv_kv V k (TryParseJSON (sv_parse V) v)) new_response)) \<and>
    (\<forall>k. m k = None \<longrightarrow> Get k (sv_Store s') = Get k (sv_Store s))"
proof -
  note get = POST_stores [OF assms]
  show ?thesis
  proof (intro conjI allI impI)
    fix k v assume "m k = Some v" "k \<noteq> []"
    then show "ServeHTTP E V clk (get_request k) (s', new_response) =
        (Ret (), s', WriteAsJSON (sv_kv V k (TryParseJSON (sv_parse V) v)) new_response)"
      using GET_key [of "get_request k" k E V clk s' new_response] get [of k]
      by (simp add: get_request_def domIff)
  qed (simp add: get domIff)
qed

definition demo_venv :: "(string, string) svc_env" where
  "demo_venv = \<lparr>sv_parse = (\<lambda>_. Inl (Err ''not JSON'')),
     sv_kv = (\<lambda>k v. case v of JText t \<Rightarrow> enc_list [k, t] | JVal j \<Rightarrow> j), sv_stats = (\<lambda>_. []),
     sv_node = (\<lambda>i. ni_NodeID i), sv_job = (\<lambda>d. enc_rsp \<lparr>rsp_OK = True, rsp_Msg = ''ok'', rsp_Data = d\<rparr>),
     sv_ReadBytes = rq_Body, sv_pprof = (\<lambda>_ _ w. w), sv_backend = (\<lambda>_ w. WriteHeader 200 w),
     sv_order = (\<lambda>m. sorted_list_of_set (dom m)), sv_startup = demo_t, sv_hostname = ''host'',
     sv_mainIP = ''10.0.0.1''\<rparr>"

definition demo_service :: "(demo_raft, string, string) Service" where
  "demo_service = \<lparr>sv_Store = demo_store, sv_DealerMap = MakeDealerMap, sv_out = []\<rparr>"

definition demo_request :: "string \<Rightarrow> string \<Rightarrow> string \<Rightarrow> http_request" where
  "demo_request meth path body = \<lparr>rq_Method = meth, rq_Scheme = [], rq_URLHost = [], rq_Path = path,
     rq_Target = path, rq_RemoteAddr = ''10.0.0.9:40000'', rq_Host = ''10.0.0.1:11000'',
     rq_Header = (\<lambda>_. []), rq_Body = body, rq_BodyErr = None\<rparr>"

lemma demo_service_ready: "store_ready (demo_senv utc, \<lambda>_. demo_t) (sv_Store demo_service)"
  by (simp add: store_ready_def demo_prompt demo_service_def)

theorem POST_then_GET_witness:
  "\<exists>s'. ServeHTTP (demo_senv utc) demo_venv (\<lambda>_. demo_t) (get_request ''user1'') (s', new_response) =
     (Ret (), s', WriteAsJSON (enc_list [''user1'', ''batman'']) new_response)"
proof -
  let ?rq = "demo_request ''POST'' KeyPath (enc_list [''user1'', ''batman''])"
  let ?m = "[''user1'' \<mapsto> ''batman'']"
  obtain st where st: "Set (demo_senv utc) demo_t ''user1'' ''batman'' demo_store = (Ret None, st)"
    using demo_Set by blast
  let ?s = "demo_service\<lparr>sv_Store := st\<rparr>"
  have m: "js_unmap (se_js (demo_senv utc)) (enc_list [''user1'', ''batman'']) = Inr ?m"
    by (simp add: demo_json_def dec_map_def)
  have run: "ServeHTTP (demo_senv utc) demo_venv (\<lambda>_. demo_t) ?rq (demo_service, new_response) =
      (Ret (), ?s, new_response)"
    using st m
    by (simp add: ServeHTTP_key [of _ "[]"] demo_request_def handleKeyRequest_def tryForwardToLeader_def
        doKeyPost_def read_body_def demo_service_def demo_venv_def)
  have "plain_key k \<and> valid_utf8 v" if "?m k = Some v" for k v
    using that by (auto simp: plain_key_def byte_in_def split: if_splits)
  with POST_then_GET [OF demo_service_ready _ _ _ _ m _ _ _ run, of "[]"]
  have "ServeHTTP (demo_senv utc) demo_venv (\<lambda>_. demo_t) (get_request ''user1'') (?s, new_response) =
     (Ret (), ?s, WriteAsJSON (sv_kv demo_venv ''user1'' (TryParseJSON (sv_parse demo_venv) ''batman'')) new_response)"
    by (simp add: demo_service_def demo_request_def read_body_def demo_venv_def new_response_def status_of_def)
  then show ?thesis by (auto simp: TryParseJSON_def demo_venv_def)
qed

section \<open>Followers\<close>

text \<open>The requests that change the cluster: writes of keys, joins and removals.\<close>

definition is_write :: "http_request \<Rightarrow> bool" where
  "is_write rq \<longleftrightarrow>
     (\<exists>p. rq_Path rq = KeyPath @ p) \<and> rq_Method rq = ''POST'' \<or>
     (\<exists>k. k \<noteq> [] \<and> rq_Path rq = KeyPath @ ''/'' @ k) \<and> rq_Method rq = ''DELETE'' \<or>
     rq_Path rq = RaftPath @ ''/join'' \<and> rq_Method rq = ''POST'' \<or>
     rq_Path rq = RaftPath @ ''/remove'' \<and> rq_Method rq = ''DELETE''"

lemma write_on_follower:
  assumes "is_write rq" "\<not> IsLeader E (sv_Store s)"
  shows "ServeHTTP E V clk rq (s, w) = report (se_js E) (forwardToLeader E V rq (s, w))"
  using assms(1)[unfolded is_write_def]
proof (elim disjE conjE exE)
  fix p assume "rq_Path rq = KeyPath @ p" "rq_Method rq = ''POST''"
  with assms(2) show ?thesis by (simp add: ServeHTTP_key handleKeyRequest_def tryForwardToLeader_def)
next
  fix k assume k: "k \<noteq> []" "rq_Path rq = KeyPath @ ''/'' @ k" and m: "rq_Method rq = ''DELETE''"
  then show ?thesis using assms(2) getKey_path [OF k(1), of rq w]
    by (simp add: ServeHTTP_key handleKeyRequest_def tryForwardToLeader_def)
next
  assume "rq_Path rq = RaftPath @ ''/join''" "rq_Method rq = ''POST''"
  with assms(2) show ?thesis
    by (simp add: ServeHTTP_raft handleRaftRequest_def CheckMethodE_def tryForwardToLeaderFn_def)
next
  assume "rq_Path rq = RaftPath @ ''/remove''" "rq_Method rq = ''DELETE''"
  with assms(2) show ?thesis
    by (simp add: ServeHTTP_raft handleRaftRequest_def CheckMethodE_def tryForwardToLeaderFn_def)
qed

lemma forwardToLeader_cases:
  "(\<exists>err. forwardToLeader E V rq (s, w) = (Ret (Some err), s, w)) \<or>
   (\<exists>leader. LeadServer E (sv_Store s) = (leader, None) \<and> NodeID_HTTPAddr (peer_ID leader) \<noteq> [] \<and>
      Header_Get XOriginRemoteAddr rq = [] \<and>
      forwardToLeader E V rq (s, w) =
        (Ret None, ReverseProxy V (NodeID_HTTPAddr (peer_ID leader)) (rq_Path rq) rq (s, w)))"
  by (auto simp: forwardToLeader_def Let_def split: prod.splits option.splits)

lemma Header_director: "Header_Get XOriginRemoteAddr (director h p rq) = rq_RemoteAddr rq"
  by (simp add: director_def Header_Get_def Header_Set_def Header_Add_def XOriginRemoteAddr_def Let_def)

lemma is_write_director: "is_write (director h (rq_Path rq) rq) = is_write rq"
  by (simp add: is_write_def director_def Header_Set_def Header_Add_def Let_def)

text \<open>
  C25. A node that is not the leader never carries out a write itself: on every POST or DELETE of
  a key, join and remove request its store stays as it is, and either the request is sent
  exactly once, to the HTTP address of the leader it knows and with the caller's address in
  the header, or nothing is sent and the answer is a JSON error.
\<close>

theorem follower_forwards:
  assumes "is_write rq" "\<not> IsLeader E (sv_Store s)"
  shows "\<exists>s' w'. ServeHTTP E V clk rq (s, w) = (Ret (), s', w') \<and> sv_Store s' = sv_Store s \<and>
    ((\<exists>leader. LeadServer E (sv_Store s) = (leader, None) \<and>
        sv_out s' = sv_out s @ [director (NodeID_HTTPAddr (peer_ID leader)) (rq_Path rq) rq]) \<or>
     (\<exists>err. s' = s \<and> w' = WriteAsJSON (js_rsp (se_js E) (rsp_msg False (err_Error err))) w))"
  using forwardToLeader_cases [of E V rq s w]
proof (elim disjE exE conjE)
  fix err assume "forwardToLeader E V rq (s, w) = (Ret (Some err), s, w)"
  then show ?thesis by (auto simp: write_on_follower [OF assms] report_def)
next
  fix leader assume "LeadServer E (sv_Store s) = (leader, None)"
    "forwardToLeader E V rq (s, w) =
        (Ret None, ReverseProxy V (NodeID_HTTPAddr (peer_ID leader)) (rq_Path rq) rq (s, w))"
  then show ?thesis by (simp add: write_on_follower [OF assms] report_def ReverseProxy_def Let_def)
qed

definition follower_service :: "(demo_raft, string, string) Service" where
  "follower_service = demo_service\<lparr>sv_Store := demo_store\<lparr>st_raft := demo_raft0\<lparr>dr_State := Follower\<rparr>\<rparr>\<rparr>"

lemma follower_not_leader: "\<not> IsLeader (demo_senv utc) (sv_Store follower_service)"
  by (simp add: IsLeader_def follower_service_def demo_service_def demo_api_def)

theorem follower_forwards_witness:
  "\<exists>s' w'. ServeHTTP (demo_senv utc) demo_venv (\<lambda>_. demo_t) (demo_request ''POST'' KeyPath [])
     (follower_service, new_response) = (Ret (), s', w') \<and> sv_Store s' = sv_Store follower_service"
proof -
  have "is_write (demo_request ''POST'' KeyPath [])" by (simp add: is_write_def demo_request_def)
  from follower_forwards [OF this follower_not_leader, of demo_venv "\<lambda>_. demo_t" new_response]
  show ?thesis by blast
qed

text \<open>
  C26. No forwarding loops: a write that was forwarded once is not forwarded again. A node that
  receives it and is not the leader either answers with a JSON error, sends nothing and changes
  nothing, as long as the address of the first caller was known.
\<close>

theorem forwarded_once:
  assumes "is_write rq" "rq_RemoteAddr rq \<noteq> []" "\<not> IsLeader E (sv_Store s)"
  shows "\<exists>err. ServeHTTP E V clk (director host (rq_Path rq) rq) (s, w) =
    (Ret (), s, WriteAsJSON (js_rsp (se_js E) (rsp_msg False (err_Error err))) w)"
proof -
  let ?rq = "director host (rq_Path rq) rq"
  have "is_write ?rq" using assms(1) by (simp add: is_write_director)
  note fwd = write_on_follower [OF this assms(3), of V clk w]
  have "Header_Get XOriginRemoteAddr ?rq \<noteq> []" using assms(2) by (simp add: Header_director)
  with forwardToLeader_cases [of E V ?rq s w] show ?thesis by (auto simp: fwd report_def)
qed

theorem forwarded_once_witness:
  "\<exists>err. ServeHTTP (demo_senv utc) demo_venv (\<lambda>_. demo_t)
     (director ''10.0.0.1:11000'' KeyPath (demo_request ''POST'' KeyPath [])) (follower_service, new_response) =
     (Ret (), follower_service,
      WriteAsJSON (js_rsp demo_json (rsp_msg False (err_Error err))) new_response)"
proof -
  have w: "is_write (demo_request ''POST'' KeyPath [])" by (simp add: is_write_def demo_request_def)
  have "rq_RemoteAddr (demo_request ''POST'' KeyPath []) \<noteq> []" by (simp add: demo_request_def)
  from forwarded_once [OF w this follower_not_leader, of demo_venv "\<lambda>_. demo_t" "''10.0.0.1:11000''" new_response]
  show ?thesis by (simp add: demo_request_def)
qed

section \<open>Reads and rejections\<close>

lemma Cluster_frame: "\<exists>cl e n. Cluster E s = ((cl, e), s\<lparr>st_net := n\<rparr>)"
  by (cases "walkRaftServers (se_api E) (st_raft s) (cluster_peer E s) (zero_RaftCluster, st_net s)")
    (auto simp: Cluster_def)

lemma handleCluster_frame:
  "\<exists>e n w'. handleCluster E rq (s, w) = (Ret e, s\<lparr>sv_Store := (sv_Store s)\<lparr>st_net := n\<rparr>\<rparr>, w')"
proof -
  obtain cl e n where "Cluster E (sv_Store s) = ((cl, e), (sv_Store s)\<lparr>st_net := n\<rparr>)"
    using Cluster_frame by blast
  then show ?thesis by (cases e) (auto simp: handleCluster_def)
qed

text \<open>
  Reads are safe: a GET request, whatever its path, never panics, never forwards and leaves
  the key-value map, Raft, the parameters, the files and the dealers as they were (\<open>/cluster\<close>
  may ask other nodes for their state).
\<close>

theorem GET_changes_nothing:
  assumes "rq_Method rq = ''GET''"
  shows "\<exists>n w'. ServeHTTP E V clk rq (s, w) = (Ret (), s\<lparr>sv_Store := (sv_Store s)\<lparr>st_net := n\<rparr>\<rparr>, w')"
proof -
  have same: "s\<lparr>sv_Store := (sv_Store s)\<lparr>st_net := st_net (sv_Store s)\<rparr>\<rparr> = s" by simp
  have key: "\<exists>w'. handleKeyRequest E V clk rq (s, w) = (Ret (), s, w')"
    using assms by (auto simp: handleKeyRequest_def split: prod.splits bool.splits option.splits)
  have raft: "\<exists>n w'. handleRaftRequest E V clk rq (s, w) = (Ret (), s\<lparr>sv_Store := (sv_Store s)\<lparr>st_net := n\<rparr>\<rparr>, w')"
  proof (cases "str_TrimPrefix (rq_Path rq) RaftPath = ''/cluster''")
    case True
    obtain e n w' where "handleCluster E rq (s, w) = (Ret e, s\<lparr>sv_Store := (sv_Store s)\<lparr>st_net := n\<rparr>\<rparr>, w')"
      using handleCluster_frame [of E rq s w] by blast
    with True assms show ?thesis
      by (cases e) (auto simp: handleRaftRequest_def CheckMethodE_def report_def)
  next
    case False
    then have "\<exists>w'. handleRaftRequest E V clk rq (s, w) = (Ret (), s, w')"
      using assms by (auto simp: handleRaftRequest_def Let_def CheckMethod_def CheckMethodE_def report_def handleNode_def)
    with same show ?thesis by metis
  qed
  have job: "\<exists>w'. CheckMethodE (se_js E) ''POST'' (handleJobRequest E V) rq (s, w) = (Ret (), s, w')"
    using assms by (simp add: CheckMethodE_def)
  have "\<exists>w'. (reply (fst (snd (debugPprof V rq (s, w)))) (snd (snd (debugPprof V rq (s, w))))) = (Ret (), s, w')"
    by (simp add: debugPprof_def)
  with key raft job same show ?thesis unfolding ServeHTTP_def Let_def by (metis fst_conv reply_simps snd_conv)
qed

theorem GET_changes_nothing_witness:
  "\<exists>n w'. ServeHTTP (demo_senv utc) demo_venv (\<lambda>_. demo_t) (get_request ''a'') (demo_service, new_response) =
     (Ret (), demo_service\<lparr>sv_Store := demo_store\<lparr>st_net := n\<rparr>\<rparr>, w')"
  using GET_changes_nothing [of "get_request ''a''" "demo_senv utc" demo_venv "\<lambda>_. demo_t" demo_service new_response]
  by (simp add: get_request_def demo_service_def)

text \<open>
  C30. What is not served is refused without effect: an unknown path gets 404; a key request with
  another method than GET, POST or DELETE gets 405, and so does each Raft request and a job
  with the wrong method; a GET or DELETE without a key gets 400. Nothing else happens.
\<close>

definition raft_method :: "string \<Rightarrow> string option" where
  "raft_method p = map_of [(''/health'', ''GET''), (''/join'', ''POST''), (''/remove'', ''DELETE''),
     (''/stats'', ''GET''), (''/state'', ''GET''), (''/cluster'', ''GET''), (''/node'', ''GET'')] p"

theorem ServeHTTP_refuses:
  "(list_all (\<lambda>p. \<not> str_HasPrefix (rq_Path rq) p) [KeyPath, RaftPath, DoJobPath, ''/debug''] \<longrightarrow>
      ServeHTTP E V clk rq (s, w) = (Ret (), s, WriteHeader 404 w)) \<and>
   (rq_Path rq = KeyPath @ p \<longrightarrow> rq_Method rq \<notin> {''GET'', ''POST'', ''DELETE''} \<longrightarrow>
      ServeHTTP E V clk rq (s, w) = (Ret (), s, WriteHeader 405 w)) \<and>
   (rq_Path rq = KeyPath \<or> rq_Path rq = KeyPath @ ''/'' \<longrightarrow> rq_Method rq \<in> {''GET'', ''DELETE''} \<longrightarrow>
      ServeHTTP E V clk rq (s, w) = (Ret (), s, WriteHeader 400 w)) \<and>
   (rq_Path rq = RaftPath @ p \<longrightarrow> raft_method p = None \<longrightarrow>
      ServeHTTP E V clk rq (s, w) = (Ret (), s, WriteHeader 404 w)) \<and>
   (rq_Path rq = RaftPath @ p \<longrightarrow> raft_method p = Some m \<longrightarrow> rq_Method rq \<noteq> m \<longrightarrow>
      ServeHTTP E V clk rq (s, w) = (Ret (), s, WriteHeader 405 w)) \<and>
   (rq_Path rq = DoJobPath @ p \<longrightarrow> rq_Method rq \<noteq> ''POST'' \<longrightarrow>
      ServeHTTP E V clk rq (s, w) = (Ret (), s, WriteHeader 405 w))"
proof (intro conjI impI)
  assume "list_all (\<lambda>p. \<not> str_HasPrefix (rq_Path rq) p) [KeyPath, RaftPath, DoJobPath, ''/debug'']"
  then show "ServeHTTP E V clk rq (s, w) = (Ret (), s, WriteHeader 404 w)" by (simp add: ServeHTTP_def)
next
  assume "rq_Path rq = KeyPath @ p" "rq_Method rq \<notin> {''GET'', ''POST'', ''DELETE''}"
  then show "ServeHTTP E V clk rq (s, w) = (Ret (), s, WriteHeader 405 w)"
    by (simp add: ServeHTTP_key handleKeyRequest_def)
next
  assume p: "rq_Path rq = KeyPath \<or> rq_Path rq = KeyPath @ ''/''" and m: "rq_Method rq \<in> {''GET'', ''DELETE''}"
  then obtain x where x: "rq_Path rq = KeyPath @ x" "x = [] \<or> x = ''/''" by auto
  then have "getKey rq w = (([], False), WriteHeader 400 w)"
    by (auto simp: getKey_def Let_def str_TrimPrefix_def)
  with m show "ServeHTTP E V clk rq (s, w) = (Ret (), s, WriteHeader 400 w)"
    by (auto simp: ServeHTTP_key [OF x(1)] handleKeyRequest_def)
next
  assume "rq_Path rq = RaftPath @ p" "raft_method p = None"
  then show "ServeHTTP E V clk rq (s, w) = (Ret (), s, WriteHeader 404 w)"
    by (auto simp: ServeHTTP_raft handleRaftRequest_def raft_method_def split: if_splits)
next
  assume "rq_Path rq = RaftPath @ p" "raft_method p = Some m" "rq_Method rq \<noteq> m"
  then show "ServeHTTP E V clk rq (s, w) = (Ret (), s, WriteHeader 405 w)"
    by (auto simp: ServeHTTP_raft handleRaftRequest_def raft_method_def CheckMethod_def CheckMethodE_def
        split: if_splits)
next
  assume "rq_Path rq = DoJobPath @ p" "rq_Method rq \<noteq> ''POST''"
  then show "ServeHTTP E V clk rq (s, w) = (Ret (), s, WriteHeader 405 w)"
    by (simp add: ServeHTTP_job CheckMethodE_def)
qed

theorem ServeHTTP_refuses_witness:
  "ServeHTTP (demo_senv utc) demo_venv (\<lambda>_. demo_t) (demo_request ''PUT'' (RaftPath @ ''/join'') [])
     (demo_service, new_response) = (Ret (), demo_service, WriteHeader 405 new_response)"
  using ServeHTTP_refuses [of "demo_request ''PUT'' (RaftPath @ ''/join'') []" "demo_senv utc" demo_venv
      "\<lambda>_. demo_t" demo_service new_response "''/join''" "''POST''"]
  by (simp add: demo_request_def raft_method_def)

section \<open>Joining over HTTP\<close>

lemma JoinRequest_Fix_plain:
  assumes "id_plain ch" "id_plain cp" "id_plain h" "id_plain hp" "id_plain rp"
  shows "JoinRequest_Fix (ch @ '':'' @ cp) \<lparr>jr_Addr = h @ '':'' @ rp, jr_NodeID = mk_NodeID h hp rp\<rparr> =
    Ret \<lparr>jr_Addr = EqualsThen ch ''127.0.0.1'' [] @ '':'' @ rp,
         jr_NodeID = mk_NodeID (EqualsThen ch ''127.0.0.1'' []) hp rp\<rparr>"
  using assms by (simp add: JoinRequest_Fix_def NodeID_Fix_mk id_plainD Let_def)

text \<open>
  A join request is entered under the address it came from: the leader joins the node
  \<open>host:hp,host:rp\<close> at \<open>host:rp\<close>, where the ports are the ones the node asked for and \<open>host\<close> is
  the host of the caller (empty for a loopback caller), which a forwarding follower has put
  into the header. The answer is the error of the store's \<open>Join\<close> as JSON, or OK after the
  cluster has been saved.
\<close>

theorem join_uses_caller_host:
  assumes "IsLeader E (sv_Store s)" "rq_Method rq = ''POST''" "rq_Path rq = RaftPath @ ''/join''"
    and "read_body rq = Inr body"
    and "js_unjoin (se_js E) body = Inr \<lparr>jr_Addr = h @ '':'' @ rp, jr_NodeID = mk_NodeID h hp rp\<rparr>"
    and "EmptyThen (Header_Get XOriginRemoteAddr rq) (rq_RemoteAddr rq) = ch @ '':'' @ cp"
    and "id_plain ch" "id_plain cp" "id_plain h" "id_plain hp" "id_plain rp"
  shows "ServeHTTP E V clk rq (s, w) =
    (let host = EqualsThen ch ''127.0.0.1'' [] in
     case RaftStore_Join E (mk_NodeID host hp rp) (host @ '':'' @ rp) (sv_Store s) of
       (Some err, st) \<Rightarrow> (Ret (), s\<lparr>sv_Store := st\<rparr>,
          WriteAsJSON (js_rsp (se_js E) (rsp_msg False (err_Error err))) w)
     | (None, st) \<Rightarrow>
         (case saveCluster E clk st of
            (Panic e, st') \<Rightarrow> (Panic e, s\<lparr>sv_Store := st'\<rparr>, w)
          | (Ret _, st') \<Rightarrow> (Ret (), s\<lparr>sv_Store := st'\<rparr>,
               WriteAsJSON (js_rsp (se_js E) (rsp_msg True ''OK'')) w)))"
  using assms(1-6) JoinRequest_Fix_plain [OF assms(7-11)]
  by (auto simp: ServeHTTP_raft handleRaftRequest_def CheckMethodE_def tryForwardToLeaderFn_def handleJoin_def
      report_def Let_def split: prod.splits option.splits outcome.splits)

lemma demo_saveCluster: "\<exists>s'. saveCluster (demo_senv loc) clk s = (Ret (), s')"
proof -
  obtain cl e n where c: "Cluster (demo_senv loc) s = ((cl, e), s\<lparr>st_net := n\<rparr>)"
    using Cluster_frame by blast
  obtain x s' where "Set (demo_senv loc) (clk ''raft/cluster'') ''raft/cluster''
      (js_cluster (se_js (demo_senv loc)) cl) (s\<lparr>st_net := n\<rparr>) = (Ret x, s')"
    using demo_Set_returns by blast
  with c show ?thesis by (cases e) (auto simp: saveCluster_def)
qed

theorem join_uses_caller_host_witness:
  "\<exists>st c. RaftStore_Join (demo_senv utc) ''10.0.0.9:11000,10.0.0.9:12000'' ''10.0.0.9:12000'' demo_store = (None, st) \<and>
     ServeHTTP (demo_senv utc) demo_venv (\<lambda>_. demo_t)
       (demo_request ''POST'' (RaftPath @ ''/join'')
          (enc_join \<lparr>jr_Addr = ''localhost:12000'', jr_NodeID = ''localhost:11000,localhost:12000''\<rparr>))
       (demo_service, new_response) = (Ret (), c)"
proof -
  obtain st where st: "RaftStore_Join (demo_senv utc) ''10.0.0.9:11000,10.0.0.9:12000'' ''10.0.0.9:12000'' demo_store = (None, st)"
    by (simp add: RaftStore_Join_def walkRaftServers_def join_server_def demo_defs)
  let ?rq = "demo_request ''POST'' (RaftPath @ ''/join'')
      (enc_join \<lparr>jr_Addr = ''localhost:12000'', jr_NodeID = ''localhost:11000,localhost:12000''\<rparr>)"
  have body: "read_body ?rq = Inr (enc_join \<lparr>jr_Addr = ''localhost:12000'', jr_NodeID = ''localhost:11000,localhost:12000''\<rparr>)"
    by (simp add: demo_request_def read_body_def)
  have dec: "js_unjoin (se_js (demo_senv utc)) (enc_join \<lparr>jr_Addr = ''localhost:12000'', jr_NodeID = ''localhost:11000,localhost:12000''\<rparr>) =
      Inr \<lparr>jr_Addr = ''localhost'' @ '':'' @ ''12000'', jr_NodeID = mk_NodeID ''localhost'' ''11000'' ''12000''\<rparr>"
    by (simp add: demo_json_def mk_NodeID_def)
  have caller: "EmptyThen (Header_Get XOriginRemoteAddr ?rq) (rq_RemoteAddr ?rq) = ''10.0.0.9'' @ '':'' @ ''40000''"
    by (simp add: demo_request_def Header_Get_def EmptyThen_def)
  obtain st' r where save: "saveCluster (demo_senv utc) (\<lambda>_. demo_t) st = (r, st')" by fastforce
  have "\<exists>x. r = Ret x" using demo_saveCluster [of utc "\<lambda>_. demo_t" st] save by auto
  with join_uses_caller_host [OF _ _ _ body dec caller, of demo_service demo_venv "\<lambda>_. demo_t" new_response] st save
  show ?thesis
    by (auto simp: demo_request_def demo_service_def EqualsThen_def mk_NodeID_def id_plain_def addr_plain_def)
qed

text \<open>
  A node ID without a comma crashes the handler: when the leader gets a join request whose ID
  has no second part, \<open>NodeID.RaftAddr\<close> indexes out of range and the request ends in a panic
  instead of an error answer. Nothing has been changed by then.
\<close>

theorem join_without_comma_panics:
  assumes "IsLeader E (sv_Store s)" "rq_Method rq = ''POST''" "rq_Path rq = RaftPath @ ''/join''"
    and "read_body rq = Inr body" "js_unjoin (se_js E) body = Inr m" "CHR '','' \<notin> set (jr_NodeID m)"
  shows "ServeHTTP E V clk rq (s, w) = (Panic ''runtime error: index out of range'', s, w)"
  using assms
  by (simp add: ServeHTTP_raft handleRaftRequest_def CheckMethodE_def tryForwardToLeaderFn_def handleJoin_def
      report_def Let_def JoinRequest_Fix_def NodeID_Fix_def split: prod.splits)

theorem join_without_comma_panics_witness:
  "fst (ServeHTTP (demo_senv utc) demo_venv (\<lambda>_. demo_t)
     (demo_request ''POST'' (RaftPath @ ''/join'') (enc_join \<lparr>jr_Addr = ''10.0.0.9:12000'', jr_NodeID = ''node9''\<rparr>))
     (demo_service, new_response)) = Panic ''runtime error: index out of range''"
  by (subst join_without_comma_panics [where m = "\<lparr>jr_Addr = ''10.0.0.9:12000'', jr_NodeID = ''node9''\<rparr>" and
        body = "enc_join \<lparr>jr_Addr = ''10.0.0.9:12000'', jr_NodeID = ''node9''\<rparr>"])
    (simp_all add: demo_service_def demo_request_def read_body_def demo_json_def)

section \<open>Jobs from node to node\<close>

text \<open>
  C29. A job reaches the dealer it names: \<open>DistributeJob\<close> posts to the HTTP address in the peer's ID,
  and the peer runs the dealer registered under exactly the path given. The caller gets the
  dealer's result as it decodes it, or the dealer's error text as an error. The assumptions:
  the network hands the peer's answer back, and the answers decode to what was encoded.
\<close>

theorem job_reaches_dealer:
  assumes "id_plain h" "id_plain hp" "id_plain rp" "peer_ID p = mk_NodeID h hp rp"
    and "rq_Method rq = ''POST''" "rq_Path rq = DoJobPath @ path" "rq_Target rq = DoJobPath @ path"
    and "ServeHTTP E V clk rq (s, new_response) = (r, s', w')"
    and "responder n (http_log n) (POST (''http://'' @ h @ '':'' @ hp @ DoJobPath @ path) req) = Inr (200, rs_Body w')"
    and "js_unrsp js (sv_job V ret) = (\<lparr>rsp_OK = True, rsp_Msg = ''ok'', rsp_Data = Some data\<rparr>, None)"
    and "\<And>msg. js_unrsp js (js_rsp (se_js E) (rsp_msg False msg)) = (rsp_msg False msg, None)"
    and "Invoke (se_unm E) (sv_DealerMap s) path (sv_ReadBytes V rq) = (ret, err)"
  shows "fst (DistributeJob js unm p path req n) =
    (case err of None \<Rightarrow> unm data | Some e \<Rightarrow> Inl (Err (err_Error e)))"
proof -
  have url: "NodeID_URL (peer_ID p) (DoJobPath @ path) = ''http://'' @ h @ '':'' @ hp @ DoJobPath @ path"
    using assms(1-4) by (simp add: NodeID_URL_def BindAddr_URL_def mk_NodeID_parts id_plainD DoJobPath_def
        str_TrimPrefix_def Let_def)
  have "rs_Body w' = (case err of None \<Rightarrow> sv_job V ret
      | Some e \<Rightarrow> js_rsp (se_js E) (rsp_msg False (err_Error e)))"
    using assms(5-8,12)
    by (cases err) (auto simp: ServeHTTP_job CheckMethodE_def handleJobRequest_def report_def WriteAsJSON_def
        Write_def new_response_def)
  with assms(9-11) show ?thesis
    by (cases err) (auto simp: DistributeJob_def url PostJSON_def do_http_def parseRSP_def rsp_msg_def)
qed

definition job_service :: "(demo_raft, string, string) Service" where
  "job_service = demo_service\<lparr>sv_DealerMap :=
     \<lparr>Dealers = [''/myjob'' \<mapsto> \<lparr>Fn = echo_handler, ReqType = TNamed ''JobReq''\<rparr>]\<rparr>\<rparr>"

theorem job_reaches_dealer_witness:
  "fst (DistributeJob demo_json Inr
     \<lparr>peer_Address = ''10.0.0.1:12000'', peer_ID = demo_ID, peer_State = ''Leader'', peer_Suffrage = ''Voter''\<rparr>
     ''/myjob'' ''ID0''
     \<lparr>responder = (\<lambda>_ _. Inr (200, enc_rsp \<lparr>rsp_OK = True, rsp_Msg = ''ok'', rsp_Data = Some ''ID0''\<rparr>)),
      http_log = []\<rparr>) = Inr ''ID0''"
proof -
  let ?rq = "demo_request ''POST'' (DoJobPath @ ''/myjob'') ''ID0''"
  let ?p = "\<lparr>peer_Address = ''10.0.0.1:12000'', peer_ID = demo_ID, peer_State = ''Leader'', peer_Suffrage = ''Voter''\<rparr>"
  let ?V = "demo_venv" and ?E = "demo_senv utc"
  have inv: "Invoke (se_unm ?E) (sv_DealerMap job_service) ''/myjob'' (sv_ReadBytes ?V ?rq) = (Some ''ID0'', None)"
    by (simp add: Invoke_def job_service_def echo_handler_def demo_venv_def demo_request_def)
  have path: "rq_Method ?rq = ''POST''" "rq_Path ?rq = DoJobPath @ ''/myjob''" "rq_Target ?rq = DoJobPath @ ''/myjob''"
    by (simp_all add: demo_request_def)
  have run: "ServeHTTP ?E ?V (\<lambda>_. demo_t) ?rq (job_service, new_response) =
      (Ret (), job_service, WriteAsJSON (sv_job ?V (Some ''ID0'')) new_response)"
    using inv path
    by (simp add: ServeHTTP_job [OF path(2)] CheckMethodE_def handleJobRequest_def report_def)
  have pid: "peer_ID ?p = mk_NodeID ''10.0.0.1'' ''11000'' ''12000''" by (simp add: demo_ID_def mk_NodeID_def)
  have plain: "id_plain ''10.0.0.1''" "id_plain ''11000''" "id_plain ''12000''"
    by (simp_all add: id_plain_def addr_plain_def)
  have dec: "js_unrsp demo_json (sv_job ?V (Some ''ID0'')) =
      (\<lparr>rsp_OK = True, rsp_Msg = ''ok'', rsp_Data = Some ''ID0''\<rparr>, None)"
    by (simp add: demo_json_def demo_venv_def)
  have decm: "js_unrsp demo_json (js_rsp (se_js ?E) (rsp_msg False msg)) = (rsp_msg False msg, None)" for msg
    by (simp add: demo_json_def)
  show ?thesis
    using job_reaches_dealer [OF plain pid path run _ dec decm inv,
        of "\<lparr>responder = (\<lambda>_ _. Inr (200, enc_rsp \<lparr>rsp_OK = True, rsp_Msg = ''ok'', rsp_Data = Some ''ID0''\<rparr>)), http_log = []\<rparr>"
          "''ID0''" Inr]
    by (simp add: WriteAsJSON_def Write_def new_response_def demo_venv_def)
qed

end
