(* ===== verification/Startup.thy ===== *)
theory Startup
  imports Service Store_Open
begin

text \<open>
  Creating and starting a service (\<open>Create\<close>, \<open>GoStartHTTP\<close>, \<open>StartRaft\<close>, \<open>StartAll\<close> of
  \<open>service.go\<close>), the dialer of the proxy and the printing helpers of \<open>util.go\<close>.
\<close>

section \<open>Creating\<close>

text \<open>\<open>Create\<close> panics when the store cannot be opened. \<open>r0\<close> stands for the Raft that is not there yet.\<close>

definition Create ::
    "('r, 'v) store_env \<Rightarrow> 'r open_env \<Rightarrow> ('v, 'w) Arg \<Rightarrow> 'r \<Rightarrow> files \<Rightarrow> http_world \<Rightarrow>
     ('r, 'v, 'w) Service outcome" where
  "Create E oe arg r0 fs net =
     (case Open E oe (New (arg\<lparr>arg_LoggerSet := True\<rparr>) r0 fs net) of
        (Some err, s) \<Rightarrow> Panic (''failed to open Store: '' @ err_Error err)
      | (None, s) \<Rightarrow> Ret \<lparr>sv_Store = s, sv_DealerMap = MakeDealerMap, sv_out = []\<rparr>)"

section \<open>Starting\<close>

text \<open>\<open>GoStartHTTP\<close>: \<open>net.Listen\<close> is the parameter \<open>listen\<close>; the result is the listener.\<close>

definition GoStartHTTP ::
    "host_env \<Rightarrow> (string \<Rightarrow> string \<Rightarrow> go_error + 'ln) \<Rightarrow> ('r, 'v, 'w) Service \<Rightarrow> go_error + 'ln" where
  "GoStartHTTP env listen s =
     (let a = st_Arg (sv_Store s) in listen ''tcp'' (ConvertToZeroHost env a (arg_HTTPAddr a)))"

text \<open>
  The goroutine that joins: it tries again, ten seconds later, until it succeeds. \<open>n\<close> bounds the
  number of attempts looked at; the result is the number of failed attempts before the
  success.
\<close>

fun join_retry :: "nat \<Rightarrow> json_lib \<Rightarrow> ('v, 'w) Arg \<Rightarrow> http_world \<Rightarrow> (nat \<times> http_world) option" where
  "join_retry 0 js a w = None"
| "join_retry (Suc n) js a w =
     (case Arg_Join js a w of
        (None, w') \<Rightarrow> Some (0, w')
      | (Some err, w') \<Rightarrow> map_option (\<lambda>(k, w). (Suc k, w)) (join_retry n js a w'))"

text \<open>
  \<open>StartRaft\<close> waits for a leader and then for the log, each with its own events, ignores their
  errors and returns nil; \<^term>\<open>None\<close> while it waits.
\<close>

definition StartRaft ::
    "('r, 'v) store_env \<Rightarrow> 'r wait_event list \<Rightarrow> 'r wait_event list \<Rightarrow> ('r, 'v, 'w) Service \<Rightarrow>
     go_error option option \<times> ('r, 'v, 'w) Service" where
  "StartRaft E evs evs' s =
     (case WaitForLeader E evs (sv_Store s) of
        (None, st) \<Rightarrow> (None, s\<lparr>sv_Store := st\<rparr>)
      | (Some _, st) \<Rightarrow>
          (case WaitForApplied E 100000000000 evs' st of
             None \<Rightarrow> (None, s\<lparr>sv_Store := st\<rparr>)
           | Some _ \<Rightarrow> (Some None, s\<lparr>sv_Store := st\<rparr>)))"

definition StartAll ::
    "host_env \<Rightarrow> (string \<Rightarrow> string \<Rightarrow> go_error + 'ln) \<Rightarrow> ('r, 'v) store_env \<Rightarrow> 'r wait_event list \<Rightarrow>
     'r wait_event list \<Rightarrow> ('r, 'v, 'w) Service \<Rightarrow> go_error option option \<times> ('r, 'v, 'w) Service" where
  "StartAll env listen E evs evs' s =
     (case GoStartHTTP env listen s of
        Inl err \<Rightarrow> (Some (Some err), s)
      | Inr ln \<Rightarrow> StartRaft E evs evs' s)"

section \<open>Helpers\<close>

definition TimeoutDialer ::
    "(string \<Rightarrow> string \<Rightarrow> int \<Rightarrow> 'c \<times> go_error option) \<Rightarrow> ('c \<Rightarrow> int \<Rightarrow> go_error option) \<Rightarrow> int \<Rightarrow> int \<Rightarrow> int \<Rightarrow>
     string \<Rightarrow> string \<Rightarrow> 'c \<times> go_error option" where
  "TimeoutDialer dial setDeadline cTimeout rwTimeout now network addr =
     (case dial network addr cTimeout of
        (conn, Some err) \<Rightarrow> (conn, Some err)
      | (conn, None) \<Rightarrow> (conn, if rwTimeout > 0 then setDeadline conn (now + rwTimeout) else None))"

text \<open>\<open>Jsonify4Print\<close>: the encoding, the argument, without its escaped and plain quotes.\<close>

definition Jsonify4Print :: "string \<Rightarrow> string" where
  "Jsonify4Print v = str_RemoveAll [CHR 0x22] (str_RemoveAll [CHR 0x5C, CHR 0x22] v)"

section \<open>Properties\<close>

lemma WaitForApplied_some:
  "Expired \<in> set evs \<Longrightarrow> t \<noteq> 0 \<Longrightarrow> WaitForApplied E t evs s \<noteq> None"
  by (auto simp: WaitForApplied_def WaitForAppliedIndex_eq)

lemma WaitForLeader_some:
  "Expired \<in> set evs \<Longrightarrow> \<exists>r s'. WaitForLeader E evs s = (Some r, s') \<and> st_m s' = st_m s"
proof (induction E evs s rule: WaitForLeader.induct)
  case (2 E r evs s)
  have "st_m (joinNodesFromLeader E (s\<lparr>st_raft := r\<rparr>)) = st_m s"
    using same_core_joinNodes [of "s\<lparr>st_raft := r\<rparr>" E] by (simp add: same_core_def)
  with 2 show ?case by (cases "LeaderAddr E (s\<lparr>st_raft := r\<rparr>) = []") (auto simp: Let_def)
qed auto

text \<open>
  A service that starts comes up: \<open>StartAll\<close> returns the error of \<open>net.Listen\<close> at once; when the
  listener opens it returns nil as soon as both waits have seen their leader or log, or their
  timers have expired, whatever the waits themselves reported. The key-value map is not
  touched by starting.
\<close>

theorem StartAll_returns:
  assumes "Expired \<in> set evs" "Expired \<in> set evs'"
  shows "\<exists>s'. StartAll env listen E evs evs' s =
      (case listen ''tcp'' (ConvertToZeroHost env (st_Arg (sv_Store s)) (arg_HTTPAddr (st_Arg (sv_Store s)))) of
         Inl err \<Rightarrow> (Some (Some err), s) | Inr ln \<Rightarrow> (Some None, s')) \<and>
    st_m (sv_Store s') = st_m (sv_Store s)"
proof -
  obtain r st where l: "WaitForLeader E evs (sv_Store s) = (Some r, st)" "st_m st = st_m (sv_Store s)"
    using WaitForLeader_some [OF assms(1)] by blast
  have "WaitForApplied E 100000000000 evs' st \<noteq> None" using WaitForApplied_some [OF assms(2), of 100000000000 E st] by simp
  with l have "StartRaft E evs evs' s = (Some None, s\<lparr>sv_Store := st\<rparr>)" by (auto simp: StartRaft_def)
  with l(2) show ?thesis
    by (intro exI [of _ "s\<lparr>sv_Store := st\<rparr>"]) (simp add: StartAll_def GoStartHTTP_def Let_def split: sum.splits)
qed

theorem StartAll_returns_witness:
  "\<exists>s'. StartAll demo_env (\<lambda>_ a. Inr a) (demo_senv utc) [Tick demo_raft0, Expired] [Expired] demo_service =
     (Some None, s') \<and> st_m (sv_Store s') = Map.empty"
  using StartAll_returns [of "[Tick demo_raft0, Expired]" "[Expired]" demo_env "\<lambda>_ a. Inr a :: go_error + string"
      "demo_senv utc" demo_service]
  by (simp add: demo_service_def demo_store_def New_def)

end
