(* ===== verification/Loggers.thy ===== *)
theory Loggers
  imports Go_Time Go_Strings
begin

text \<open>
  The logging layer: \<open>logger.go\<close>, \<open>logrus.go\<close>, \<open>stdlog.go\<close> and the adapter for Raft's logger in
  \<open>store.go\<close>. A message is the text \<open>fmt.Sprintf\<close> made of the format and its data. The interface
  \<open>Logger\<close> is the locale \<open>leveled\<close>, interpreted on \<open>SLogger\<close>; \<open>logrus\<close> is a parameter.
\<close>

section \<open>Levels\<close>

type_synonym LogLevel = int

definition LogLevelDebug :: LogLevel where "LogLevelDebug = 0"
definition LogLevelInfo :: LogLevel where "LogLevelInfo = 1"
definition LogLevelWarn :: LogLevel where "LogLevelWarn = 2"
definition LogLevelError :: LogLevel where "LogLevelError = 3"

lemmas level_defs = LogLevelDebug_def LogLevelInfo_def LogLevelWarn_def LogLevelError_def

definition ParseLogLevel :: "string \<Rightarrow> LogLevel" where
  "ParseLogLevel l =
     (if l = ''debug'' then LogLevelDebug
      else if l = ''info'' then LogLevelInfo
      else if l = ''warn'' then LogLevelWarn
      else if l = ''error'' then LogLevelError
      else LogLevelInfo)"

definition LogLevel_String :: "LogLevel \<Rightarrow> string" where
  "LogLevel_String l =
     (if l = LogLevelDebug then ''debug''
      else if l = LogLevelInfo then ''info''
      else if l = LogLevelWarn then ''warn''
      else if l = LogLevelError then ''error''
      else ''unknown'')"

section \<open>The standard logger\<close>

record StdLogger =
  lg_PrintCallerInfo :: bool
  lg_Out :: "string list"

text \<open>
  \<open>lg_Out\<close> holds what each call of the writer was given. \<open>log_env\<close> is the moment of a call: the
  time zone, the clock, and what \<open>runtime.Caller\<close> answers.
\<close>

record log_env =
  le_loc :: "int \<Rightarrow> int"
  le_now :: int
  le_Caller :: "string \<times> int \<times> bool"

text \<open>Division of Go's \<open>int\<close> rounds towards zero, and a conversion to \<open>byte\<close> wraps.\<close>

definition go_quo :: "int \<Rightarrow> int \<Rightarrow> int" where
  "go_quo i k = (if i < 0 then - (- i div k) else i div k)"

definition go_byte :: "int \<Rightarrow> char" where
  "go_byte x = char_of (nat (x mod 256))"

text \<open>
  \<open>itoa\<close> fills an array of 20 bytes from its end; \<open>acc\<close> is the part filled so far, and an index
  below the array panics.
\<close>

function itoa_loop :: "string \<Rightarrow> int \<Rightarrow> int \<Rightarrow> string outcome" where
  "itoa_loop acc i wid =
     (if length acc \<ge> 20 then Panic ''runtime error: index out of range''
      else if i \<ge> 10 \<or> wid > 1 then
        let q = go_quo i 10 in itoa_loop (go_byte (48 + i - q * 10) # acc) q (wid - 1)
      else Ret (go_byte (48 + i) # acc))"
  by pat_completeness auto
termination by (relation "measure (\<lambda>(acc, _, _). 20 - length acc)") auto

declare itoa_loop.simps [simp del]

definition itoa :: "string \<Rightarrow> int \<Rightarrow> int \<Rightarrow> string outcome" where
  "itoa buf i wid = obind (itoa_loop [] i wid) (\<lambda>b. Ret (buf @ b))"

text \<open>The file name after the last slash, unless that slash is the first character.\<close>

fun short_loop :: "string \<Rightarrow> nat \<Rightarrow> string" where
  "short_loop file 0 = file"
| "short_loop file (Suc i) =
     (if file ! Suc i = CHR ''/'' then drop (Suc (Suc i)) file else short_loop file i)"

definition formatHeader ::
    "StdLogger \<Rightarrow> string \<Rightarrow> civil \<Rightarrow> string \<Rightarrow> int \<Rightarrow> string outcome" where
  "formatHeader l buf t file line =
     obind (itoa buf (cv_year t) 4) (\<lambda>buf.
     obind (itoa (buf @ ''-'') (int (cv_month t)) 2) (\<lambda>buf.
     obind (itoa (buf @ ''-'') (int (cv_day t)) 2) (\<lambda>buf.
     obind (itoa (buf @ '' '') (int (cv_hour t)) 2) (\<lambda>buf.
     obind (itoa (buf @ '':'') (int (cv_min t)) 2) (\<lambda>buf.
     obind (itoa (buf @ '':'') (int (cv_sec t)) 2) (\<lambda>buf.
     obind (itoa (buf @ ''.'') (int (cv_nsec t div 1000000)) 3) (\<lambda>buf.
       let buf = buf @ '' '' in
       if lg_PrintCallerInfo l then
         obind (itoa (buf @ short_loop file (length file - 1) @ '':'') line (- 1)) (\<lambda>buf. Ret (buf @ '' ''))
       else Ret buf)))))))"

text \<open>\<open>path.Base\<close>: the last element of a path.\<close>

definition path_Base :: "string \<Rightarrow> string" where
  "path_Base p =
     (if p = [] then ''.''
      else
        let q = bytes_TrimRight p ''/'' in
        if q = [] then ''/'' else rev (takeWhile (\<lambda>c. c \<noteq> CHR ''/'') (rev q)))"

definition Output :: "log_env \<Rightarrow> string \<Rightarrow> StdLogger \<Rightarrow> unit outcome \<times> StdLogger" where
  "Output v s l =
     (let (file, line) =
        (if lg_PrintCallerInfo l then
           (case le_Caller v of (file, line, ok) \<Rightarrow> (if ok then path_Base file else ''???'', line))
         else ([], 0))
      in case formatHeader l [] (wall_clock (le_loc v) (le_now v)) file line of
           Panic e \<Rightarrow> (Panic e, l)
         | Ret buf \<Rightarrow>
             let buf = buf @ s;
                 buf = (if length s = 0 \<or> s ! (length s - 1) \<noteq> CHR 0x0A then buf @ [CHR 0x0A] else buf)
             in (Ret (), l\<lparr>lg_Out := lg_Out l @ [buf]\<rparr>))"

text \<open>\<open>Print\<close> ignores the error of \<open>Output\<close>; \<open>NewStdLogger\<close> is given the flag \<open>viper\<close> holds.\<close>

definition Print :: "log_env \<Rightarrow> string \<Rightarrow> StdLogger \<Rightarrow> unit outcome \<times> StdLogger" where
  "Print v s l = Output v s l"

definition NewStdLogger :: "bool \<Rightarrow> StdLogger" where
  "NewStdLogger printCallerInfo = \<lparr>lg_PrintCallerInfo = printCallerInfo, lg_Out = []\<rparr>"

section \<open>The simplest logger\<close>

record SLogger =
  sl_Writer :: StdLogger
  sl_Level :: LogLevel

definition NewSLogger :: "bool \<Rightarrow> SLogger" where
  "NewSLogger printCallerInfo =
     \<lparr>sl_Writer = NewStdLogger printCallerInfo, sl_Level = LogLevelInfo\<rparr>"

definition SetLogLevel :: "LogLevel \<Rightarrow> SLogger \<Rightarrow> SLogger" where
  "SetLogLevel level l = l\<lparr>sl_Level := level\<rparr>"

definition GetLogLevel :: "SLogger \<Rightarrow> LogLevel" where
  "GetLogLevel l = sl_Level l"

definition Logf :: "log_env \<Rightarrow> LogLevel \<Rightarrow> string \<Rightarrow> SLogger \<Rightarrow> unit outcome \<times> SLogger" where
  "Logf v level msg l =
     (if sl_Level l \<le> level then
        let (r, wr) = Print v (''['' @ LogLevel_String level @ ''] '' @ msg) (sl_Writer l)
        in (r, l\<lparr>sl_Writer := wr\<rparr>)
      else (Ret (), l))"

section \<open>Adapters\<close>

text \<open>\<open>LevelLoggerAdapter\<close>: the methods over any \<open>Logf\<close>, the parameter \<open>lf\<close>.\<close>

definition Debugf :: "(LogLevel \<Rightarrow> 'm \<Rightarrow> 'l \<Rightarrow> unit outcome \<times> 'l) \<Rightarrow> 'm \<Rightarrow> 'l \<Rightarrow> unit outcome \<times> 'l" where
  "Debugf lf msg = lf LogLevelDebug msg"

definition Printf :: "(LogLevel \<Rightarrow> 'm \<Rightarrow> 'l \<Rightarrow> unit outcome \<times> 'l) \<Rightarrow> 'm \<Rightarrow> 'l \<Rightarrow> unit outcome \<times> 'l" where
  "Printf lf msg = lf LogLevelInfo msg"

definition Infof :: "(LogLevel \<Rightarrow> 'm \<Rightarrow> 'l \<Rightarrow> unit outcome \<times> 'l) \<Rightarrow> 'm \<Rightarrow> 'l \<Rightarrow> unit outcome \<times> 'l" where
  "Infof lf msg = lf LogLevelInfo msg"

definition Warnf :: "(LogLevel \<Rightarrow> 'm \<Rightarrow> 'l \<Rightarrow> unit outcome \<times> 'l) \<Rightarrow> 'm \<Rightarrow> 'l \<Rightarrow> unit outcome \<times> 'l" where
  "Warnf lf msg = lf LogLevelWarn msg"

definition Errorf :: "(LogLevel \<Rightarrow> 'm \<Rightarrow> 'l \<Rightarrow> unit outcome \<times> 'l) \<Rightarrow> 'm \<Rightarrow> 'l \<Rightarrow> unit outcome \<times> 'l" where
  "Errorf lf msg = lf LogLevelError msg"

definition Panicf ::
    "(LogLevel \<Rightarrow> string \<Rightarrow> 'l \<Rightarrow> unit outcome \<times> 'l) \<Rightarrow> string \<Rightarrow> 'l \<Rightarrow> unit outcome \<times> 'l" where
  "Panicf lf msg l =
     (case lf LogLevelError msg l of
        (Panic e, l') \<Rightarrow> (Panic e, l')
      | (Ret _, l') \<Rightarrow> (Panic msg, l'))"

text \<open>\<open>hclogLogger\<close>: Raft's logger interface over a \<open>LoggerMore\<close>.\<close>

datatype hclog_level = NoLevel | TraceLevel | DebugLevel | InfoLevel | WarnLevel | ErrorLevel | OtherLevel

record 'a hclogLogger =
  hc_args :: "'a list"
  hc_name :: string

definition convertLevel :: "hclog_level \<Rightarrow> LogLevel" where
  "convertLevel level =
     (case level of
        TraceLevel \<Rightarrow> LogLevelDebug
      | DebugLevel \<Rightarrow> LogLevelDebug
      | NoLevel \<Rightarrow> LogLevelInfo
      | InfoLevel \<Rightarrow> LogLevelInfo
      | WarnLevel \<Rightarrow> LogLevelWarn
      | ErrorLevel \<Rightarrow> LogLevelError
      | OtherLevel \<Rightarrow> LogLevelInfo)"

definition hc_Log ::
    "(LogLevel \<Rightarrow> 'm \<Rightarrow> 'l \<Rightarrow> unit outcome \<times> 'l) \<Rightarrow> hclog_level \<Rightarrow> 'm \<Rightarrow> 'l \<Rightarrow> unit outcome \<times> 'l" where
  "hc_Log lf level msg = lf (convertLevel level) msg"

definition IsTrace :: "('l \<Rightarrow> LogLevel) \<Rightarrow> 'l \<Rightarrow> bool" where
  "IsTrace get l = False"

definition IsDebug :: "('l \<Rightarrow> LogLevel) \<Rightarrow> 'l \<Rightarrow> bool" where
  "IsDebug get l = (get l \<le> LogLevelDebug)"

definition IsInfo :: "('l \<Rightarrow> LogLevel) \<Rightarrow> 'l \<Rightarrow> bool" where
  "IsInfo get l = (get l \<le> LogLevelInfo)"

definition IsWarn :: "('l \<Rightarrow> LogLevel) \<Rightarrow> 'l \<Rightarrow> bool" where
  "IsWarn get l = (get l \<le> LogLevelWarn)"

definition IsError :: "('l \<Rightarrow> LogLevel) \<Rightarrow> 'l \<Rightarrow> bool" where
  "IsError get l = (get l \<le> LogLevelError)"

definition hc_With :: "'a list \<Rightarrow> 'a hclogLogger \<Rightarrow> 'a hclogLogger" where
  "hc_With args h = h\<lparr>hc_args := args\<rparr>"

definition hc_Named :: "string \<Rightarrow> 'a hclogLogger \<Rightarrow> 'a hclogLogger" where
  "hc_Named name h = h\<lparr>hc_name := name @ hc_name h\<rparr>"

definition hc_ResetNamed :: "string \<Rightarrow> 'a hclogLogger \<Rightarrow> 'a hclogLogger" where
  "hc_ResetNamed name h = h\<lparr>hc_name := name\<rparr>"

definition ImpliedArgs :: "'a hclogLogger \<Rightarrow> 'a list" where
  "ImpliedArgs h = hc_args h"

definition Name :: "'a hclogLogger \<Rightarrow> string" where
  "Name h = hc_name h"

text \<open>\<open>Trace\<close> prints nothing.\<close>

definition hc_Trace :: "string \<Rightarrow> 'a list \<Rightarrow> 'l \<Rightarrow> 'l" where
  "hc_Trace msg args l = l"

definition hc_SetLevel :: "(LogLevel \<Rightarrow> 'l \<Rightarrow> 'l) \<Rightarrow> hclog_level \<Rightarrow> 'l \<Rightarrow> 'l" where
  "hc_SetLevel set_level level l = set_level (convertLevel level) l"

text \<open>
  \<open>stdlogAdapter\<close>: slicing \<open>str[n:]\<close> panics when the string is shorter. \<open>Write\<close> of the adapter
  trims the line, guesses its level and calls \<open>Logf\<close> with what is left as the format and no data: the
  parameter \<open>lf\<close> of \<open>stdlog_Write\<close> is \<open>Logf\<close> so called, and what formatting makes of a \<open>%\<close> in the line is up to it.
\<close>

definition str_from :: "string \<Rightarrow> nat \<Rightarrow> string outcome" where
  "str_from s n = (if n \<le> length s then Ret (drop n s) else Panic ''runtime error: slice bounds out of range'')"

definition pickLevel :: "string \<Rightarrow> (LogLevel \<times> string) outcome" where
  "pickLevel s =
     (if str_HasPrefix s ''[DEBUG]'' then obind (str_from s 7) (\<lambda>r. Ret (LogLevelDebug, str_TrimSpace r))
      else if str_HasPrefix s ''[TRACE]'' then obind (str_from s 7) (\<lambda>r. Ret (LogLevelDebug, str_TrimSpace r))
      else if str_HasPrefix s ''[INFO]'' then obind (str_from s 6) (\<lambda>r. Ret (LogLevelInfo, str_TrimSpace r))
      else if str_HasPrefix s ''[WARN]'' then obind (str_from s 7) (\<lambda>r. Ret (LogLevelWarn, str_TrimSpace r))
      else if str_HasPrefix s ''[ERROR]'' then obind (str_from s 7) (\<lambda>r. Ret (LogLevelError, str_TrimSpace r))
      else if str_HasPrefix s ''[ERR]'' then obind (str_from s 5) (\<lambda>r. Ret (LogLevelError, str_TrimSpace r))
      else Ret (LogLevelInfo, s))"

definition stdlog_Write ::
    "(LogLevel \<Rightarrow> string \<Rightarrow> 'l \<Rightarrow> unit outcome \<times> 'l) \<Rightarrow> string \<Rightarrow> 'l \<Rightarrow> nat outcome \<times> 'l" where
  "stdlog_Write lf data l =
     (case pickLevel (bytes_TrimRight data [CHR '' '', CHR 0x09, CHR 0x0A]) of
        Panic e \<Rightarrow> (Panic e, l)
      | Ret (level, str) \<Rightarrow>
          (case lf level str l of
             (Panic e, l') \<Rightarrow> (Panic e, l')
           | (Ret _, l') \<Rightarrow> (Ret (length data), l')))"

text \<open>
  \<open>StandardWriter\<close> and \<open>StandardLogger\<close>: the adapter over the logger itself, with the flag of the options
  (absent options are empty ones). \<open>Write\<close> never looks at the flag.
\<close>

record stdlogAdapter =
  sa_inferLevels :: bool

definition StandardWriter :: "bool \<Rightarrow> stdlogAdapter" where
  "StandardWriter inferLevels = \<lparr>sa_inferLevels = inferLevels\<rparr>"

definition StandardLogger :: "bool option \<Rightarrow> stdlogAdapter" where
  "StandardLogger opts = StandardWriter (case opts of None \<Rightarrow> False | Some inferLevels \<Rightarrow> inferLevels)"

text \<open>\<open>LogrusAdapter\<close>: \<open>logrus\<close> is given by its parser and printer of levels and the logger state.\<close>

record ('v, 'l) logrus_lib =
  lr_ParseLevel :: "string \<Rightarrow> 'v option"
  lr_String :: "'v \<Rightarrow> string"
  lr_InfoLevel :: 'v
  lr_SetLevel :: "'v \<Rightarrow> 'l \<Rightarrow> 'l"
  lr_Level :: "'l \<Rightarrow> 'v"
  lr_Logf :: "'v \<Rightarrow> string \<Rightarrow> 'l \<Rightarrow> unit outcome \<times> 'l"

definition logrus_level :: "('v, 'l) logrus_lib \<Rightarrow> LogLevel \<Rightarrow> 'v" where
  "logrus_level R logLevel =
     (case lr_ParseLevel R (LogLevel_String logLevel) of None \<Rightarrow> lr_InfoLevel R | Some level \<Rightarrow> level)"

definition Logrus_SetLogLevel :: "('v, 'l) logrus_lib \<Rightarrow> LogLevel \<Rightarrow> 'l \<Rightarrow> 'l" where
  "Logrus_SetLogLevel R logLevel l = lr_SetLevel R (logrus_level R logLevel) l"

definition Logrus_GetLogLevel :: "('v, 'l) logrus_lib \<Rightarrow> 'l \<Rightarrow> LogLevel" where
  "Logrus_GetLogLevel R l = ParseLogLevel (lr_String R (lr_Level R l))"

definition Logrus_Logf :: "('v, 'l) logrus_lib \<Rightarrow> LogLevel \<Rightarrow> string \<Rightarrow> 'l \<Rightarrow> unit outcome \<times> 'l" where
  "Logrus_Logf R logLevel msg l = lr_Logf R (logrus_level R logLevel) msg l"

section \<open>The contract of a levelled logger\<close>

text \<open>
  A message below the level is dropped, any other is written as one line; writing does not
  change the level. \<open>fits\<close> says that a message can be printed at all.
\<close>

locale leveled =
  fixes set_level :: "LogLevel \<Rightarrow> 'l \<Rightarrow> 'l"
    and get_level :: "'l \<Rightarrow> LogLevel"
    and logf :: "LogLevel \<Rightarrow> 'm \<Rightarrow> 'l \<Rightarrow> unit outcome \<times> 'l"
    and written :: "'l \<Rightarrow> 'o list"
    and line :: "LogLevel \<Rightarrow> 'm \<Rightarrow> 'o"
    and fits :: "'l \<Rightarrow> 'm \<Rightarrow> bool"
  assumes get_set: "get_level (set_level n l) = n"
    and written_set: "written (set_level n l) = written l"
    and fits_set: "fits (set_level n l) m = fits l m"
    and below: "n < get_level l \<Longrightarrow> logf n m l = (Ret (), l)"
    and above: "get_level l \<le> n \<Longrightarrow> fits l m \<Longrightarrow> \<exists>l'. logf n m l = (Ret (), l') \<and>
      written l' = written l @ [line n m] \<and> get_level l' = get_level l \<and> fits l' = fits l"
begin

primrec log_all :: "(LogLevel \<times> 'm) list \<Rightarrow> 'l \<Rightarrow> unit outcome \<times> 'l" where
  "log_all [] l = (Ret (), l)"
| "log_all (e # es) l =
     (case logf (fst e) (snd e) l of (Ret _, l') \<Rightarrow> log_all es l' | (Panic x, l') \<Rightarrow> (Panic x, l'))"

lemma log_all_written:
  "\<forall>e \<in> set es. fits l (snd e) \<Longrightarrow>
   \<exists>l'. log_all es l = (Ret (), l') \<and> get_level l' = get_level l \<and>
     written l' = written l @ map (\<lambda>e. line (fst e) (snd e)) (filter (\<lambda>e. get_level l \<le> fst e) es)"
proof (induction es arbitrary: l)
  case (Cons e es)
  show ?case
  proof (cases "get_level l \<le> fst e")
    case True
    with above [OF True, of "snd e"] Cons.prems obtain l1 where
      l1: "logf (fst e) (snd e) l = (Ret (), l1)" "written l1 = written l @ [line (fst e) (snd e)]"
        "get_level l1 = get_level l" "fits l1 = fits l" by auto
    with Cons.IH [of l1] Cons.prems True show ?thesis by auto
  next
    case False
    with below [of "fst e" l "snd e"] Cons show ?thesis by auto
  qed
qed simp

text \<open>Raft's logger: after its level is set, exactly the messages at that level or above appear.\<close>

lemma hclog_written:
  assumes "\<forall>e \<in> set es. fits l (snd e)"
  shows "\<exists>l'. log_all (map (\<lambda>e. (convertLevel (fst e), snd e)) es) (hc_SetLevel set_level h0 l) = (Ret (), l') \<and>
    written l' = written l @
      map (\<lambda>e. line (convertLevel (fst e)) (snd e)) (filter (\<lambda>e. convertLevel h0 \<le> convertLevel (fst e)) es)"
proof -
  have "\<forall>e \<in> set (map (\<lambda>e. (convertLevel (fst e), snd e)) es). fits (hc_SetLevel set_level h0 l) (snd e)"
    using assms by (auto simp: hc_SetLevel_def fits_set)
  from log_all_written [OF this] show ?thesis
    by (auto simp: hc_SetLevel_def get_set written_set filter_map comp_def)
qed

end

section \<open>The order of Raft's levels\<close>

text \<open>\<open>hclog\<close> numbers its levels; the conversion keeps that order for the five named ones.\<close>

primrec hclog_rank :: "hclog_level \<Rightarrow> nat" where
  "hclog_rank NoLevel = 0"
| "hclog_rank TraceLevel = 1"
| "hclog_rank DebugLevel = 2"
| "hclog_rank InfoLevel = 3"
| "hclog_rank WarnLevel = 4"
| "hclog_rank ErrorLevel = 5"
| "hclog_rank OtherLevel = 6"

lemma hclog_rank_inj: "hclog_rank a = hclog_rank b \<longleftrightarrow> a = b"
  by (cases a; cases b) simp_all

instantiation hclog_level :: linorder
begin

definition less_eq_hclog_level :: "hclog_level \<Rightarrow> hclog_level \<Rightarrow> bool" where
  "less_eq_hclog_level a b = (hclog_rank a \<le> hclog_rank b)"

definition less_hclog_level :: "hclog_level \<Rightarrow> hclog_level \<Rightarrow> bool" where
  "less_hclog_level a b = (hclog_rank a < hclog_rank b)"

instance
  by intro_classes (auto simp: less_eq_hclog_level_def less_hclog_level_def hclog_rank_inj [symmetric])

end

lemma convertLevel_mono:
  assumes "a \<le> b" "TraceLevel \<le> a" "b \<le> ErrorLevel"
  shows "convertLevel a \<le> convertLevel b"
  using assms
  by (cases a; cases b) (simp_all add: less_eq_hclog_level_def convertLevel_def level_defs)

section \<open>The header of a line is a formatted time\<close>

lemma go_byte_digit: "d < 10 \<Longrightarrow> go_byte (48 + int d) = digit_char d"
  by (drule less_10_cases) (auto simp: go_byte_def digit_char_def char_of_eq_iff take_bit_eq_mod)

lemma itoa_loop_pad:
  "0 < w \<Longrightarrow> n < 10 ^ w \<Longrightarrow> length acc + w \<le> 20 \<Longrightarrow>
   itoa_loop acc (int n) (int w) = Ret (pad_dec w n @ acc)"
proof (induction w arbitrary: n acc)
  case (Suc w)
  show ?case
  proof (cases "w = 0")
    case True
    with Suc.prems show ?thesis
      by (simp add: itoa_loop.simps [of acc] pad_dec_1 go_byte_digit)
  next
    case False
    have q: "go_quo (int n) 10 = int (n div 10)" by (simp add: go_quo_def zdiv_int)
    have "48 + int n - int (n div 10) * 10 = 48 + int (n mod 10)" by (simp add: zdiv_int zmod_int minus_div_mult_eq_mod [symmetric])
    then have b: "go_byte (48 + int n - int (n div 10) * 10) = digit_char (n mod 10)"
      by (simp only: go_byte_digit [of "n mod 10"] mod_less_divisor)
    have "n div 10 < 10 ^ w" using Suc.prems(2) by (simp add: less_mult_imp_div_less mult.commute)
    with Suc.IH [of "n div 10" "digit_char (n mod 10) # acc"] Suc.prems False show ?thesis
      by (subst itoa_loop.simps) (simp add: q b Let_def pad_dec_Suc)
  qed
qed simp

lemma itoa_pad:
  assumes "n < 10 ^ w" "0 < w" "w \<le> 20" "k = int w"
  shows "itoa buf (int n) k = Ret (buf @ pad_dec w n)"
  using itoa_loop_pad [of w n "[]"] assms by (simp add: itoa_def)

lemma itoa_widths:
  "n < 100 \<Longrightarrow> itoa buf (int n) 2 = Ret (buf @ pad_dec 2 n)"
  "n < 1000 \<Longrightarrow> itoa buf (int n) 3 = Ret (buf @ pad_dec 3 n)"
  "n < 10000 \<Longrightarrow> itoa buf (int n) 4 = Ret (buf @ pad_dec 4 n)"
  by (auto intro: itoa_pad)

lemma formatHeader_civil:
  assumes "civil_ok t" "year_ok t" "\<not> lg_PrintCallerInfo l"
  shows "formatHeader l buf t file line = Ret (buf @ format_civil t @ '' '')"
proof -
  obtain y where y: "cv_year t = int y" "y < 10000"
    using assms(2) by (intro that [of "nat (cv_year t)"]) (auto simp: year_ok_def)
  have py: "pad_year (int y) = pad_dec 4 y" by (simp add: pad_year_def)
  have d: "cv_month t < 100" "cv_day t < 100" "cv_hour t < 100" "cv_min t < 100" "cv_sec t < 100"
      "cv_nsec t div 1000000 < 1000"
    using assms(1) days_in_bound [of "cv_month t" "cv_year t"] by (auto simp: civil_ok_def less_mult_imp_div_less)
  show ?thesis
    using assms(3)
    by (simp add: formatHeader_def format_civil_def y(1) py itoa_widths(1) [OF d(1)] itoa_widths(1) [OF d(2)]
        itoa_widths(1) [OF d(3)] itoa_widths(1) [OF d(4)] itoa_widths(1) [OF d(5)] itoa_widths(2) [OF d(6)]
        itoa_widths(3) [OF y(2)] del: of_nat_div)
qed

text \<open>The line \<open>Output\<close> writes for a message.\<close>

definition log_line :: "log_env \<Rightarrow> string \<Rightarrow> string" where
  "log_line v s =
     FormatTime (le_loc v) (le_now v) @ '' '' @ s @ (if s = [] \<or> last s \<noteq> CHR 0x0A then [CHR 0x0A] else [])"

lemma Output_line:
  assumes "clock_ok (le_loc v) (le_now v)" "\<not> lg_PrintCallerInfo l"
  shows "Output v s l = (Ret (), l\<lparr>lg_Out := lg_Out l @ [log_line v s]\<rparr>)"
proof -
  have "civil_ok (wall_clock (le_loc v) (le_now v))" unfolding wall_clock_def by (rule civil_ok_civil_of)
  from formatHeader_civil [OF this _ assms(2)] assms(1)
  have h: "formatHeader l [] (wall_clock (le_loc v) (le_now v)) [] 0 = Ret (FormatTime (le_loc v) (le_now v) @ '' '')"
    by (simp add: clock_ok_def FormatTime_def)
  show ?thesis
    using assms(2) by (auto simp: Output_def h log_line_def last_conv_nth Let_def)
qed

section \<open>The simplest logger keeps the contract\<close>

definition level_line :: "LogLevel \<Rightarrow> log_env \<times> string \<Rightarrow> string" where
  "level_line n m = log_line (fst m) (''['' @ LogLevel_String n @ ''] '' @ snd m)"

definition msg_fits :: "SLogger \<Rightarrow> log_env \<times> string \<Rightarrow> bool" where
  "msg_fits l m \<longleftrightarrow> \<not> lg_PrintCallerInfo (sl_Writer l) \<and> clock_ok (le_loc (fst m)) (le_now (fst m))"

interpretation slog: leveled SetLogLevel GetLogLevel "\<lambda>n m. Logf (fst m) n (snd m)"
    "\<lambda>l. lg_Out (sl_Writer l)" level_line msg_fits
  by unfold_locales
    (auto simp: SetLogLevel_def GetLogLevel_def Logf_def Print_def level_line_def msg_fits_def Output_line fun_eq_iff)

section \<open>Properties\<close>

text \<open>
  Raft's log output is filtered by level: after \<open>SetLevel\<close> on the logger handed to Raft, a
  sequence of messages makes \<open>SLogger\<close> write exactly one line for each message whose level is
  at least the one set, in order, and nothing else. Each line is the local time in the
  layout of \<open>FormatTime\<close>, a space, the level in brackets and the message, and ends with a
  newline.
\<close>

theorem hclog_filters:
  assumes "\<forall>(h, v, m) \<in> set es. clock_ok (le_loc v) (le_now v)" "\<not> lg_PrintCallerInfo (sl_Writer l)"
  shows "lg_Out (sl_Writer
      (fold (\<lambda>(h, v, m) l. snd (hc_Log (Logf v) h m l)) es (hc_SetLevel SetLogLevel h0 l))) =
    lg_Out (sl_Writer l) @
      map (\<lambda>(h, v, m). log_line v (''['' @ LogLevel_String (convertLevel h) @ ''] '' @ m))
        (filter (\<lambda>(h, v, m). convertLevel h0 \<le> convertLevel h) es)"
proof -
  have run: "slog.log_all (map (\<lambda>e. (convertLevel (fst e), snd e)) es) x = (Ret (), y) \<Longrightarrow>
      fold (\<lambda>(h, v, m) l. snd (hc_Log (Logf v) h m l)) es x = y" for x y
    by (induction es arbitrary: x) (auto simp: hc_Log_def split: prod.splits outcome.splits)
  have "\<forall>e \<in> set es. msg_fits l (snd e)" using assms by (auto simp: msg_fits_def)
  from slog.hclog_written [OF this, of h0] obtain l' where
    l': "slog.log_all (map (\<lambda>e. (convertLevel (fst e), snd e)) es) (hc_SetLevel SetLogLevel h0 l) = (Ret (), l')"
      "lg_Out (sl_Writer l') = lg_Out (sl_Writer l) @ map (\<lambda>e. level_line (convertLevel (fst e)) (snd e))
         (filter (\<lambda>e. convertLevel h0 \<le> convertLevel (fst e)) es)" by blast
  show ?thesis unfolding run [OF l'(1)] l'(2) same_append_eq by (induction es) (auto simp: level_line_def)
qed

theorem hclog_filters_witness:
  "lg_Out (sl_Writer (fold (\<lambda>(h, v, m) l. snd (hc_Log (Logf v) h m l))
      [(DebugLevel, \<lparr>le_loc = \<lambda>_. 0, le_now = 0, le_Caller = ([], 0, False)\<rparr>, ''a''),
       (ErrorLevel, \<lparr>le_loc = \<lambda>_. 0, le_now = 0, le_Caller = ([], 0, False)\<rparr>, ''b'')]
      (hc_SetLevel SetLogLevel WarnLevel (NewSLogger False)))) =
    [FormatTime (\<lambda>_. 0) 0 @ '' [error] b'' @ [CHR 0x0A]]"
proof -
  have "clock_ok (\<lambda>_. 0) 0"
    by (simp add: clock_ok_def year_ok_def wall_clock_def cv_year_civil_of year_yday_def Let_def)
  with hclog_filters [of "[(DebugLevel, \<lparr>le_loc = \<lambda>_. 0, le_now = 0, le_Caller = ([], 0, False)\<rparr>, ''a''),
       (ErrorLevel, \<lparr>le_loc = \<lambda>_. 0, le_now = 0, le_Caller = ([], 0, False)\<rparr>, ''b'')]" "NewSLogger False" WarnLevel]
  show ?thesis
    by (simp add: NewSLogger_def NewStdLogger_def log_line_def convertLevel_def level_defs LogLevel_String_def)
qed

text \<open>
  Levels survive printing and parsing: each of the four levels is read back from its name, and
  any other name stands for the info level.
\<close>

theorem ParseLogLevel_String:
  "ParseLogLevel (LogLevel_String l) =
     (if l \<in> {LogLevelDebug, LogLevelInfo, LogLevelWarn, LogLevelError} then l else LogLevelInfo)"
  by (simp add: ParseLogLevel_def LogLevel_String_def level_defs)

text \<open>
  A line of the form \<open>[WARN]text\<close> loses its first character, and the bare line \<open>[WARN]\<close> makes
  the adapter panic: \<open>pickLevel\<close> skips seven characters after a prefix of six. A line with the
  other prefixes keeps its text.
\<close>

theorem pickLevel_WARN:
  "pickLevel (''[WARN]'' @ c # s) = Ret (LogLevelWarn, str_TrimSpace s) \<and>
   pickLevel ''[WARN]'' = Panic ''runtime error: slice bounds out of range'' \<and>
   pickLevel (''[INFO]'' @ s) = Ret (LogLevelInfo, str_TrimSpace s) \<and>
   pickLevel (''[DEBUG]'' @ s) = Ret (LogLevelDebug, str_TrimSpace s) \<and>
   pickLevel (''[ERROR]'' @ s) = Ret (LogLevelError, str_TrimSpace s) \<and>
   pickLevel (''[ERR]'' @ s) = Ret (LogLevelError, str_TrimSpace s)"
  by (simp add: pickLevel_def str_from_def str_HasPrefix_def)

text \<open>
  With \<open>logrus\<close>, whose warning level prints as ``warning'', the level does not read back: after
  \<open>SetLogLevel(warn)\<close>, \<open>GetLogLevel\<close> reports info.
\<close>

theorem Logrus_warn_reads_info:
  assumes "lr_ParseLevel R ''warn'' = Some wl" "lr_String R wl = ''warning''"
    and "lr_Level R (lr_SetLevel R wl l) = wl"
  shows "Logrus_GetLogLevel R (Logrus_SetLogLevel R LogLevelWarn l) = LogLevelInfo"
  using assms
  by (simp add: Logrus_GetLogLevel_def Logrus_SetLogLevel_def logrus_level_def LogLevel_String_def
      ParseLogLevel_def level_defs)

definition demo_logrus :: "(nat, nat) logrus_lib" where
  "demo_logrus = \<lparr>lr_ParseLevel = (\<lambda>t. if t = ''warn'' \<or> t = ''warning'' then Some 3 else if t = ''info'' then Some 4 else None),
     lr_String = (\<lambda>v. if v = 3 then ''warning'' else ''info''), lr_InfoLevel = 4,
     lr_SetLevel = (\<lambda>v l. v), lr_Level = (\<lambda>l. l), lr_Logf = (\<lambda>_ _ l. (Ret (), l))\<rparr>"

theorem Logrus_warn_reads_info_witness:
  "Logrus_GetLogLevel demo_logrus (Logrus_SetLogLevel demo_logrus LogLevelWarn 4) = LogLevelInfo"
  by (rule Logrus_warn_reads_info [of _ 3]) (simp_all add: demo_logrus_def)

end
