(* ===== verification/Ticker.thy ===== *)
theory Ticker
  imports Go_Prelude
begin

text \<open>
  \<open>ticker.go\<close>: a ticker runs its functions on every tick in goroutines of its own until its stop
  channel is closed. The functions are opaque values of type \<open>'f\<close>; \<open>tk_log\<close> records the order in
  which they were called. The goroutines interleave: the system is the step relation \<open>tstep\<close>.
\<close>

section \<open>The ticker\<close>

text \<open>A run is a goroutine of \<open>start\<close>: launched, in its loop, or returned.\<close>

datatype run = Launched | Looping | Returned

record 'f Ticker =
  tk_closed :: bool
  tk_fns :: "'f list"
  tk_startInstantly :: bool
  tk_runs :: "run list"
  tk_log :: "'f list"

text \<open>Both constructors skip nil functions (\<^term>\<open>None\<close>).\<close>

fun add_fns :: "'f option list \<Rightarrow> 'f list \<Rightarrow> 'f list" where
  "add_fns [] fns = fns"
| "add_fns (fn # tickerFns) fns = add_fns tickerFns (case fn of None \<Rightarrow> fns | Some f \<Rightarrow> fns @ [f])"

definition NewTicker :: "bool \<Rightarrow> 'f option list \<Rightarrow> 'f Ticker" where
  "NewTicker startInstantly tickerFns =
     \<lparr>tk_closed = False, tk_fns = add_fns tickerFns [], tk_startInstantly = startInstantly,
      tk_runs = [], tk_log = []\<rparr>"

definition StartAsync :: "'f option list \<Rightarrow> 'f Ticker \<Rightarrow> 'f Ticker" where
  "StartAsync tickerFns j =
     (let j = (if length tickerFns > 0 then j\<lparr>tk_fns := add_fns tickerFns []\<rparr> else j)
      in j\<lparr>tk_runs := tk_runs j @ [Launched]\<rparr>)"

text \<open>Closing a closed channel panics.\<close>

definition StopAsync :: "'f Ticker \<Rightarrow> unit outcome \<times> 'f Ticker" where
  "StopAsync j =
     (if tk_closed j then (Panic ''close of closed channel'', j) else (Ret (), j\<lparr>tk_closed := True\<rparr>))"

definition execFns :: "'f Ticker \<Rightarrow> 'f Ticker" where
  "execFns j = j\<lparr>tk_log := tk_log j @ tk_fns j\<rparr>"

section \<open>The steps of the system\<close>

text \<open>
  What can happen next: the owner starts or stops the ticker; goroutine \<open>i\<close> begins; its timer
  ticks; or it sees the closed channel and returns. While a tick and the closed channel are
  both ready, Go's \<open>select\<close> may take either, so a tick stays possible after the stop.
\<close>

inductive tstep :: "'f Ticker \<Rightarrow> 'f Ticker \<Rightarrow> bool" where
  start: "tstep j (StartAsync tickerFns j)"
| stop: "StopAsync j = (Ret (), j') \<Longrightarrow> tstep j j'"
| begin_run: "i < length (tk_runs j) \<Longrightarrow> tk_runs j ! i = Launched \<Longrightarrow>
    tstep j ((if tk_startInstantly j then execFns j else j)\<lparr>tk_runs := (tk_runs j)[i := Looping]\<rparr>)"
| tick: "i < length (tk_runs j) \<Longrightarrow> tk_runs j ! i = Looping \<Longrightarrow> tstep j (execFns j)"
| finish: "i < length (tk_runs j) \<Longrightarrow> tk_runs j ! i = Looping \<Longrightarrow> tk_closed j \<Longrightarrow>
    tstep j (j\<lparr>tk_runs := (tk_runs j)[i := Returned]\<rparr>)"

text \<open>The states a ticker reaches that is never given new functions after its creation.\<close>

inductive treach :: "'f Ticker \<Rightarrow> 'f Ticker \<Rightarrow> bool" where
  init: "treach j j"
| step: "treach j j' \<Longrightarrow> tstep j' j'' \<Longrightarrow> tk_fns j'' = tk_fns j' \<Longrightarrow> treach j j''"

inductive_cases tstepE [elim!]: "tstep j j'"

section \<open>Facts\<close>

lemma add_fns_eq: "add_fns tickerFns fns = fns @ List.map_filter (\<lambda>x. x) tickerFns"
  by (induction tickerFns arbitrary: fns) (auto simp: map_filter_simps split: option.splits)

lemma StopAsync_Ret: "StopAsync j = (Ret (), j') \<longleftrightarrow> \<not> tk_closed j \<and> j' = j\<lparr>tk_closed := True\<rparr>"
  by (auto simp: StopAsync_def)

text \<open>A goroutine only returns after the stop, and the channel stays closed.\<close>

definition returned_ok :: "'f Ticker \<Rightarrow> bool" where
  "returned_ok j \<longleftrightarrow> (Returned \<in> set (tk_runs j) \<longrightarrow> tk_closed j)"

lemma returned_ok_step: "tstep j j' \<Longrightarrow> returned_ok j \<Longrightarrow> returned_ok j'"
  by (auto simp: returned_ok_def StartAsync_def StopAsync_Ret execFns_def Let_def
      dest: subsetD [OF set_update_subset_insert])

section \<open>Properties\<close>

lemma treach_inv:
  assumes "treach j0 j" "returned_ok j0" "tk_log j0 = []"
  shows "tk_fns j = tk_fns j0 \<and> returned_ok j \<and> (\<exists>n. tk_log j = concat (replicate n (tk_fns j0)))"
  using assms
proof (induction rule: treach.induct)
  case (init j)
  then show ?case by (auto intro: exI [of _ 0])
next
  case (step j j' j'')
  then obtain n where n: "tk_fns j' = tk_fns j" "returned_ok j'" "tk_log j' = concat (replicate n (tk_fns j))"
    by blast
  have "tk_log j'' = tk_log j' \<or> tk_log j'' = tk_log j' @ tk_fns j'"
    using step.hyps(2) by (auto simp: StartAsync_def StopAsync_Ret execFns_def Let_def)
  moreover have "concat (replicate n xs) @ xs = concat (replicate (Suc n) xs)" for xs :: "'a list"
    by (induction n) simp_all
  ultimately have "\<exists>n. tk_log j'' = concat (replicate n (tk_fns j))" using n by metis
  with n step.hyps(3) returned_ok_step [OF step.hyps(2)] show ?case by simp
qed

text \<open>
  The life of a ticker: in every state it can reach, the functions called so far are a
  sequence of whole rounds, each the non-nil functions of some start in their order (here of
  a ticker that is started without new functions); no goroutine has returned unless the
  ticker was stopped; and stopping a stopped ticker panics, whatever happened in between.
\<close>

theorem Ticker_rounds:
  assumes "treach (NewTicker startInstantly tickerFns) j"
  shows "(\<exists>n. tk_log j = concat (replicate n (List.map_filter (\<lambda>x. x) tickerFns))) \<and>
    (Returned \<in> set (tk_runs j) \<longrightarrow> StopAsync j = (Panic ''close of closed channel'', j))"
proof -
  have "returned_ok (NewTicker startInstantly tickerFns)" by (simp add: returned_ok_def NewTicker_def)
  from treach_inv [OF assms this] show ?thesis
    by (simp add: NewTicker_def add_fns_eq returned_ok_def StopAsync_def)
qed

theorem Ticker_rounds_witness:
  "\<exists>j. treach (NewTicker True [Some ''f'', None, Some ''g'']) j \<and> tk_runs j = [Looping] \<and>
     (\<exists>n. tk_log j = concat (replicate n [''f'', ''g'']))"
proof -
  let ?j0 = "NewTicker True [Some ''f'', None, Some ''g'']"
  let ?j1 = "StartAsync [] ?j0"
  let ?j2 = "(execFns ?j1)\<lparr>tk_runs := (tk_runs ?j1)[0 := Looping]\<rparr>"
  have "tstep ?j1 ?j2"
    using tstep.begin_run [of 0 ?j1] by (simp add: StartAsync_def NewTicker_def)
  then have r: "treach ?j0 ?j2"
    by (intro treach.step [OF treach.step [OF treach.init tstep.start [of _ "[]"]]])
      (simp_all add: StartAsync_def NewTicker_def execFns_def)
  from Ticker_rounds [OF r] r show ?thesis
    by (intro exI [of _ ?j2]) (simp add: map_filter_simps StartAsync_def NewTicker_def)
qed

section \<open>Leadership signals\<close>

text \<open>
  \<open>leaderChanging\<close> of the demo program: every signal of gained leadership starts the ticker, every
  signal of lost leadership stops it.
\<close>

fun leaderChanging :: "bool list \<Rightarrow> 'f Ticker \<Rightarrow> unit outcome \<times> 'f Ticker" where
  "leaderChanging [] tik = (Ret (), tik)"
| "leaderChanging (leader # signals) tik =
     (if leader then leaderChanging signals (StartAsync [] tik)
      else
        (case StopAsync tik of
           (Panic e, tik') \<Rightarrow> (Panic e, tik')
         | (Ret _, tik') \<Rightarrow> leaderChanging signals tik'))"

lemma StartAsync_closed [simp]: "tk_closed (StartAsync fns tik) = tk_closed tik"
  by (simp add: StartAsync_def Let_def)

lemma leaderChanging_outcome:
  "fst (leaderChanging signals tik) =
     (if count_list signals False + (if tk_closed tik then 1 else 0) \<le> 1 \<or> count_list signals False = 0
      then Ret () else Panic ''close of closed channel'')"
  by (induction signals tik rule: leaderChanging.induct) (auto simp: StopAsync_def)

text \<open>
  The node survives losing leadership once, not twice: the loop that follows the leadership
  signals ends in a panic exactly when they report a loss at least two times, since the second
  \<open>StopAsync\<close> closes a closed channel.
\<close>

theorem leaderChanging_panics:
  "fst (leaderChanging signals (NewTicker startInstantly tickerFns)) =
     (if count_list signals False \<le> 1 then Ret () else Panic ''close of closed channel'')"
  by (simp add: leaderChanging_outcome NewTicker_def)

end
