(* ===== verification/Fair_Runs.thy ===== *)
theory Fair_Runs
  imports Main
begin

text \<open>
  Infinite runs of a system whose steps are labelled: \<open>act a s\<close> is the state after action \<open>a\<close>, or
  \<^term>\<open>None\<close> when \<open>a\<close> is not possible in \<open>s\<close>. The interface \<open>leads_to\<close> holds the one law of progress the
  components use: an action that stays possible until something changes is carried out by a run
  that is fair to it.
\<close>

text \<open>At each moment an action is carried out, or (\<^term>\<open>None\<close>) nothing happens.\<close>

definition is_run :: "('a \<Rightarrow> 's \<Rightarrow> 's option) \<Rightarrow> (nat \<Rightarrow> 's) \<Rightarrow> (nat \<Rightarrow> 'a option) \<Rightarrow> bool" where
  "is_run act \<sigma> \<alpha> \<longleftrightarrow> (\<forall>n. case \<alpha> n of None \<Rightarrow> \<sigma> (Suc n) = \<sigma> n | Some a \<Rightarrow> act a (\<sigma> n) = Some (\<sigma> (Suc n)))"

definition weakly_fair ::
    "('a \<Rightarrow> 's \<Rightarrow> 's option) \<Rightarrow> (nat \<Rightarrow> 's) \<Rightarrow> (nat \<Rightarrow> 'a option) \<Rightarrow> 'a \<Rightarrow> bool" where
  "weakly_fair act \<sigma> \<alpha> a \<longleftrightarrow> (\<forall>n. (\<forall>m \<ge> n. act a (\<sigma> m) \<noteq> None) \<longrightarrow> (\<exists>m \<ge> n. \<alpha> m = Some a))"

lemma is_run_cases:
  assumes "is_run act \<sigma> \<alpha>"
  obtains "\<alpha> n = None" "\<sigma> (Suc n) = \<sigma> n" | a where "\<alpha> n = Some a" "act a (\<sigma> n) = Some (\<sigma> (Suc n))"
  using assms by (cases "\<alpha> n") (auto simp: is_run_def dest: spec [of _ n])

text \<open>Finite schedules, and the run that carries one out and then stops.\<close>

fun exec :: "('a \<Rightarrow> 's \<Rightarrow> 's option) \<Rightarrow> 'a list \<Rightarrow> 's \<Rightarrow> 's option" where
  "exec act [] s = Some s"
| "exec act (a # as) s = (case act a s of None \<Rightarrow> None | Some s' \<Rightarrow> exec act as s')"

lemma finite_run:
  assumes "exec act as s = Some t"
  shows "\<exists>\<sigma> \<alpha>. is_run act \<sigma> \<alpha> \<and> \<sigma> 0 = s \<and> (\<forall>n \<ge> length as. \<sigma> n = t) \<and>
    (\<forall>n. \<alpha> n = (if n < length as then Some (as ! n) else None)) \<and>
    (\<forall>a. act a t = None \<longrightarrow> weakly_fair act \<sigma> \<alpha> a)"
  using assms
proof (induction as arbitrary: s)
  case Nil
  then show ?case
    by (intro exI [of _ "\<lambda>_. t"] exI [of _ "\<lambda>_. None"]) (auto simp: is_run_def weakly_fair_def)
next
  case (Cons a as)
  then obtain s' where s': "act a s = Some s'" "exec act as s' = Some t" by (auto split: option.splits)
  from Cons.IH [OF s'(2)] obtain \<sigma> \<alpha> where r: "is_run act \<sigma> \<alpha>" "\<sigma> 0 = s'" "\<And>n. length as \<le> n \<Longrightarrow> \<sigma> n = t"
    "\<And>n. \<alpha> n = (if n < length as then Some (as ! n) else None)" by blast
  let ?\<sigma> = "\<lambda>n. case n of 0 \<Rightarrow> s | Suc k \<Rightarrow> \<sigma> k" and ?\<alpha> = "\<lambda>n. case n of 0 \<Rightarrow> Some a | Suc k \<Rightarrow> \<alpha> k"
  have end_t: "?\<sigma> n = t" if "length (a # as) \<le> n" for n using that r(3) by (cases n) auto
  have "is_run act ?\<sigma> ?\<alpha>" using r(1,2) s'(1) by (auto simp: is_run_def split: nat.split option.splits)
  moreover have "?\<alpha> n = (if n < length (a # as) then Some ((a # as) ! n) else None)" for n
    by (cases n) (simp_all add: r(4))
  moreover have "weakly_fair act ?\<sigma> ?\<alpha> b" if "act b t = None" for b
    unfolding weakly_fair_def using end_t [of "max n (length (a # as))" for n] that by (metis max.cobounded1 max.cobounded2)
  ultimately show ?case using end_t by (intro exI [of _ ?\<sigma>] exI [of _ ?\<alpha>]) auto
qed

text \<open>What every action keeps holds for the rest of the run.\<close>

lemma run_keeps:
  assumes "is_run act \<sigma> \<alpha>" "P (\<sigma> n)" "n \<le> m"
    and "\<And>k a. n \<le> k \<Longrightarrow> k < m \<Longrightarrow> \<alpha> k = Some a \<Longrightarrow> act a (\<sigma> k) = Some (\<sigma> (Suc k)) \<Longrightarrow> P (\<sigma> k) \<Longrightarrow> P (\<sigma> (Suc k))"
  shows "P (\<sigma> m)"
  using assms(3,4)
proof (induction m rule: dec_induct)
  case (step m)
  then have P: "P (\<sigma> m)" by simp
  show ?case
  proof (cases rule: is_run_cases [OF assms(1), of m])
    case (2 a)
    with step.prems [of m a] step.hyps P show ?thesis by simp
  qed (use P in simp)
qed (rule assms(2))

text \<open>
  \<open>P\<close> leads to \<open>Q\<close> by the action \<open>a\<close>, as long as \<open>I\<close> holds: no action leaves \<open>P\<close> except to \<open>Q\<close>, and while
  \<open>P\<close> holds \<open>a\<close> is possible and leads to \<open>Q\<close>.
\<close>

locale leads_to =
  fixes act :: "'a \<Rightarrow> 's \<Rightarrow> 's option"
    and I :: "'s \<Rightarrow> bool" and P :: "'s \<Rightarrow> bool" and a :: 'a and Q :: "'s \<Rightarrow> bool"
  assumes stays: "I s \<Longrightarrow> P s \<Longrightarrow> act b s = Some s' \<Longrightarrow> P s' \<or> Q s'"
    and possible: "I s \<Longrightarrow> P s \<Longrightarrow> act a s \<noteq> None"
    and helpful: "I s \<Longrightarrow> P s \<Longrightarrow> act a s = Some s' \<Longrightarrow> Q s'"
begin

lemma progress:
  assumes "is_run act \<sigma> \<alpha>" "weakly_fair act \<sigma> \<alpha> a" "\<And>m. n \<le> m \<Longrightarrow> I (\<sigma> m)" "P (\<sigma> n)"
  shows "\<exists>m \<ge> n. Q (\<sigma> m)"
proof (rule ccontr)
  assume "\<not> ?thesis"
  then have never: "\<not> Q (\<sigma> m)" if "n \<le> m" for m using that by blast
  have P: "P (\<sigma> m)" if "n \<le> m" for m
    by (rule run_keeps [where P = P, OF assms(1,4) that]) (use stays assms(3) never le_SucI in blast)
  have "\<And>m. n \<le> m \<Longrightarrow> act a (\<sigma> m) \<noteq> None" using possible assms(3) P by blast
  with assms(2) obtain m where m: "n \<le> m" "\<alpha> m = Some a" unfolding weakly_fair_def by blast
  show False
  proof (cases rule: is_run_cases [OF assms(1), of m])
    case (2 b)
    with m have "act a (\<sigma> m) = Some (\<sigma> (Suc m))" by simp
    with helpful assms(3) P m(1) have "Q (\<sigma> (Suc m))" by blast
    with never [of "Suc m"] m(1) show False by simp
  qed (use m in simp)
qed

end

end
