(* ===== verification/Startup_Runs.thy ===== *)
theory Startup_Runs
  imports Startup Fair_Runs
begin

text \<open>
  \<open>StartRaft\<close> of \<open>service.go\<close> with its goroutines interleaved: the caller, which waits for a leader
  and then for the log; the goroutine that joins and tries again; \<open>listenLeaderCh\<close> and the reader of
  \<open>LeaderCh\<close>; and the rest of the node, which may change the map, Raft and the files and send
  requests at any time. One join request with its check is one step, as are one tick of a wait and
  one signal.
\<close>

section \<open>The state\<close>

datatype main_at = WaitingLeader | LeaderWaited | WaitingApplied nat | Done

datatype join_at = Calling | Asking "string list" | Sleeping | Joined_up

record ('r, 'v, 'w) starting =
  sg_Service :: "('r, 'v, 'w) Service"
  sg_main :: main_at
  sg_join :: join_at
  sg_LeaderCh :: "bool list"
  sg_seen :: "bool list"

definition started :: "('r, 'v, 'w) Service \<Rightarrow> ('r, 'v, 'w) starting" where
  "started s = \<lparr>sg_Service = s, sg_main = WaitingLeader, sg_join = Calling, sg_LeaderCh = [], sg_seen = []\<rparr>"

abbreviation sg_Store :: "('r, 'v, 'w) starting \<Rightarrow> ('r, 'v, 'w) RaftStore" where
  "sg_Store g \<equiv> sv_Store (sg_Service g)"

definition with_Store :: "('r, 'v, 'w) RaftStore \<Rightarrow> ('r, 'v, 'w) starting \<Rightarrow> ('r, 'v, 'w) starting" where
  "with_Store st g = g\<lparr>sg_Service := (sg_Service g)\<lparr>sv_Store := st\<rparr>\<rparr>"

lemma with_Store_simps [simp]:
  "sg_Store (with_Store st g) = st" "sg_main (with_Store st g) = sg_main g" "sg_join (with_Store st g) = sg_join g"
  "sg_LeaderCh (with_Store st g) = sg_LeaderCh g" "sg_seen (with_Store st g) = sg_seen g"
  by (simp_all add: with_Store_def)

section \<open>The goroutines\<close>

text \<open>
  The caller. \<open>select\<close> takes a tick or the expired timer; a tick finds Raft in the state given with it.
\<close>

datatype 'r main_action = Leader_tick 'r | Leader_expired | Begin_applied | Applied_tick 'r | Applied_expired

fun main_act ::
    "('r, 'v) store_env \<Rightarrow> 'r main_action \<Rightarrow> ('r, 'v, 'w) starting \<Rightarrow> ('r, 'v, 'w) starting option" where
  "main_act E (Leader_tick r) g =
     (if sg_main g \<noteq> WaitingLeader then None
      else
        let s = (sg_Store g)\<lparr>st_raft := r\<rparr> in
        if LeaderAddr E s \<noteq> [] then Some (with_Store s g\<lparr>sg_main := LeaderWaited\<rparr>)
        else Some (with_Store (joinNodesFromLeader E s) g))"
| "main_act E Leader_expired g = (if sg_main g \<noteq> WaitingLeader then None else Some (g\<lparr>sg_main := LeaderWaited\<rparr>))"
| "main_act E Begin_applied g =
     (if sg_main g \<noteq> LeaderWaited then None
      else Some (g\<lparr>sg_main := WaitingApplied (ra_LastIndex (se_api E) (st_raft (sg_Store g)))\<rparr>))"
| "main_act E (Applied_tick r) g =
     (case sg_main g of
        WaitingApplied idx \<Rightarrow>
          let g = with_Store ((sg_Store g)\<lparr>st_raft := r\<rparr>) g in
          Some (if ra_AppliedIndex (se_api E) r \<ge> idx then g\<lparr>sg_main := Done\<rparr> else g)
      | _ \<Rightarrow> None)"
| "main_act E Applied_expired g =
     (case sg_main g of WaitingApplied idx \<Rightarrow> Some (g\<lparr>sg_main := Done\<rparr>) | _ \<Rightarrow> None)"

text \<open>The joining goroutine: \<open>Arg.Join\<close>, then the end or ten seconds of sleep.\<close>

definition join_step :: "json_lib \<Rightarrow> ('r, 'v, 'w) starting \<Rightarrow> ('r, 'v, 'w) starting option" where
  "join_step js g =
     (let a = st_Arg (sg_Store g) in
      case sg_join g of
        Calling \<Rightarrow> Some (g\<lparr>sg_join := (if arg_Bootstrap a then Joined_up else Asking (arg_JoinAddrSlice a))\<rparr>)
      | Asking [] \<Rightarrow> Some (g\<lparr>sg_join := Sleeping\<rparr>)
      | Asking (joinAddr # addrs) \<Rightarrow>
          (case Join js joinAddr (arg_RaftAddr a) (arg_NodeID a) (st_net (sg_Store g)) of
             (err, w) \<Rightarrow> Some (with_Store ((sg_Store g)\<lparr>st_net := w\<rparr>) g
               \<lparr>sg_join := (if err = None then Joined_up else Asking addrs)\<rparr>))
      | Sleeping \<Rightarrow> Some (g\<lparr>sg_join := Calling\<rparr>)
      | Joined_up \<Rightarrow> None)"

text \<open>\<open>listenLeaderCh\<close>: the signal is dropped when the channel, which holds one, is full.\<close>

definition offer :: "bool \<Rightarrow> bool list \<Rightarrow> bool list" where
  "offer leaderChanged ch = (if length ch < 1 then ch @ [leaderChanged] else ch)"

datatype 'r start_action = Main "'r main_action" | Join_step | Signal bool | Receive
  | Rest 'r "string \<rightharpoonup> string" files "http_req list"

fun start_act ::
    "('r, 'v) store_env \<Rightarrow> 'r start_action \<Rightarrow> ('r, 'v, 'w) starting \<Rightarrow> ('r, 'v, 'w) starting option" where
  "start_act E (Main a) g = main_act E a g"
| "start_act E Join_step g = join_step (se_js E) g"
| "start_act E (Signal b) g = Some (g\<lparr>sg_LeaderCh := offer b (sg_LeaderCh g)\<rparr>)"
| "start_act E Receive g =
     (case sg_LeaderCh g of [] \<Rightarrow> None | b # ch \<Rightarrow> Some (g\<lparr>sg_LeaderCh := ch, sg_seen := sg_seen g @ [b]\<rparr>))"
| "start_act E (Rest r m fs qs) g =
     (let s = sg_Store g in
      Some (with_Store (s\<lparr>st_raft := r, st_m := m, st_fs := fs,
        st_net := (st_net s)\<lparr>http_log := http_log (st_net s) @ qs\<rparr>\<rparr>) g))"

section \<open>Facts about the steps\<close>

lemma joinNodes_Arg [simp]: "st_Arg (joinNodesFromLeader E s) = st_Arg s"
  using same_core_joinNodes [of s E] by (simp add: same_core_def)

lemma main_act_frame:
  "main_act E a g = Some g' \<Longrightarrow> sg_join g' = sg_join g \<and> sg_LeaderCh g' = sg_LeaderCh g \<and> sg_seen g' = sg_seen g \<and>
     st_Arg (sg_Store g') = st_Arg (sg_Store g)"
  by (cases a) (auto simp: Let_def split: if_splits main_at.splits)

lemma join_step_frame:
  "join_step js g = Some g' \<Longrightarrow> sg_main g' = sg_main g \<and> sg_LeaderCh g' = sg_LeaderCh g \<and> sg_seen g' = sg_seen g \<and>
     st_Arg (sg_Store g') = st_Arg (sg_Store g) \<and> st_m (sg_Store g') = st_m (sg_Store g)"
  by (auto simp: join_step_def Let_def split: if_splits join_at.splits list.splits prod.splits)

lemma start_act_Arg: "start_act E a g = Some g' \<Longrightarrow> st_Arg (sg_Store g') = st_Arg (sg_Store g)"
  by (cases a) (auto simp: Let_def split: list.splits dest: main_act_frame join_step_frame)

lemma start_act_main: "start_act E a g = Some g' \<Longrightarrow> (\<And>b. a \<noteq> Main b) \<Longrightarrow> sg_main g' = sg_main g"
  by (cases a) (auto simp: Let_def split: list.splits dest: join_step_frame)

lemma start_act_join: "start_act E a g = Some g' \<Longrightarrow> a \<noteq> Join_step \<Longrightarrow> sg_join g' = sg_join g"
  by (cases a) (auto simp: Let_def split: list.splits dest: main_act_frame)


text \<open>The network of a node only grows: the same answers, and more requests.\<close>

definition grows :: "http_world \<Rightarrow> http_world \<Rightarrow> bool" where
  "grows w w' \<longleftrightarrow> responder w' = responder w \<and> prefix (http_log w) (http_log w')"

lemma grows_refl [simp]: "grows w w" by (simp add: grows_def)

lemma grows_trans: "grows a b \<Longrightarrow> grows b c \<Longrightarrow> grows a c" by (auto simp: grows_def)

lemma grows_log [simp]: "grows w (w\<lparr>http_log := http_log w @ qs\<rparr>)" by (simp add: grows_def)

lemma grows_GetJSON: "GetJSON dec v addr w = (r, w') \<Longrightarrow> grows w w'"
  using GetJSON_log [of dec v addr w] GetJSON_responder [of dec v addr w] by (simp add: grows_def)

lemma grows_PostJSON: "PostJSON dec v addr body w = (r, w') \<Longrightarrow> grows w w'"
  using PostJSON_log [of dec v addr body w] PostJSON_responder [of dec v addr body w] by (simp add: grows_def)

lemma grows_Cluster_of: "Cluster_of js nid w = (r, w') \<Longrightarrow> grows w w'"
  by (simp add: Cluster_of_def grows_GetJSON)

lemma grows_Join: "Join js x ra nid w = (r, w') \<Longrightarrow> grows w w'"
  by (auto simp: Join_def checkJoined_def Let_def split: prod.splits option.splits if_splits
      dest!: grows_PostJSON grows_Cluster_of intro: grows_trans)

lemma grows_walk:
  assumes "\<And>srv c w r c' w'. fn srv (c, w) = (r, c', w') \<Longrightarrow> grows w w'"
  shows "walk_loop fn srvs (c, w) = (e, c', w') \<Longrightarrow> grows w w'"
proof (induction srvs arbitrary: c w)
  case (Cons srv srvs)
  obtain r c1 w1 where fn: "fn srv (c, w) = (r, c1, w1)" by (metis prod_cases3)
  with Cons assms [OF fn] show ?case by (auto split: sum.splits if_splits intro: grows_trans)
qed simp

lemma grows_Cluster: "grows (st_net s) (st_net (snd (Cluster E s)))"
proof -
  have "grows w w'" if "cluster_peer E s srv (cl, w) = (r, cl', w')" for srv cl w r cl' w'
    using that by (auto simp: cluster_peer_def Let_def getNodeState_def split: if_splits prod.splits dest!: grows_GetJSON)
  from grows_walk [of "cluster_peer E s", OF this] show ?thesis
    by (auto simp: Cluster_def walkRaftServers_def split: prod.splits option.splits)
qed

lemma grows_findLeader: "findLeader_loop js ps w = (r, w') \<Longrightarrow> grows w w'"
  by (induction js ps w rule: findLeader_loop.induct)
    (auto split: if_splits prod.splits option.splits dest!: grows_Cluster_of intro: grows_trans)

lemma grows_tryFind: "grows (st_net s) (st_net (tryFindAndJoinLeader js cl s))"
  by (auto simp: tryFindAndJoinLeader_def findLeader_def Let_def split: prod.splits
      dest!: grows_findLeader intro: grows_trans grows_Join surjective_pairing)

lemma grows_joinNodes: "grows (st_net s) (st_net (joinNodesFromLeader E s))"
  using grows_Cluster [of s E]
  by (auto simp: joinNodesFromLeader_def split: prod.splits option.splits intro: grows_trans [OF _ grows_tryFind])

lemma main_act_net: "main_act E a g = Some g' \<Longrightarrow> grows (st_net (sg_Store g)) (st_net (sg_Store g'))"
  using grows_joinNodes [of "(sg_Store g)\<lparr>st_raft := r\<rparr>" E for r]
  by (cases a) (auto simp: Let_def split: if_splits main_at.splits)

lemma join_step_net: "join_step js g = Some g' \<Longrightarrow> grows (st_net (sg_Store g)) (st_net (sg_Store g'))"
  by (auto simp: join_step_def Let_def split: if_splits join_at.splits list.splits prod.splits dest!: grows_Join)

lemma start_act_net: "start_act E a g = Some g' \<Longrightarrow> grows (st_net (sg_Store g)) (st_net (sg_Store g'))"
  by (cases a) (auto simp: Let_def split: list.splits dest: main_act_net join_step_net)

text \<open>\<open>WaitForLeader\<close> in one piece is the schedule in which nothing else happens meanwhile.\<close>

lemma with_Store_twice [simp]:
  "with_Store st (with_Store st' g) = with_Store st g" "with_Store (sg_Store g) g = g"
  "(with_Store st g)\<lparr>sg_main := m\<rparr> = with_Store st (g\<lparr>sg_main := m\<rparr>)"
  by (simp_all add: with_Store_def)

lemma WaitForLeader_schedule:
  "WaitForLeader E evs (sg_Store g) = (Some r, st) \<Longrightarrow> sg_main g = WaitingLeader \<Longrightarrow>
   \<exists>as. exec (start_act E) (map Main as) g = Some (with_Store st (g\<lparr>sg_main := LeaderWaited\<rparr>))"
proof (induction evs arbitrary: g)
  case (Cons ev evs)
  show ?case
  proof (cases ev)
    case (Tick r')
    let ?s = "(sg_Store g)\<lparr>st_raft := r'\<rparr>"
    show ?thesis
    proof (cases "LeaderAddr E ?s = []")
      case True
      let ?g = "with_Store (joinNodesFromLeader E ?s) g"
      have "WaitForLeader E evs (sg_Store ?g) = (Some r, st)" using Cons.prems(1) Tick True by (simp add: Let_def)
      with Cons.IH [of ?g] Cons.prems(2) obtain as
        where "exec (start_act E) (map Main as) ?g = Some (with_Store st (?g\<lparr>sg_main := LeaderWaited\<rparr>))" by auto
      with True Cons.prems(2) show ?thesis
        by (intro exI [of _ "Leader_tick r' # as"]) (simp add: with_Store_def Let_def)
    next
      case False
      with Cons.prems Tick show ?thesis by (intro exI [of _ "[Leader_tick r']"]) (simp add: Let_def)
    qed
  next
    case Expired
    with Cons.prems show ?thesis
      by (intro exI [of _ "[Leader_expired]"]) (auto simp: with_Store_def)
  qed
qed simp

section \<open>The signals of a schedule\<close>

fun signals :: "'r start_action list \<Rightarrow> bool list" where
  "signals [] = []"
| "signals (Signal b # as) = b # signals as"
| "signals (_ # as) = signals as"

section \<open>What is never wrong\<close>

text \<open>The node has seen itself in its own cluster view.\<close>

definition seen_joined :: "('r, 'v) store_env \<Rightarrow> ('r, 'v, 'w) RaftStore \<Rightarrow> bool" where
  "seen_joined E s \<longleftrightarrow> (\<exists>cl w1 w2. responder w1 = responder (st_net s) \<and>
     Cluster_of (se_js E) (arg_NodeID (st_Arg s)) w1 = ((cl, None), w2) \<and>
     arg_NodeID (st_Arg s) \<in> peer_ID ` set (rc_Servers cl) \<and> prefix (http_log w2) (http_log (st_net s)))"

lemma seen_joined_grows:
  assumes "seen_joined E s" "grows (st_net s) (st_net s')" "st_Arg s' = st_Arg s"
  shows "seen_joined E s'"
  using assms by (auto simp: seen_joined_def grows_def intro: prefix_order.trans)

lemma join_step_verified:
  assumes "join_step (se_js E) g = Some g'" "sg_join g' = Joined_up"
  shows "arg_Bootstrap (st_Arg (sg_Store g)) \<or> seen_joined E (sg_Store g')"
proof -
  have "seen_joined E ((sg_Store g)\<lparr>st_net := w\<rparr>)"
    if j: "Join (se_js E) x ra (arg_NodeID (st_Arg (sg_Store g))) (st_net (sg_Store g)) = (None, w)" for x ra w
  proof -
    obtain cl w1 where "Cluster_of (se_js E) (arg_NodeID (st_Arg (sg_Store g))) w1 = ((cl, None), w)"
        "arg_NodeID (st_Arg (sg_Store g)) \<in> peer_ID ` set (rc_Servers cl)"
      using Join_verified [OF j] by blast
    moreover from this(1) have "responder w1 = responder w" using grows_Cluster_of by (fastforce simp: grows_def)
    ultimately show ?thesis
      unfolding seen_joined_def by (intro exI [of _ cl] exI [of _ w1] exI [of _ w]) simp
  qed
  with assms show ?thesis
    by (auto simp: join_step_def Let_def split: if_splits join_at.splits list.splits prod.splits)
qed

text \<open>
  C24. In every schedule of the goroutines: the joining goroutine has ended only on the bootstrap
  node, or after the node found itself listed in a cluster view it fetched; the leadership channel
  holds at most one signal and the reader's signals, with that one, are a subsequence of those Raft
  sent; the parameters are those the node was started with.
\<close>

theorem joined_only_if_listed:
  assumes "exec (start_act E) as (started s) = Some g"
  shows "(sg_join g = Joined_up \<longrightarrow> arg_Bootstrap (st_Arg (sv_Store s)) \<or> seen_joined E (sg_Store g)) \<and>
    length (sg_LeaderCh g) \<le> 1 \<and> subseq (sg_seen g @ sg_LeaderCh g) (signals as) \<and>
    st_Arg (sg_Store g) = st_Arg (sv_Store s)"
proof -
  let ?ok = "\<lambda>g :: ('a, 'b, 'c) starting. sg_join g = Joined_up \<longrightarrow> arg_Bootstrap (st_Arg (sg_Store g)) \<or> seen_joined E (sg_Store g)"
  have step: "?ok g'" if "start_act E a g = Some g'" "?ok g" for a and g g' :: "('a, 'b, 'c) starting"
  proof (cases "a = Join_step")
    case True
    with that join_step_verified [of E g g'] start_act_Arg [OF that(1)] show ?thesis by auto
  next
    case False
    with that start_act_join [OF that(1)] start_act_Arg [OF that(1)] start_act_net [OF that(1)] show ?thesis
      by (auto intro: seen_joined_grows)
  qed
  have sig: "length (sg_LeaderCh g') \<le> 1 \<and>
      (\<exists>ext. sg_seen g' @ sg_LeaderCh g' = sg_seen g @ sg_LeaderCh g @ ext \<and> subseq ext (signals [a]))"
    if "start_act E a g = Some g'" "length (sg_LeaderCh g) \<le> 1" for a and g g' :: "('a, 'b, 'c) starting"
    using that by (cases a) (auto simp: Let_def offer_def split: list.splits dest: main_act_frame join_step_frame)
  have "?ok g \<and> length (sg_LeaderCh g) \<le> 1 \<and>
      (\<exists>ext. sg_seen g @ sg_LeaderCh g = sg_seen g0 @ sg_LeaderCh g0 @ ext \<and> subseq ext (signals as)) \<and>
      st_Arg (sg_Store g) = st_Arg (sg_Store g0)"
    if "exec (start_act E) as g0 = Some g" "?ok g0" "length (sg_LeaderCh g0) \<le> 1" for g0
    using that
  proof (induction as arbitrary: g0)
    case (Cons a as)
    then obtain g1 where g1: "start_act E a g0 = Some g1" "exec (start_act E) as g1 = Some g" by (auto split: option.splits)
    obtain e1 where e1: "length (sg_LeaderCh g1) \<le> 1" "sg_seen g1 @ sg_LeaderCh g1 = sg_seen g0 @ sg_LeaderCh g0 @ e1"
        "subseq e1 (signals [a])" using sig [OF g1(1) Cons.prems(3)] by blast
    obtain e2 where e2: "?ok g" "length (sg_LeaderCh g) \<le> 1" "sg_seen g @ sg_LeaderCh g = sg_seen g1 @ sg_LeaderCh g1 @ e2"
        "subseq e2 (signals as)" "st_Arg (sg_Store g) = st_Arg (sg_Store g1)"
      using Cons.IH [OF g1(2) step [OF g1(1) Cons.prems(2)] e1(1)] by blast
    have "signals (a # as) = signals [a] @ signals as" by (cases a) simp_all
    with e1 e2 start_act_Arg [OF g1(1)] show ?case
      by (intro conjI exI [of _ "e1 @ e2"]) (auto simp: list_emb_append_mono)
  qed simp
  from this [OF assms] show ?thesis by (auto simp: started_def)
qed

section \<open>What happens in the end\<close>

interpretation leader_wait: leads_to "start_act E" "\<lambda>_. True" "\<lambda>g. sg_main g = WaitingLeader"
    "Main Leader_expired" "\<lambda>g. sg_main g = LeaderWaited" for E
proof
  fix g g' :: "('a, 'b, 'c) starting" and b
  assume "sg_main g = WaitingLeader" "start_act E b g = Some g'"
  then show "sg_main g' = WaitingLeader \<or> sg_main g' = LeaderWaited"
    by (cases "\<exists>a. b = Main a") (auto simp: Let_def dest: start_act_main elim!: main_act.elims split: if_splits)
qed auto

interpretation between_waits: leads_to "start_act E" "\<lambda>_. True" "\<lambda>g. sg_main g = LeaderWaited"
    "Main Begin_applied" "\<lambda>g. \<exists>idx. sg_main g = WaitingApplied idx" for E
proof
  fix g g' :: "('a, 'b, 'c) starting" and b
  assume "sg_main g = LeaderWaited" "start_act E b g = Some g'"
  then show "sg_main g' = LeaderWaited \<or> (\<exists>idx. sg_main g' = WaitingApplied idx)"
    by (cases "\<exists>a. b = Main a") (auto simp: Let_def dest: start_act_main elim!: main_act.elims split: if_splits)
qed auto

interpretation applied_wait: leads_to "start_act E" "\<lambda>_. True" "\<lambda>g. \<exists>idx. sg_main g = WaitingApplied idx"
    "Main Applied_expired" "\<lambda>g. sg_main g = Done" for E
proof
  fix g g' :: "('a, 'b, 'c) starting" and b
  assume "\<exists>idx. sg_main g = WaitingApplied idx" "start_act E b g = Some g'"
  then show "(\<exists>idx. sg_main g' = WaitingApplied idx) \<or> sg_main g' = Done"
    by (cases "\<exists>a. b = Main a") (auto simp: Let_def dest: start_act_main elim!: main_act.elims split: if_splits)
qed auto

text \<open>The joining goroutine, while the parameters are \<open>a\<close>.\<close>

lemma join_stays: "start_act E b g = Some g' \<Longrightarrow> sg_join g = x \<Longrightarrow> x = sg_join g' \<or> join_step (se_js E) g = Some g'"
  by (cases "b = Join_step") (auto dest: start_act_join)

interpretation wakes: leads_to "start_act E" "\<lambda>_. True" "\<lambda>g. sg_join g = Sleeping" Join_step "\<lambda>g. sg_join g = Calling" for E
  by unfold_locales (auto dest!: join_stays simp: join_step_def Let_def)

interpretation gives_up: leads_to "start_act E" "\<lambda>_. True" "\<lambda>g. sg_join g = Asking []" Join_step "\<lambda>g. sg_join g = Sleeping" for E
  by unfold_locales (auto dest!: join_stays simp: join_step_def Let_def)

interpretation calls: leads_to "start_act E" "\<lambda>g. st_Arg (sg_Store g) = a" "\<lambda>g. sg_join g = Calling" Join_step
    "\<lambda>g. sg_join g = (if arg_Bootstrap a then Joined_up else Asking (arg_JoinAddrSlice a))" for E a
  by unfold_locales (auto dest!: join_stays simp: join_step_def Let_def)

interpretation asks: leads_to "start_act E" "\<lambda>_. True" "\<lambda>g. sg_join g = Asking (x # xs)" Join_step
    "\<lambda>g. sg_join g = Joined_up \<or> sg_join g = Asking xs" for E x xs
  by unfold_locales (auto dest!: join_stays simp: join_step_def Let_def split: prod.splits if_splits)

interpretation accepted: leads_to "start_act E"
    "\<lambda>g. fst (Join (se_js E) x (arg_RaftAddr (st_Arg (sg_Store g))) (arg_NodeID (st_Arg (sg_Store g)))
       (st_net (sg_Store g))) = None"
    "\<lambda>g. sg_join g = Asking (x # xs)" Join_step "\<lambda>g. sg_join g = Joined_up" for E x xs
  by unfold_locales (auto dest!: join_stays simp: join_step_def Let_def split: prod.splits)


text \<open>Each round over the addresses ends in success or at the end of the list.\<close>

lemma asking_ends:
  assumes "is_run (start_act E) \<sigma> \<alpha>" "weakly_fair (start_act E) \<sigma> \<alpha> Join_step" "sg_join (\<sigma> n) = Asking xs"
  shows "\<exists>m \<ge> n. sg_join (\<sigma> m) = Joined_up \<or> sg_join (\<sigma> m) = Asking []"
  using assms(3)
proof (induction xs arbitrary: n)
  case (Cons x xs)
  obtain m where "n \<le> m" "sg_join (\<sigma> m) = Joined_up \<or> sg_join (\<sigma> m) = Asking xs"
    using asks.progress [OF assms(1,2) TrueI Cons.prems] by blast
  with Cons.IH [of m] show ?case by (meson le_trans)
qed auto

text \<open>With an address that lets the node in, it ends in success.\<close>

lemma asking_joins:
  assumes "is_run (start_act E) \<sigma> \<alpha>" "weakly_fair (start_act E) \<sigma> \<alpha> Join_step" "sg_join (\<sigma> n) = Asking xs"
    and "x \<in> set xs"
    and "\<And>m. n \<le> m \<Longrightarrow> fst (Join (se_js E) x (arg_RaftAddr (st_Arg (sg_Store (\<sigma> m))))
      (arg_NodeID (st_Arg (sg_Store (\<sigma> m)))) (st_net (sg_Store (\<sigma> m)))) = None"
  shows "\<exists>m \<ge> n. sg_join (\<sigma> m) = Joined_up"
  using assms(3-5)
proof (induction xs arbitrary: n)
  case (Cons y ys)
  show ?case
  proof (cases "x = y")
    case True
    with accepted.progress [OF assms(1,2) Cons.prems(3) Cons.prems(1) [folded True]] show ?thesis by blast
  next
    case False
    obtain m where m: "n \<le> m" "sg_join (\<sigma> m) = Joined_up \<or> sg_join (\<sigma> m) = Asking ys"
      using asks.progress [OF assms(1,2) TrueI Cons.prems(1)] by blast
    then show ?thesis
    proof (elim disjE)
      assume "sg_join (\<sigma> m) = Asking ys"
      with Cons.IH [of m] Cons.prems(2,3) False m(1) obtain k where "m \<le> k" "sg_join (\<sigma> k) = Joined_up" by auto
      with m(1) show ?thesis by (meson le_trans)
    qed blast
  qed
qed simp

lemma joined_stays:
  assumes "is_run (start_act E) \<sigma> \<alpha>" "sg_join (\<sigma> n) = Joined_up" "n \<le> m"
  shows "sg_join (\<sigma> m) = Joined_up"
  by (rule run_keeps [where P = "\<lambda>g. sg_join g = Joined_up", OF assms])
    (auto dest!: join_stays simp: join_step_def Let_def)

text \<open>Wherever the goroutine is, it comes round to the first address again, unless it has ended.\<close>

lemma comes_round:
  assumes "is_run (start_act E) \<sigma> \<alpha>" "weakly_fair (start_act E) \<sigma> \<alpha> Join_step"
    and "\<And>m. st_Arg (sg_Store (\<sigma> m)) = a" "\<not> arg_Bootstrap a"
  shows "\<exists>m \<ge> n. sg_join (\<sigma> m) = Joined_up \<or> sg_join (\<sigma> m) = Asking (arg_JoinAddrSlice a)"
proof -
  have call: "\<exists>m \<ge> k. sg_join (\<sigma> m) = Asking (arg_JoinAddrSlice a)" if "sg_join (\<sigma> k) = Calling" for k
    using calls.progress [OF assms(1,2,3) that] assms(4) by simp
  have sleep: "\<exists>m \<ge> k. sg_join (\<sigma> m) = Asking (arg_JoinAddrSlice a)" if "sg_join (\<sigma> k) = Sleeping" for k
    using wakes.progress [OF assms(1,2) TrueI that] call by (meson le_trans)
  have ask: "\<exists>m \<ge> k. sg_join (\<sigma> m) = Asking (arg_JoinAddrSlice a)" if "sg_join (\<sigma> k) = Asking []" for k
    using gives_up.progress [OF assms(1,2) TrueI that] sleep by (meson le_trans)
  show ?thesis
  proof (cases "sg_join (\<sigma> n)")
    case (Asking xs)
    with asking_ends [OF assms(1,2)] ask show ?thesis by (meson le_trans)
  qed (use call sleep in auto)
qed

text \<open>
  C23. A service comes up: in every fair run of the goroutines, the call of \<open>StartRaft\<close> returns,
  whether or not a leader shows up and whether or not the node ever joins. The bootstrap node's
  joining goroutine ends. Any other node keeps trying: if from some moment on one of its join
  addresses would let it in whenever it asked, it is in at some point and stops asking.
\<close>

theorem start_succeeds:
  assumes "is_run (start_act E) \<sigma> \<alpha>" "\<sigma> 0 = started s"
    and "\<forall>a \<in> {Main Leader_expired, Main Begin_applied, Main Applied_expired, Join_step}. weakly_fair (start_act E) \<sigma> \<alpha> a"
  shows "(\<exists>n. \<forall>m \<ge> n. sg_main (\<sigma> m) = Done) \<and>
    (arg_Bootstrap (st_Arg (sv_Store s)) \<longrightarrow> (\<exists>n. \<forall>m \<ge> n. sg_join (\<sigma> m) = Joined_up)) \<and>
    (\<forall>N. \<forall>x \<in> set (arg_JoinAddrSlice (st_Arg (sv_Store s))).
       (\<forall>m \<ge> N. fst (Join (se_js E) x (arg_RaftAddr (st_Arg (sv_Store s))) (arg_NodeID (st_Arg (sv_Store s)))
          (st_net (sg_Store (\<sigma> m)))) = None) \<longrightarrow>
       (\<exists>n. \<forall>m \<ge> n. sg_join (\<sigma> m) = Joined_up))"
proof (intro conjI impI allI ballI)
  let ?a = "st_Arg (sv_Store s)"
  note fair = assms(3) [THEN bspec]
  have arg: "st_Arg (sg_Store (\<sigma> m)) = ?a" for m
    by (rule run_keeps [where P = "\<lambda>g. st_Arg (sg_Store g) = ?a" and n = 0, OF assms(1)])
      (use assms(2) in \<open>auto simp: started_def dest: start_act_Arg\<close>)
  have stays: "\<exists>n. \<forall>m \<ge> n. sg_join (\<sigma> m) = Joined_up" if "\<exists>n. sg_join (\<sigma> n) = Joined_up"
    using that joined_stays [OF assms(1)] by blast
  have "sg_main (\<sigma> 0) = WaitingLeader" using assms(2) by (simp add: started_def)
  then obtain k where "sg_main (\<sigma> k) = LeaderWaited" using leader_wait.progress [OF assms(1) fair TrueI] by blast
  then obtain l where "\<exists>idx. sg_main (\<sigma> l) = WaitingApplied idx" using between_waits.progress [OF assms(1) fair TrueI] by blast
  then obtain n where "sg_main (\<sigma> n) = Done" using applied_wait.progress [OF assms(1) fair TrueI] by blast
  moreover have "sg_main (\<sigma> m) = Done" if "sg_main (\<sigma> n) = Done" "n \<le> m" for m
  proof (rule run_keeps [where P = "\<lambda>g. sg_main g = Done", OF assms(1) that])
    fix k a
    assume "start_act E a (\<sigma> k) = Some (\<sigma> (Suc k))" "sg_main (\<sigma> k) = Done"
    then show "sg_main (\<sigma> (Suc k)) = Done"
      by (cases "\<exists>b. a = Main b") (auto dest: start_act_main elim!: main_act.elims split: if_splits)
  qed
  ultimately show "\<exists>n. \<forall>m \<ge> n. sg_main (\<sigma> m) = Done" by blast
  have called: "sg_join (\<sigma> 0) = Calling" using assms(2) by (simp add: started_def)
  show "\<exists>n. \<forall>m \<ge> n. sg_join (\<sigma> m) = Joined_up" if "arg_Bootstrap ?a"
    using calls.progress [OF assms(1) fair arg called] that by (intro stays) auto
  show "\<exists>n. \<forall>m \<ge> n. sg_join (\<sigma> m) = Joined_up"
    if x: "x \<in> set (arg_JoinAddrSlice ?a)"
      "\<forall>m \<ge> N. fst (Join (se_js E) x (arg_RaftAddr ?a) (arg_NodeID ?a) (st_net (sg_Store (\<sigma> m)))) = None" for N x
  proof (cases "arg_Bootstrap ?a")
    case True
    then show ?thesis using calls.progress [OF assms(1) fair arg called] by (intro stays) auto
  next
    case False
    obtain m where m: "N \<le> m" "sg_join (\<sigma> m) = Joined_up \<or> sg_join (\<sigma> m) = Asking (arg_JoinAddrSlice ?a)"
      using comes_round [OF assms(1) fair arg False] by blast
    have "\<exists>n. sg_join (\<sigma> n) = Joined_up"
    proof (rule disjE [OF m(2)])
      assume "sg_join (\<sigma> m) = Asking (arg_JoinAddrSlice ?a)"
      from asking_joins [OF assms(1) fair this x(1)] x(2) m(1) arg show ?thesis by auto
    qed blast
    then show ?thesis by (rule stays)
  qed
qed


text \<open>The bootstrap node of the example, started.\<close>

definition boot_service :: "(demo_raft, string, string) Service" where
  "boot_service = demo_service\<lparr>sv_Store := demo_store\<lparr>st_Arg := demo_sarg\<lparr>arg_Bootstrap := True\<rparr>\<rparr>\<rparr>"

definition boot_schedule :: "demo_raft start_action list" where
  "boot_schedule = [Main Leader_expired, Signal True, Join_step, Main Begin_applied, Receive, Main Applied_expired]"

definition boot_end :: "(demo_raft, string, string) starting" where
  "boot_end = \<lparr>sg_Service = boot_service, sg_main = Done, sg_join = Joined_up, sg_LeaderCh = [], sg_seen = [True]\<rparr>"

lemma boot_run: "exec (start_act (demo_senv utc)) boot_schedule (started boot_service) = Some boot_end"
  by (simp add: boot_schedule_def boot_end_def boot_service_def started_def offer_def join_step_def)

theorem joined_only_if_listed_witness:
  "\<exists>g. exec (start_act (demo_senv utc)) boot_schedule (started boot_service) = Some g \<and>
     sg_join g = Joined_up \<and> subseq (sg_seen g @ sg_LeaderCh g) [True]"
  using joined_only_if_listed [OF boot_run] boot_run by (simp add: boot_end_def boot_schedule_def)

theorem start_succeeds_witness:
  "\<exists>\<sigma> \<alpha>. is_run (start_act (demo_senv utc)) \<sigma> \<alpha> \<and> \<sigma> 0 = started boot_service \<and>
     (\<exists>n. \<forall>m \<ge> n. sg_main (\<sigma> m) = Done) \<and> (\<exists>n. \<forall>m \<ge> n. sg_join (\<sigma> m) = Joined_up)"
proof -
  let ?act = "start_act (demo_senv utc)"
  obtain \<sigma> \<alpha> where r: "is_run ?act \<sigma> \<alpha>" "\<sigma> 0 = started boot_service"
      "\<And>a. ?act a boot_end = None \<Longrightarrow> weakly_fair ?act \<sigma> \<alpha> a"
    using finite_run [OF boot_run] by blast
  have "\<forall>a \<in> {Main Leader_expired, Main Begin_applied, Main Applied_expired, Join_step}. weakly_fair ?act \<sigma> \<alpha> a"
    by (intro ballI r(3)) (auto simp: boot_end_def join_step_def)
  moreover have "arg_Bootstrap (st_Arg (sv_Store boot_service))" by (simp add: boot_service_def)
  ultimately show ?thesis using start_succeeds [OF r(1,2)] r(1,2) by blast
qed

end
