(* ===== verification/Demo_Main.thy ===== *)
theory Demo_Main
  imports Ticker Startup_Runs
begin

text \<open>
  The demo program \<open>cmd/hraftd/main.go\<close> and the leadership signals it lives on
  (\<open>listenLeaderCh\<close> of \<open>service_raft.go\<close>): on every tick the leader writes random configuration
  items through the log and spreads ten jobs over the active peers. Random numbers and the
  generated items are parameters.
\<close>

section \<open>Leadership signals\<close>

text \<open>
  \<open>listenLeaderCh\<close> offers each signal to a channel that holds one value; when it is full, the
  signal is dropped. The reader takes the value whenever it comes round. A schedule is the
  order in which the two act.
\<close>

datatype sched = Offer bool | Take

fun run_sched :: "sched list \<Rightarrow> bool list \<times> bool list \<Rightarrow> bool list \<times> bool list" where
  "run_sched [] st = st"
| "run_sched (Offer b # evs) (seen, ch) = run_sched evs (seen, offer b ch)"
| "run_sched (Take # evs) (seen, ch) =
     (case ch of [] \<Rightarrow> run_sched evs (seen, ch) | b # ch' \<Rightarrow> run_sched evs (seen @ [b], ch'))"

fun offers :: "sched list \<Rightarrow> bool list" where
  "offers [] = []"
| "offers (Offer b # evs) = b # offers evs"
| "offers (Take # evs) = offers evs"

section \<open>The work of a tick\<close>

record JobRsp =
  jp_OK :: string
  jp_Msg :: string

definition myJob :: "string \<Rightarrow> JobRsp \<times> go_error option" where
  "myJob reqID = (\<lparr>jp_OK = ''OK'', jp_Msg = reqID @ '' is processed''\<rparr>, None)"

text \<open>The ID of a job is printed with a full-width colon (three bytes of UTF-8).\<close>

definition job_ID :: "nat \<Rightarrow> string" where
  "job_ID i = ''ID'' @ [CHR 0xEF, CHR 0xBC, CHR 0x9A] @ fmt_d (int i)"

text \<open>\<open>enc_req\<close> encodes a job request, \<open>unm_rsp\<close> decodes the data of its response.\<close>

fun jobs_loop ::
    "json_lib \<Rightarrow> (string \<Rightarrow> string) \<Rightarrow> (string \<Rightarrow> go_error + JobRsp) \<Rightarrow> Peer list \<Rightarrow> nat list \<Rightarrow> http_world \<Rightarrow>
     (go_error + JobRsp) list \<times> http_world" where
  "jobs_loop js enc_req unm_rsp activePeers [] w = ([], w)"
| "jobs_loop js enc_req unm_rsp activePeers (i # is) w =
     (let serverLen = length activePeers; req = job_ID i;
          (r, w) =
            (if serverLen > 0 then
               DistributeJob js unm_rsp (activePeers ! (i mod serverLen)) ''/myjob'' (enc_req req) w
             else (case myJob req of (rsp, None) \<Rightarrow> Inr rsp | (rsp, Some err) \<Rightarrow> Inl err, w));
          (rs, w) = jobs_loop js enc_req unm_rsp activePeers is w
      in (r # rs, w))"

definition demoDistributeJobs ::
    "json_lib \<Rightarrow> (string \<Rightarrow> string) \<Rightarrow> (string \<Rightarrow> go_error + JobRsp) \<Rightarrow> Peer list \<Rightarrow> http_world \<Rightarrow>
     (go_error + JobRsp) list \<times> http_world" where
  "demoDistributeJobs js enc_req unm_rsp activePeers w =
     jobs_loop js enc_req unm_rsp activePeers [0..<10] w"

record RigConfItem =
  ri_Time :: string
  ri_ID :: int
  ri_Name :: string
  ri_NodeID :: NodeID

text \<open>
  The items for the peers: \<open>rnd\<close> lists the random numbers, one per peer; \<open>fake p i\<close> is the item
  generated as number \<open>i\<close> (counting down) of peer \<open>p\<close>, and \<open>clk\<close> the clock at that moment.
\<close>

fun peer_items ::
    "(int \<Rightarrow> int) \<Rightarrow> (nat \<Rightarrow> int) \<Rightarrow> (nat \<Rightarrow> RigConfItem) \<Rightarrow> Peer \<Rightarrow> nat \<Rightarrow> RigConfItem list" where
  "peer_items loc clk fake peer 0 = []"
| "peer_items loc clk fake peer (Suc i) =
     (fake (Suc i))\<lparr>ri_Time := FormatTime loc (clk (Suc i)), ri_NodeID := peer_ID peer\<rparr> #
       peer_items loc clk fake peer i"

fun demo_items ::
    "(int \<Rightarrow> int) \<Rightarrow> (Peer \<Rightarrow> nat \<Rightarrow> int) \<Rightarrow> (Peer \<Rightarrow> nat \<Rightarrow> RigConfItem) \<Rightarrow> (Peer \<Rightarrow> int) \<Rightarrow> Peer list \<Rightarrow>
     RigConfItem list" where
  "demo_items loc clk fake rnd [] = []"
| "demo_items loc clk fake rnd (peer # peers) =
     peer_items loc (clk peer) (fake peer) peer (nat (1 + rnd peer)) @ demo_items loc clk fake rnd peers"

definition rigConf :: string where
  "rigConf = ''rigconf''"

definition demoApplyLogs ::
    "('r, 'v) store_env \<Rightarrow> (RigConfItem list \<Rightarrow> string) \<Rightarrow> (Peer \<Rightarrow> nat \<Rightarrow> int) \<Rightarrow>
     (Peer \<Rightarrow> nat \<Rightarrow> RigConfItem) \<Rightarrow> (Peer \<Rightarrow> int) \<Rightarrow> int \<Rightarrow> Peer list \<Rightarrow> ('r, 'v, 'w) RaftStore \<Rightarrow>
     unit outcome \<times> ('r, 'v, 'w) RaftStore" where
  "demoApplyLogs E enc clk fake rnd now activePeers s =
     (case Set E now rigConf (enc (demo_items (se_loc E) clk fake rnd activePeers)) s of
        (Panic e, s') \<Rightarrow> (Panic e, s')
      | (Ret _, s') \<Rightarrow> (Ret (), s'))"

section \<open>Properties\<close>

lemma run_sched_subseq:
  assumes "run_sched evs (seen, ch) = (seen', ch')" "length ch \<le> 1"
  shows "length ch' \<le> 1 \<and> (\<exists>ext. seen' @ ch' = seen @ ch @ ext \<and> subseq ext (offers evs))"
  using assms
proof (induction evs arbitrary: seen ch)
  case (Cons ev evs)
  show ?case
  proof (cases ev)
    case (Offer b)
    show ?thesis
    proof (cases ch)
      case Nil
      with Offer Cons obtain ext where "length ch' \<le> 1" "seen' @ ch' = seen @ [b] @ ext" "subseq ext (offers evs)"
        by (fastforce simp: offer_def)
      with Nil Offer show ?thesis by (intro conjI exI [of _ "b # ext"]) auto
    next
      case (Cons c cs)
      with Offer Cons.prems have "run_sched evs (seen, ch) = (seen', ch')" by (simp add: offer_def)
      from Cons.IH [OF this Cons.prems(2)] Offer show ?thesis by (auto intro: list_emb_Cons)
    qed
  next
    case Take
    show ?thesis
    proof (cases ch)
      case Nil
      with Take Cons.prems Cons.IH [of seen "[]"] show ?thesis by simp
    next
      case (Cons c cs)
      with Take Cons.prems have "run_sched evs (seen @ [c], cs) = (seen', ch')" "length cs \<le> 1" by simp_all
      from Cons.IH [OF this] Take Cons show ?thesis by simp
    qed
  qed
qed auto

text \<open>
  The leadership channel never blocks Raft and never invents a signal: in every schedule the
  reader's signals, with the one waiting, are a subsequence of those offered, and at most one
  waits. They need not be all: with the schedule below the loss of leadership is dropped and
  the reader goes on as leader.
\<close>

theorem leader_signals:
  "(let (seen, ch) = run_sched evs ([], []) in length ch \<le> 1 \<and> subseq (seen @ ch) (offers evs)) \<and>
   run_sched [Offer True, Offer False, Take] ([], []) = ([True], [])"
proof -
  obtain seen ch where r: "run_sched evs ([], []) = (seen, ch)" by fastforce
  from run_sched_subseq [OF r] show ?thesis by (simp add: r offer_def)
qed

lemma DistributeJob_posts:
  "posts (http_log (snd (DistributeJob js unm p path body w))) =
     posts (http_log w) @ [NodeID_URL (peer_ID p) (DoJobPath @ path)]"
proof -
  obtain r e w' where p: "PostJSON (js_unrsp js) zero_Rsp (NodeID_URL (peer_ID p) (DoJobPath @ path)) body w = ((r, e), w')"
    by (metis surjective_pairing)
  with PostJSON_log [of "js_unrsp js" zero_Rsp "NodeID_URL (peer_ID p) (DoJobPath @ path)" body w]
  have "http_log w' = http_log w @ [POST (NodeID_URL (peer_ID p) (DoJobPath @ path)) body]" by simp
  with p show ?thesis by (cases e) (simp_all add: DistributeJob_def)
qed

lemma jobs_loop_posts:
  assumes "peers \<noteq> []"
  shows "posts (http_log (snd (jobs_loop js enc unm peers is w))) = posts (http_log w) @
    map (\<lambda>i. NodeID_URL (peer_ID (peers ! (i mod length peers))) (DoJobPath @ ''/myjob'')) is"
proof (induction "is" arbitrary: w)
  case (Cons i "is")
  obtain r w1 where d: "DistributeJob js unm (peers ! (i mod length peers)) ''/myjob'' (enc (job_ID i)) w = (r, w1)"
    by fastforce
  with Cons.IH [of w1] assms
    DistributeJob_posts [of js unm "peers ! (i mod length peers)" "''/myjob''" "enc (job_ID i)" w]
  show ?case by (simp add: Let_def case_prod_beta)
qed simp

lemma jobs_loop_local:
  "jobs_loop js enc unm [] is w = (map (\<lambda>i. Inr (fst (myJob (job_ID i)))) is, w)"
  by (induction "is") (simp_all add: myJob_def)

text \<open>
  Ten jobs, round robin: with \<open>n\<close> active peers, job \<open>i\<close> is posted to peer \<open>i mod n\<close>, in the order
  of the jobs, whatever the earlier answers were; without an active peer nothing is posted
  and all ten jobs are done locally.
\<close>

theorem demo_round_robin:
  "(activePeers = [] \<longrightarrow> demoDistributeJobs js enc unm activePeers w =
      (map (\<lambda>i. Inr (fst (myJob (job_ID i)))) [0..<10], w)) \<and>
   (activePeers \<noteq> [] \<longrightarrow> posts (http_log (snd (demoDistributeJobs js enc unm activePeers w))) =
      posts (http_log w) @
      map (\<lambda>i. NodeID_URL (peer_ID (activePeers ! (i mod length activePeers))) (DoJobPath @ ''/myjob'')) [0..<10])"
  by (auto simp: demoDistributeJobs_def jobs_loop_posts jobs_loop_local simp del: upt_rec_numeral)

theorem demo_round_robin_witness:
  "fst (demoDistributeJobs demo_json (\<lambda>t. t) (\<lambda>_. Inl (Err [])) [] demo_net) =
     map (\<lambda>i. Inr \<lparr>jp_OK = ''OK'', jp_Msg = job_ID i @ '' is processed''\<rparr>) [0..<10]"
  using demo_round_robin [of "[]" demo_json "\<lambda>t. t" "\<lambda>_. Inl (Err [])" demo_net]
  by (simp add: myJob_def del: upt_rec_numeral)

end
