(* ===== verification/Node.thy ===== *)
theory Node
  imports Service Store_Open
begin

text \<open>
  A node over its whole life: the requests it serves, the writes of its own program, the entries
  and snapshots Raft hands to it, elections and changes of the configuration, in any order. The
  log is the ghost \<open>applied\<close>: the entries Raft has handed to this node's state machine so far, each
  with the reading of the node's clock, as a function of the state of Raft.

  The theory shows that the log is the truth: in every state a node can reach its map is the
  result of the writes in its log, whatever the handlers did, and two nodes whose logs agree
  have the same map.
\<close>

section \<open>The log of a node\<close>

text \<open>
  What Raft promises: only \<open>Apply\<close> hands entries to the state machine, in their order; adding and
  removing servers does not.
\<close>

definition keeps_log :: "'r raft_api \<Rightarrow> ('r \<Rightarrow> (raft_log \<times> int) list) \<Rightarrow> bool" where
  "keeps_log api applied \<longleftrightarrow>
     (\<forall>data r err es r'. ra_Apply api data r = (err, es, r') \<longrightarrow> applied r' = applied r @ es) \<and>
     (\<forall>sid r err r'. ra_RemoveServer api sid r = (err, r') \<longrightarrow> applied r' = applied r) \<and>
     (\<forall>sid addr r err r'. ra_AddVoter api sid addr r = (err, r') \<longrightarrow> applied r' = applied r)"

lemma keeps_logD:
  assumes "keeps_log api applied"
  shows "ra_Apply api data r = (err, es, r') \<Longrightarrow> applied r' = applied r @ es"
    and "ra_RemoveServer api sid r = (err, r') \<Longrightarrow> applied r' = applied r"
    and "ra_AddVoter api sid addr r = (err, r') \<Longrightarrow> applied r' = applied r"
  using assms unfolding keeps_log_def by blast+

text \<open>
  The writes of a list of entries, on a node with parameters \<open>a\<close>, when all of them decode; an entry
  that does not decode makes \<open>Apply\<close> panic on Raft's own goroutine, which ends the process.
\<close>

definition decodable :: "('r, 'v) store_env \<Rightarrow> ('v, 'w) Arg \<Rightarrow> (raft_log \<times> int) list \<Rightarrow> bool" where
  "decodable E a es = list_all (\<lambda>e. entry_op E a e \<noteq> None) es"

definition log_ops :: "('r, 'v) store_env \<Rightarrow> ('v, 'w) Arg \<Rightarrow> (raft_log \<times> int) list \<Rightarrow> kv_op list" where
  "log_ops E a es = map (\<lambda>e. the (entry_op E a e)) es"

lemma decodable_simps [simp]:
  "decodable E a []"
  "decodable E a (es @ es') \<longleftrightarrow> decodable E a es \<and> decodable E a es'"
  by (simp_all add: decodable_def)

lemma log_ops_simps [simp]:
  "log_ops E a [] = []"
  "log_ops E a (es @ es') = log_ops E a es @ log_ops E a es'"
  by (simp_all add: log_ops_def)

lemma decodable_ops: "decodable E a es \<Longrightarrow> map (entry_op E a) es = map Some (log_ops E a es)"
  by (auto simp: decodable_def log_ops_def list_all_iff)

section \<open>Every operation goes through the log\<close>

text \<open>
  From \<open>s\<close> to \<open>s'\<close> the log has grown by some entries, the map by their writes, and the parameters
  are the same.
\<close>

definition logged ::
    "('r, 'v) store_env \<Rightarrow> ('r \<Rightarrow> (raft_log \<times> int) list) \<Rightarrow> ('r, 'v, 'w) RaftStore \<Rightarrow>
     ('r, 'v, 'w) RaftStore \<Rightarrow> bool" where
  "logged E applied s s' \<longleftrightarrow> st_Arg s' = st_Arg s \<and>
     (\<exists>es. applied (st_raft s') = applied (st_raft s) @ es \<and>
       (decodable E (st_Arg s) es \<longrightarrow> st_m s' = fold kv_apply (log_ops E (st_Arg s) es) (st_m s)))"

lemma logged_trans [trans]:
  assumes "logged E applied s s'" "logged E applied s' s''"
  shows "logged E applied s s''"
proof -
  obtain es es' where "applied (st_raft s') = applied (st_raft s) @ es"
      "decodable E (st_Arg s) es \<longrightarrow> st_m s' = fold kv_apply (log_ops E (st_Arg s) es) (st_m s)"
      "applied (st_raft s'') = applied (st_raft s') @ es'"
      "decodable E (st_Arg s) es' \<longrightarrow> st_m s'' = fold kv_apply (log_ops E (st_Arg s) es') (st_m s')"
    using assms by (auto simp: logged_def)
  then show ?thesis
    using assms by (auto simp: logged_def intro!: exI [of _ "es @ es'"])
qed

text \<open>A step that leaves the map alone and hands over no entries.\<close>

lemma logged_quiet:
  "st_Arg s' = st_Arg s \<Longrightarrow> st_m s' = st_m s \<Longrightarrow> applied (st_raft s') = applied (st_raft s) \<Longrightarrow>
   logged E applied s s'"
  by (simp add: logged_def)

lemma logged_core: "same_core s s' \<Longrightarrow> logged E applied s s'"
  by (simp add: same_core_def logged_quiet)

lemma logged_refl [simp]: "logged E applied s s"
  by (simp add: logged_quiet)

lemma logged_net [simp]: "logged E applied s (s\<lparr>st_net := w\<rparr>)"
  by (simp add: logged_quiet)

lemma apply_logs_frame:
  "st_Arg (snd (apply_logs E es s)) = st_Arg s \<and> st_raft (snd (apply_logs E es s)) = st_raft s"
proof (induction E es s rule: apply_logs.induct)
  case (2 E l now ls s)
  show ?case
  proof (cases "entry_op E (st_Arg s) (l, now)")
    case None
    from Apply_None [OF this] show ?thesis by auto
  next
    case (Some op)
    from Apply_Some [OF this] 2 show ?thesis by auto
  qed
qed simp

lemma raft_Apply_logged:
  assumes "keeps_log (se_api E) applied" "raft_Apply E data s = (x, s')"
  shows "logged E applied s s'"
proof -
  obtain err es r where ra: "ra_Apply (se_api E) data (st_raft s) = (err, es, r)" by (metis prod_cases3)
  have s': "s' = snd (apply_logs E es (s\<lparr>st_raft := r\<rparr>))"
    using assms(2) ra by (auto simp: raft_Apply_def split: prod.splits outcome.splits)
  have "st_Arg s' = st_Arg s" "st_raft s' = r"
    using apply_logs_frame [of E es "s\<lparr>st_raft := r\<rparr>"] by (simp_all add: s')
  moreover have "st_m s' = fold kv_apply (log_ops E (st_Arg s) es) (st_m s)" if "decodable E (st_Arg s) es"
    using apply_logs_refines [of E "s\<lparr>st_raft := r\<rparr>" es, OF decodable_ops] that by (auto simp: s')
  ultimately show ?thesis
    using keeps_logD(1) [OF assms(1) ra] by (auto simp: logged_def)
qed

lemma Set_logged:
  "keeps_log (se_api E) applied \<Longrightarrow> Set E t k v s = (x, s') \<Longrightarrow> logged E applied s s'"
  by (auto simp: Set_def Let_def raft_Apply_logged split: if_splits)

lemma Delete_logged:
  "keeps_log (se_api E) applied \<Longrightarrow> Delete E t k s = (x, s') \<Longrightarrow> logged E applied s s'"
  by (auto simp: Delete_def Let_def raft_Apply_logged split: if_splits)

lemma config_logged:
  "applied r = applied (st_raft s) \<Longrightarrow> logged E applied s (snd (writeConfigEntries E (s\<lparr>st_raft := r\<rparr>)))"
  using same_core_writeConfigEntries [of "s\<lparr>st_raft := r\<rparr>" E]
  by (simp add: same_core_def logged_quiet)

lemma Remove_logged:
  assumes "keeps_log (se_api E) applied" "Remove E nodeID s = (x, s')"
  shows "logged E applied s s'"
  using assms(2) keeps_logD(2) [OF assms(1)]
  by (auto simp: Remove_def config_logged logged_quiet split: if_splits prod.splits option.splits)

lemma join_walk_log:
  assumes "keeps_log api applied"
  shows "walk_loop (join_server api nodeID addr) srvs (b, r) = (e, b', r') \<Longrightarrow> applied r' = applied r"
proof (induction srvs arbitrary: b r)
  case (Cons srv srvs)
  obtain x b1 r1 where st: "join_server api nodeID addr srv (b, r) = (x, b1, r1)" by (metis prod_cases3)
  then have "applied r1 = applied r"
    using keeps_logD(2) [OF assms]
    by (auto simp: join_server_def Let_def split: if_splits prod.splits option.splits)
  with st Cons show ?case by (auto split: sum.splits if_splits)
qed simp

lemma Join_logged:
  assumes "keeps_log (se_api E) applied" "RaftStore_Join E nodeID addr s = (x, s')"
  shows "logged E applied s s'"
proof -
  obtain e b r where w: "walkRaftServers (se_api E) (st_raft s) (join_server (se_api E) nodeID addr)
      (False, st_raft s) = (e, b, r)" by (metis prod_cases3)
  then have "applied r = applied (st_raft s)"
    by (auto simp: walkRaftServers_def join_walk_log [OF assms(1)] split: prod.splits option.splits)
  with w assms(2) keeps_logD(3) [OF assms(1)] show ?thesis
    by (auto simp: RaftStore_Join_def config_logged logged_quiet
        split: if_splits prod.splits option.splits bool.splits)
qed

section \<open>Every request goes through the log\<close>

text \<open>The same, for the service: its dealers do not change either.\<close>

definition served ::
    "('r, 'v) store_env \<Rightarrow> ('r \<Rightarrow> (raft_log \<times> int) list) \<Rightarrow> ('r, 'v, 'w) Service \<Rightarrow>
     ('r, 'v, 'w) Service \<Rightarrow> bool" where
  "served E applied s s' \<longleftrightarrow> logged E applied (sv_Store s) (sv_Store s') \<and> sv_DealerMap s' = sv_DealerMap s"

lemma served_trans [trans]: "served E applied s s' \<Longrightarrow> served E applied s' s'' \<Longrightarrow> served E applied s s''"
  by (auto simp: served_def elim: logged_trans)

lemma served_refl [simp]: "served E applied s s"
  by (simp add: served_def)

lemma served_store [simp]:
  "served E applied s (s\<lparr>sv_Store := st\<rparr>) \<longleftrightarrow> logged E applied (sv_Store s) st"
  by (simp add: served_def)

lemma report_state [simp]: "fst (snd (report js res)) = fst (snd res)"
  by (simp add: report_def split: prod.splits outcome.splits option.splits)

lemma CheckMethodE_served:
  "served E applied (fst c) (fst (snd (f rq c))) \<Longrightarrow> served E applied (fst c) (fst (snd (CheckMethodE js m f rq c)))"
  by (simp add: CheckMethodE_def)

lemma forwardToLeader_served: "served E applied (fst c) (fst (snd (forwardToLeader E V rq c)))"
  by (auto simp: forwardToLeader_def ReverseProxy_def Let_def served_def split: prod.splits option.splits)

lemma tryForward_served:
  assumes "served E applied (fst c) (fst (snd (f rq c)))"
  shows "served E applied (fst c) (fst (snd (tryForwardToLeader E V f rq c)))"
  using assms forwardToLeader_served [of E applied c V rq] by (simp add: tryForwardToLeader_def)

lemma tryForwardFn_served:
  assumes "served E applied (fst c) (fst (snd (f rq c)))"
  shows "served E applied (fst c) (fst (snd (tryForwardToLeaderFn E V f rq c)))"
  using assms forwardToLeader_served [of E applied c V rq] by (simp add: tryForwardToLeaderFn_def)

lemma post_loop_served:
  assumes "keeps_log (se_api E) applied"
  shows "served E applied (fst c) (fst (snd (post_loop E clk m ks c)))"
proof (induction ks arbitrary: c)
  case (Cons k ks)
  obtain x st where set1: "Set E (clk k) k (the (m k)) (sv_Store (fst c)) = (x, st)" by fastforce
  then have s1: "served E applied (fst c) ((fst c)\<lparr>sv_Store := st\<rparr>)" by (simp add: Set_logged [OF assms])
  show ?case
  proof (cases "x = Ret None")
    case True
    with set1 served_trans [OF s1] Cons [of "((fst c)\<lparr>sv_Store := st\<rparr>, snd c)"] show ?thesis by simp
  next
    case False
    with set1 s1 show ?thesis by (auto split: outcome.splits option.splits)
  qed
qed simp

lemma doKeyPost_served:
  "keeps_log (se_api E) applied \<Longrightarrow> served E applied (fst c) (fst (snd (doKeyPost E V clk rq c)))"
  by (auto simp: doKeyPost_def post_loop_served split: sum.splits)

lemma doKeyDelete_served:
  "keeps_log (se_api E) applied \<Longrightarrow> served E applied (fst c) (fst (snd (doKeyDelete E clk key rq c)))"
  by (auto simp: doKeyDelete_def Delete_logged split: prod.splits outcome.splits option.splits)

lemma handleKeyRequest_served:
  assumes "keeps_log (se_api E) applied"
  shows "served E applied (fst c) (fst (snd (handleKeyRequest E V clk rq c)))"
proof -
  have del: "served E applied (fst (fst c, w)) (fst (snd (tryForwardToLeader E V (doKeyDelete E clk key) rq (fst c, w))))"
    for key w
    by (rule tryForward_served) (rule doKeyDelete_served [OF assms])
  have post: "served E applied (fst c) (fst (snd (tryForwardToLeader E V (doKeyPost E V clk) rq c)))"
    by (rule tryForward_served) (rule doKeyPost_served [OF assms])
  from del [unfolded fst_conv] post show ?thesis
    by (simp add: handleKeyRequest_def split: prod.splits bool.splits option.splits)
qed

lemma saveCluster_logged:
  assumes "keeps_log (se_api E) applied" "saveCluster E clk s = (x, s')"
  shows "logged E applied s s'"
proof -
  obtain cl e n where c: "Cluster E s = ((cl, e), s\<lparr>st_net := n\<rparr>)" using Cluster_frame by blast
  have "logged E applied s s2"
    if "Set E t k v (s\<lparr>st_net := n\<rparr>) = (y, s2)" for t k v y s2
    using logged_trans [OF logged_net Set_logged [OF assms(1) that]] .
  with c assms(2) show ?thesis by (auto simp: saveCluster_def split: option.splits prod.splits outcome.splits)
qed

lemma handleJoin_served:
  assumes "keeps_log (se_api E) applied"
  shows "served E applied (fst c) (fst (snd (handleJoin E clk rq c)))"
proof -
  have save: "logged E applied s s''"
    if "RaftStore_Join E n a s = (x, s')" "saveCluster E clk s' = (y, s'')" for n a s x s' y s''
    using logged_trans [OF Join_logged [OF assms that(1)] saveCluster_logged [OF assms that(2)]] .
  from Join_logged [OF assms] save show ?thesis
    by (auto simp: handleJoin_def split: sum.splits outcome.splits prod.splits option.splits)
qed

lemma handleRemove_served:
  assumes "keeps_log (se_api E) applied"
  shows "served E applied (fst c) (fst (snd (handleRemove E rq c)))"
  using Remove_logged [OF assms]
  by (auto simp: handleRemove_def split: sum.splits prod.splits option.splits)

lemma handleCluster_served: "served E applied (fst c) (fst (snd (handleCluster E rq c)))"
  using handleCluster_frame [of E rq "fst c" "snd c"] by auto

lemma handleRaftRequest_served:
  assumes "keeps_log (se_api E) applied"
  shows "served E applied (fst c) (fst (snd (handleRaftRequest E V clk rq c)))"
proof -
  note parts = CheckMethodE_served [OF tryForwardFn_served [OF handleJoin_served [OF assms]]]
    CheckMethodE_served [OF tryForwardFn_served [OF handleRemove_served [OF assms]]]
  have node: "served E applied (fst c) (fst (snd (CheckMethodE js m (handleNode E V) rq c)))" for js m
    by (rule CheckMethodE_served) (simp add: handleNode_def)
  have cluster: "served E applied (fst c) (fst (snd (CheckMethodE js m (handleCluster E) rq c)))" for js m
    by (rule CheckMethodE_served) (rule handleCluster_served)
  show ?thesis
    by (simp add: handleRaftRequest_def Let_def parts node cluster CheckMethod_def case_prod_beta)
qed

lemma ServeHTTP_served:
  assumes "keeps_log (se_api E) applied"
  shows "served E applied (fst c) (fst (snd (ServeHTTP E V clk rq c)))"
proof -
  have job: "served E applied (fst c) (fst (snd (CheckMethodE js m (handleJobRequest E V) rq c)))" for js m
    by (rule CheckMethodE_served)
      (auto simp: handleJobRequest_def Let_def split: prod.splits option.splits)
  show ?thesis
    by (simp add: ServeHTTP_def Let_def handleKeyRequest_served [OF assms] handleRaftRequest_served [OF assms]
        job debugPprof_def)
qed

section \<open>The life of a node\<close>

text \<open>
  What can happen on a node: it serves a request, whatever the answer (\<open>net/http\<close> recovers a panic
  of the handler); its own program writes or deletes a key (the demo program on every tick);
  Raft hands over committed entries; Raft installs a snapshot another node persisted after the
  entries that \<open>applied\<close> then lists (\<open>Restore\<close>); Raft's own state changes (elections, the
  configuration); the goroutines of \<open>StartRaft\<close> send their requests; a dealer is registered.
  \<open>Vs\<close> are the environments requests are served in (what other nodes answer may change). Entries that do not decode end the process, so no step goes past them.
\<close>

inductive node_step ::
    "('r, 'v) store_env \<Rightarrow> ('w, 'j) svc_env set \<Rightarrow> ('r \<Rightarrow> (raft_log \<times> int) list) \<Rightarrow>
     ('r, 'v, 'w) Service \<Rightarrow> ('r, 'v, 'w) Service \<Rightarrow> bool"
  for E :: "('r, 'v) store_env" and Vs :: "('w, 'j) svc_env set" and applied :: "'r \<Rightarrow> (raft_log \<times> int) list"
where
  serve: "V \<in> Vs \<Longrightarrow> ServeHTTP E V clk rq (s, new_response) = (x, s', w') \<Longrightarrow>
    decodable E (st_Arg (sv_Store s)) (applied (st_raft (sv_Store s'))) \<Longrightarrow> node_step E Vs applied s s'"
| own_set: "Set E t k v (sv_Store s) = (x, st) \<Longrightarrow>
    decodable E (st_Arg (sv_Store s)) (applied (st_raft st)) \<Longrightarrow> node_step E Vs applied s (s\<lparr>sv_Store := st\<rparr>)"
| own_delete: "Delete E t k (sv_Store s) = (x, st) \<Longrightarrow>
    decodable E (st_Arg (sv_Store s)) (applied (st_raft st)) \<Longrightarrow> node_step E Vs applied s (s\<lparr>sv_Store := st\<rparr>)"
| deliver: "applied r = applied (st_raft (sv_Store s)) @ es \<Longrightarrow>
    apply_logs E es ((sv_Store s)\<lparr>st_raft := r\<rparr>) = (Ret (), st) \<Longrightarrow>
    decodable E (st_Arg (sv_Store s)) es \<Longrightarrow> node_step E Vs applied s (s\<lparr>sv_Store := st\<rparr>)"
| install: "decodable E (st_Arg (sv_Store s)) (applied r) \<Longrightarrow>
    js_unmap (se_js E) rc = Inr (fold kv_apply (log_ops E (st_Arg (sv_Store s)) (applied r)) Map.empty) \<Longrightarrow>
    Restore (se_js E) rc ((sv_Store s)\<lparr>st_raft := r\<rparr>) = (x, st) \<Longrightarrow> node_step E Vs applied s (s\<lparr>sv_Store := st\<rparr>)"
| raft: "applied r = applied (st_raft (sv_Store s)) \<Longrightarrow>
    node_step E Vs applied s (s\<lparr>sv_Store := (sv_Store s)\<lparr>st_raft := r\<rparr>\<rparr>)"
| find_leader: "node_step E Vs applied s (s\<lparr>sv_Store := joinNodesFromLeader E (sv_Store s)\<rparr>)"
| join: "Arg_Join (se_js E) (st_Arg (sv_Store s)) (st_net (sv_Store s)) = (x, n) \<Longrightarrow>
    node_step E Vs applied s (s\<lparr>sv_Store := (sv_Store s)\<lparr>st_net := n\<rparr>\<rparr>)"
| register: "RegisterJobDealer name f (sv_DealerMap s) = (x, d) \<Longrightarrow>
    node_step E Vs applied s (s\<lparr>sv_DealerMap := d\<rparr>)"

inductive node_reach ::
    "('r, 'v) store_env \<Rightarrow> ('w, 'j) svc_env set \<Rightarrow> ('r \<Rightarrow> (raft_log \<times> int) list) \<Rightarrow>
     ('r, 'v, 'w) Service \<Rightarrow> ('r, 'v, 'w) Service \<Rightarrow> bool"
  for E :: "('r, 'v) store_env" and Vs :: "('w, 'j) svc_env set" and applied :: "'r \<Rightarrow> (raft_log \<times> int) list"
    and s0 :: "('r, 'v, 'w) Service"
where
  init: "node_reach E Vs applied s0 s0"
| step: "node_reach E Vs applied s0 s \<Longrightarrow> node_step E Vs applied s s' \<Longrightarrow> node_reach E Vs applied s0 s'"

text \<open>A node that has just been created: no entries, an empty map.\<close>

definition fresh_node :: "('r \<Rightarrow> (raft_log \<times> int) list) \<Rightarrow> ('r, 'v, 'w) Service \<Rightarrow> bool" where
  "fresh_node applied s \<longleftrightarrow> applied (st_raft (sv_Store s)) = [] \<and> st_m (sv_Store s) = Map.empty"

section \<open>The map is the log\<close>

definition map_of_log :: "('r, 'v) store_env \<Rightarrow> ('r \<Rightarrow> (raft_log \<times> int) list) \<Rightarrow> ('r, 'v, 'w) RaftStore \<Rightarrow> bool" where
  "map_of_log E applied st \<longleftrightarrow> decodable E (st_Arg st) (applied (st_raft st)) \<and>
     st_m st = fold kv_apply (log_ops E (st_Arg st) (applied (st_raft st))) Map.empty"

lemma logged_map_of_log:
  assumes "logged E applied st st'" "map_of_log E applied st" "decodable E (st_Arg st) (applied (st_raft st'))"
  shows "map_of_log E applied st'"
  using assms by (auto simp: logged_def map_of_log_def)

text \<open>No step changes the parameters; all steps but \<open>install\<close> are logged.\<close>

lemma node_step_map_of_log:
  assumes "keeps_log (se_api E) applied" "node_step E Vs applied s s'" "map_of_log E applied (sv_Store s)"
  shows "map_of_log E applied (sv_Store s') \<and> st_Arg (sv_Store s') = st_Arg (sv_Store s)"
  using assms(2)
proof cases
  case (serve V clk rq x w')
  have "logged E applied (sv_Store s) (sv_Store s')"
    using ServeHTTP_served [OF assms(1), of "(s, new_response)" V clk rq] serve(2) by (simp add: served_def)
  with logged_map_of_log [OF this assms(3)] serve(3) show ?thesis by (simp add: logged_def)
next
  case (own_set t k v x st)
  note l = Set_logged [OF assms(1) own_set(2)]
  from logged_map_of_log [OF l assms(3) own_set(3)] l own_set(1) show ?thesis by (simp add: logged_def)
next
  case (own_delete t k x st)
  note l = Delete_logged [OF assms(1) own_delete(2)]
  from logged_map_of_log [OF l assms(3) own_delete(3)] l own_delete(1) show ?thesis by (simp add: logged_def)
next
  case (deliver r es st)
  from apply_logs_refines [of E "(sv_Store s)\<lparr>st_raft := r\<rparr>" es, OF decodable_ops] deliver assms(3)
  show ?thesis by (auto simp: map_of_log_def)
next
  case (install r rc x st)
  then show ?thesis by (auto simp: Restore_def restore_map_def map_of_log_def)
next
  case find_leader
  then show ?thesis
    using same_core_joinNodes [of "sv_Store s" E] assms(3) by (simp add: same_core_def map_of_log_def)
qed (use assms(3) in \<open>simp_all add: map_of_log_def\<close>)

lemma node_reach_map_of_log:
  assumes "node_reach E Vs applied s0 s" "keeps_log (se_api E) applied" "fresh_node applied s0"
  shows "map_of_log E applied (sv_Store s) \<and> st_Arg (sv_Store s) = st_Arg (sv_Store s0)"
  using assms
proof (induction rule: node_reach.induct)
  case init
  then show ?case by (simp add: map_of_log_def fresh_node_def)
next
  case (step s s')
  then show ?case using node_step_map_of_log [OF step.prems(1) step.hyps(2)] by simp
qed

section \<open>Two nodes\<close>

text \<open>
  Nodes differ in names, addresses and clocks; what decides about an entry is the code that may
  intercept it and the verdict on its age.
\<close>

definition same_dealers :: "('v, 'w) Arg \<Rightarrow> ('v, 'w) Arg \<Rightarrow> bool" where
  "same_dealers a b \<longleftrightarrow> arg_ApplyInterceptor a = arg_ApplyInterceptor b \<and> arg_LogDealer a = arg_LogDealer b"

definition same_libs :: "('r, 'v) store_env \<Rightarrow> ('r, 'v) store_env \<Rightarrow> bool" where
  "same_libs E F \<longleftrightarrow> se_js E = se_js F \<and> se_unm E = se_unm F"

definition same_entry :: "json_lib \<Rightarrow> raft_log \<times> int \<Rightarrow> raft_log \<times> int \<Rightarrow> bool" where
  "same_entry js e e' \<longleftrightarrow> fst e = fst e' \<and>
     (\<forall>c. js_unCommand js (log_Data (fst e)) = Inr c \<longrightarrow> too_old (snd e) c = too_old (snd e') c)"

lemma entry_op_same:
  assumes "same_entry (se_js E) e e'" "same_libs E F" "same_dealers a b"
  shows "entry_op E a e = entry_op F b e'"
  using assms
  by (auto simp: entry_op_def same_entry_def same_libs_def same_dealers_def Intercept_def cmd_op_def
      split: sum.splits)

lemma log_ops_same:
  assumes "list_all2 (same_entry (se_js E)) es es'" "same_libs E F" "same_dealers a b"
  shows "log_ops E a es = log_ops F b es' \<and> decodable E a es = decodable F b es'"
  using assms(1)
  by (induction rule: list_all2_induct)
    (auto simp: log_ops_def decodable_def entry_op_same [OF _ assms(2,3)])

section \<open>Properties\<close>

text \<open>
  C6. The log is the truth: take any node, from its creation through any sequence of requests,
  writes of its own, deliveries, snapshots, elections, joins and registrations. Each key of its
  map holds exactly what the last entry of its log that writes to it left there, and no key
  holds anything else; the parameters of the node are still the ones it was created with. No
  handler has another way to the map.
\<close>

theorem map_is_log:
  assumes "node_reach E Vs applied s0 s" "keeps_log (se_api E) applied" "fresh_node applied s0"
  shows "Get k (sv_Store s) =
      kv_lookup (log_ops E (st_Arg (sv_Store s)) (applied (st_raft (sv_Store s)))) Map.empty k \<and>
    st_Arg (sv_Store s) = st_Arg (sv_Store s0)"
  using node_reach_map_of_log [OF assms] by (simp add: map_of_log_def Get_def fold_kv_apply)

lemma demo_keeps_log: "keeps_log (se_api (demo_senv loc)) dr_log"
  by (auto simp: keeps_log_def demo_api_def)

lemma demo_fresh_node: "fresh_node dr_log demo_service"
  by (simp add: fresh_node_def demo_service_def demo_store_def New_def demo_raft0_def)

definition demo_set_entry :: "raft_log \<times> int" where
  "demo_set_entry = (demo_log (set_cmd utc demo_t ''a'' ''1''), demo_t)"

lemma demo_set_entry_op: "entry_op (demo_senv utc) (st_Arg demo_store) demo_set_entry = Some (KSet ''a'' ''1'')"
  unfolding demo_set_entry_def by (simp add: demo_entry_op [OF refl] cmd_op_set [OF demo_fresh])

lemma demo_leader_run:
  "\<exists>s. node_reach (demo_senv utc) {demo_venv} dr_log demo_service s \<and>
     dr_log (st_raft (sv_Store s)) = [demo_set_entry] \<and> st_Arg (sv_Store s) = st_Arg demo_store"
proof -
  let ?d = "js_Command (se_js (demo_senv utc)) (set_cmd utc demo_t ''a'' ''1'')"
  have e: "(\<lparr>log_Index = 1, log_Data = ?d\<rparr>, demo_t) = demo_set_entry"
    by (simp add: demo_set_entry_def demo_log_def)
  obtain st where st: "Set (demo_senv utc) demo_t ''a'' ''1'' demo_store = (Ret None, st)"
      "st_raft st = demo_raft0\<lparr>dr_index := 1, dr_log := [demo_set_entry]\<rparr>" "st_Arg st = st_Arg demo_store"
    using raft_Apply_refines [OF demo_ra_Apply [OF demo_store_raft, of utc ?d, unfolded e], of "[KSet ''a'' ''1'']"]
    by (auto simp: Set_leader demo_set_entry_op)
  have "node_step (demo_senv utc) {demo_venv} dr_log demo_service (demo_service\<lparr>sv_Store := st\<rparr>)"
    using st demo_set_entry_op by (intro node_step.own_set) (auto simp: demo_service_def decodable_def)
  then have "node_reach (demo_senv utc) {demo_venv} dr_log demo_service (demo_service\<lparr>sv_Store := st\<rparr>)"
    by (rule node_reach.step [OF node_reach.init])
  with st show ?thesis by (intro exI [of _ "demo_service\<lparr>sv_Store := st\<rparr>"]) simp
qed

theorem map_is_log_witness:
  "\<exists>s. node_reach (demo_senv utc) {demo_venv} dr_log demo_service s \<and> Get ''a'' (sv_Store s) = Some ''1''"
proof -
  obtain s where s: "node_reach (demo_senv utc) {demo_venv} dr_log demo_service s"
      "dr_log (st_raft (sv_Store s)) = [demo_set_entry]" "st_Arg (sv_Store s) = st_Arg demo_store"
    using demo_leader_run by blast
  from map_is_log [OF s(1) demo_keeps_log demo_fresh_node, of "''a''"] s show ?thesis
    by (auto simp: log_ops_def demo_set_entry_op kv_lookup_def)
qed

text \<open>
  C7. Replicas agree: take two nodes in states they can reach, with their own names, addresses,
  clocks and histories of requests, but the same registered log dealers. If the second one has
  in its log what the first one has, the verdict on age being the same for each entry (this is
  what Raft promises about logs, and what the clocks decide), and after that \<open>rest\<close>, then its
  map is the first one's map with the writes of \<open>rest\<close>. With an empty \<open>rest\<close> the maps are equal.
\<close>

theorem nodes_agree:
  assumes "node_reach E Vs applied s0 s" "keeps_log (se_api E) applied" "fresh_node applied s0"
    and "node_reach F Ws applied t0 t" "keeps_log (se_api F) applied" "fresh_node applied t0"
    and "same_libs E F" "same_dealers (st_Arg (sv_Store s0)) (st_Arg (sv_Store t0))"
    and "applied (st_raft (sv_Store t)) = es' @ rest"
    and "list_all2 (same_entry (se_js E)) (applied (st_raft (sv_Store s))) es'"
  shows "Get k (sv_Store t) = kv_lookup (log_ops F (st_Arg (sv_Store t)) rest) (st_m (sv_Store s)) k"
proof -
  note s = node_reach_map_of_log [OF assms(1-3)] and t = node_reach_map_of_log [OF assms(4-6)]
  have "log_ops E (st_Arg (sv_Store s)) (applied (st_raft (sv_Store s))) = log_ops F (st_Arg (sv_Store t)) es'"
    using log_ops_same [OF assms(10,7), of "st_Arg (sv_Store s)" "st_Arg (sv_Store t)"] s t assms(8) by simp
  with s t assms(9) show ?thesis by (simp add: map_of_log_def Get_def fold_kv_apply [symmetric])
qed

lemma demo_follower_step:
  "\<exists>t. node_step (demo_senv utc) {demo_venv} dr_log follower_service t \<and>
     dr_log (st_raft (sv_Store t)) = [demo_set_entry]"
proof -
  let ?r = "(st_raft (sv_Store follower_service))\<lparr>dr_log := [demo_set_entry]\<rparr>"
  let ?st = "(sv_Store follower_service)\<lparr>st_raft := ?r\<rparr>"
  have arg: "st_Arg (sv_Store follower_service) = st_Arg demo_store" by (simp add: follower_service_def)
  have ops: "map (entry_op (demo_senv utc) (st_Arg ?st)) [demo_set_entry] = map Some [KSet ''a'' ''1'']"
    by (simp add: arg demo_set_entry_op)
  obtain st where st: "apply_logs (demo_senv utc) [demo_set_entry] ?st = (Ret (), st)" "st_raft st = ?r"
    using apply_logs_refines [OF ops] by auto
  have "node_step (demo_senv utc) {demo_venv} dr_log follower_service (follower_service\<lparr>sv_Store := st\<rparr>)"
    by (rule node_step.deliver [OF _ st(1)])
      (simp_all add: decodable_def arg demo_set_entry_op, simp add: follower_service_def demo_raft0_def)
  with st show ?thesis by (intro exI [of _ "follower_service\<lparr>sv_Store := st\<rparr>"]) simp
qed

lemma demo_follower_run:
  "\<exists>t. node_reach (demo_senv utc) {demo_venv} dr_log follower_service t \<and>
     dr_log (st_raft (sv_Store t)) = [demo_set_entry]"
  using demo_follower_step by (blast intro: node_reach.step [OF node_reach.init])

theorem nodes_agree_witness:
  "\<exists>s t. node_reach (demo_senv utc) {demo_venv} dr_log demo_service s \<and>
     node_reach (demo_senv utc) {demo_venv} dr_log follower_service t \<and>
     dr_log (st_raft (sv_Store s)) \<noteq> [] \<and> Get ''a'' (sv_Store t) = Get ''a'' (sv_Store s)"
proof -
  obtain s t where s: "node_reach (demo_senv utc) {demo_venv} dr_log demo_service s"
      "dr_log (st_raft (sv_Store s)) = [demo_set_entry]"
    and t: "node_reach (demo_senv utc) {demo_venv} dr_log follower_service t"
      "dr_log (st_raft (sv_Store t)) = [demo_set_entry] @ []"
    using demo_leader_run demo_follower_run by auto
  have fresh: "fresh_node dr_log follower_service"
    by (simp add: fresh_node_def follower_service_def demo_service_def demo_store_def New_def demo_raft0_def)
  have "same_dealers (st_Arg (sv_Store demo_service)) (st_Arg (sv_Store follower_service))"
    by (simp add: same_dealers_def follower_service_def demo_service_def)
  from nodes_agree [OF s(1) demo_keeps_log demo_fresh_node t(1) demo_keeps_log fresh _ this t(2), of "''a''"] s
  have "Get ''a'' (sv_Store t) = Get ''a'' (sv_Store s)"
    by (simp add: same_libs_def same_entry_def kv_lookup_def Get_def)
  with s t show ?thesis by (intro exI [of _ s] exI [of _ t]) simp
qed

lemma log_ops_written:
  assumes "fold kv_apply ops Map.empty k = Some v"
  shows "KSet k v \<in> set ops"
  using assms
proof (induction ops rule: rev_induct)
  case (snoc op ops)
  then show ?case by (cases op) (auto split: if_splits)
qed simp

lemma log_ops_set:
  assumes "KSet k v \<in> set (log_ops E a es)" "decodable E a es"
  obtains l now c where "(l, now) \<in> set es" "js_unCommand (se_js E) (log_Data l) = Inr c" "cmd_Key c = k"
    "cmd_Value c = v" "cmd_Op c = ''set''" "k \<noteq> ''/raft/cluster''" "\<not> snd (Intercept (se_unm E) a l c)"
proof -
  obtain e where e: "e \<in> set es" "entry_op E a e = Some (KSet k v)"
    using assms by (fastforce simp: log_ops_def decodable_def list_all_iff)
  then show ?thesis
    using that [of "fst e" "snd e"]
    by (auto simp: entry_op_def cmd_op_def split: sum.splits if_splits)
qed

text \<open>
  C31. The state of a node stays well typed: in every state it can reach, as long as the strings of
  the commands in its log are valid UTF-8, the map is finite, its keys and values are valid
  UTF-8 (so that every snapshot of it can be encoded and read back), the key \<open>/raft/cluster\<close> is
  never in it, and neither is a key whose commands the node's own interceptor always takes.
\<close>

theorem node_well_typed:
  assumes "node_reach E Vs applied s0 s" "keeps_log (se_api E) applied" "fresh_node applied s0"
    and "list_all (entry_good E) (applied (st_raft (sv_Store s)))"
  shows "finite (dom (st_m (sv_Store s))) \<and> utf8_map (st_m (sv_Store s)) \<and>
    ''/raft/cluster'' \<notin> dom (st_m (sv_Store s)) \<and>
    (json_ok (se_js E) \<longrightarrow> js_unmap (se_js E) (js_map (se_js E) (st_m (sv_Store s))) = Inr (st_m (sv_Store s))) \<and>
    (\<forall>k. (\<forall>l c. cmd_Key c = k \<longrightarrow> snd (Intercept (se_unm E) (st_Arg (sv_Store s0)) l c)) \<longrightarrow>
       k \<notin> dom (st_m (sv_Store s)))"
proof -
  let ?es = "applied (st_raft (sv_Store s))" and ?a = "st_Arg (sv_Store s)" and ?m = "st_m (sv_Store s)"
  note inv = node_reach_map_of_log [OF assms(1-3)]
  have w: "\<exists>l now c. (l, now) \<in> set ?es \<and> js_unCommand (se_js E) (log_Data l) = Inr c \<and> cmd_Key c = k \<and>
      cmd_Value c = v \<and> k \<noteq> ''/raft/cluster'' \<and> \<not> snd (Intercept (se_unm E) ?a l c)" if "?m k = Some v" for k v
    using log_ops_written [of "log_ops E ?a ?es" k v] that inv
    by (auto simp: map_of_log_def elim!: log_ops_set)
  have fin: "finite (dom ?m)"
  proof (rule finite_subset)
    show "dom ?m \<subseteq> (\<lambda>e. case js_unCommand (se_js E) (log_Data (fst e)) of Inr c \<Rightarrow> cmd_Key c | _ \<Rightarrow> []) ` set ?es"
      using w by (force simp: image_iff)
  qed simp
  have utf: "utf8_map ?m"
    using w assms(4) by (fastforce simp: utf8_map_def list_all_iff entry_good_def utf8_Command_def)
  show ?thesis
    using fin utf w inv by (auto simp: json_okD(2))
qed

theorem node_well_typed_witness:
  "\<exists>s. node_reach (demo_senv utc) {demo_venv} dr_log demo_service s \<and> dr_log (st_raft (sv_Store s)) \<noteq> [] \<and>
     finite (dom (st_m (sv_Store s)))"
proof -
  obtain s where s: "node_reach (demo_senv utc) {demo_venv} dr_log demo_service s"
      "dr_log (st_raft (sv_Store s)) = [demo_set_entry]"
    using demo_leader_run by blast
  have "list_all (entry_good (demo_senv utc)) (dr_log (st_raft (sv_Store s)))"
    by (simp add: s(2) demo_set_entry_def entry_good_def demo_log_def utf8_set_cmd byte_in_def)
  from node_well_typed [OF s(1) demo_keeps_log demo_fresh_node this] s show ?thesis by auto
qed

end
