(* ===== verification/Two_Nodes.thy ===== *)
theory Two_Nodes
  imports Node
begin

text \<open>
  Requests that cross nodes, end to end: a write posted to a follower, carried out by the leader
  and replicated back; a node that joins through the leader's handler; and how an error of the
  Raft library travels to the client.
\<close>

section \<open>A write posted to a follower\<close>

lemma director_keeps [simp]:
  "rq_Method (director h p rq) = rq_Method rq" "rq_Path (director h p rq) = p"
  "read_body (director h p rq) = read_body rq"
  by (simp_all add: director_def Header_Set_def Header_Add_def Let_def read_body_def split: option.split)

lemma follower_POST:
  assumes "\<not> IsLeader F (sv_Store f)" "LeadServer F (sv_Store f) = (leader, None)"
    and "NodeID_HTTPAddr (peer_ID leader) \<noteq> []" "Header_Get XOriginRemoteAddr rq = []"
    and "rq_Method rq = ''POST''" "rq_Path rq = KeyPath @ p"
  shows "ServeHTTP F V clk rq (f, w) =
    (Ret (), ReverseProxy V (NodeID_HTTPAddr (peer_ID leader)) (rq_Path rq) rq (f, w))"
proof -
  have "is_write rq" using assms(5,6) by (auto simp: is_write_def)
  from write_on_follower [OF this assms(1)] show ?thesis
    using assms(2-4) by (simp add: forwardToLeader_def report_def Let_def)
qed

lemma logged_ops:
  assumes "logged E applied s s'" "applied (st_raft s') = applied (st_raft s) @ es" "decodable E (st_Arg s) es"
  shows "st_m s' = fold kv_apply (log_ops E (st_Arg s) es) (st_m s)"
  using assms by (auto simp: logged_def)

text \<open>
  C15. A write can be sent to any node and is seen on every node. A client posts an object to a
  follower; the follower knows the leader, forwards the request, and the client gets the
  leader's answer. If that answer has status 200 and Raft then hands the entries of the request
  to the follower too (which started with the leader's map and gives the same verdict on their
  age), a GET of each posted key on the follower answers with the posted value. The same holds
  on the leader at once. The assumptions are those of \<open>POST_stores\<close> on the leader, that the
  proxy hands the leader's answer back, and what Raft promises about the log.
\<close>

theorem POST_via_follower:
  assumes "\<not> IsLeader F (sv_Store f)" "LeadServer F (sv_Store f) = (leader, None)"
    and "NodeID_HTTPAddr (peer_ID leader) \<noteq> []" "Header_Get XOriginRemoteAddr rq = []"
    and "rq_Method rq = ''POST''" "rq_Path rq = KeyPath @ p"
    and "read_body rq = Inr body" "js_unmap (se_js E) body = Inr m"
    and "\<forall>k v. m k = Some v \<longrightarrow> plain_key k \<and> valid_utf8 v"
    and "set (sv_order V m) = dom m" "distinct (sv_order V m)"
    and "store_ready (E, clk) (sv_Store s)" "IsLeader E (sv_Store s)"
    and "ServeHTTP E V clk (director (NodeID_HTTPAddr (peer_ID leader)) (rq_Path rq) rq) (s, new_response) =
          (Ret (), s', w')" "status_of w' = 200"
    and "sv_backend W (director (NodeID_HTTPAddr (peer_ID leader)) (rq_Path rq) rq) new_response = w'"
    and "keeps_log (se_api E) applied" "applied (st_raft (sv_Store s')) = applied (st_raft (sv_Store s)) @ es"
    and "decodable E (st_Arg (sv_Store s)) es"
    and "same_libs E F" "same_dealers (st_Arg (sv_Store s)) (st_Arg (sv_Store f))"
    and "st_m (sv_Store f) = st_m (sv_Store s)" "list_all2 (same_entry (se_js E)) es es'"
  shows "\<exists>f'. ServeHTTP F W clkf rq (f, new_response) = (Ret (), f', w') \<and>
    (\<exists>st. apply_logs F es' ((sv_Store f')\<lparr>st_raft := r\<rparr>) = (Ret (), st) \<and>
      (\<forall>k v. m k = Some v \<longrightarrow> k \<noteq> [] \<longrightarrow>
         (let answer = \<lambda>U. WriteAsJSON (sv_kv U k (TryParseJSON (sv_parse U) v)) new_response in
          ServeHTTP F W clkf (get_request k) (f'\<lparr>sv_Store := st\<rparr>, new_response) =
            (Ret (), f'\<lparr>sv_Store := st\<rparr>, answer W) \<and>
          ServeHTTP E V clk (get_request k) (s', new_response) = (Ret (), s', answer V))))"
proof -
  let ?rq = "director (NodeID_HTTPAddr (peer_ID leader)) (rq_Path rq) rq"
  obtain f' where f': "ServeHTTP F W clkf rq (f, new_response) = (Ret (), f', w')" "sv_Store f' = sv_Store f"
    using follower_POST [OF assms(1-6), of W clkf new_response] assms(16) by (auto simp: ReverseProxy_def Let_def)
  have post: "Get k (sv_Store s') = (if k \<in> dom m then m k else Get k (sv_Store s))" for k
    using assms(5-15) by (intro POST_stores [of E clk s ?rq p body m V s' w']) simp_all
  have "served E applied s s'"
    using ServeHTTP_served [OF assms(17), of "(s, new_response)" V clk ?rq] assms(14) by simp
  then have log: "st_m (sv_Store s') = fold kv_apply (log_ops E (st_Arg (sv_Store s)) es) (st_m (sv_Store s))"
    using logged_ops assms(18,19) by (auto simp: served_def)
  note same = log_ops_same [OF assms(23,20,21)]
  obtain st where st: "apply_logs F es' ((sv_Store f')\<lparr>st_raft := r\<rparr>) = (Ret (), st)"
      "st_m st = fold kv_apply (log_ops F (st_Arg (sv_Store f)) es') (st_m (sv_Store f))"
    using apply_logs_refines [of F "(sv_Store f')\<lparr>st_raft := r\<rparr>" es', OF decodable_ops] same assms(19)
    by (auto simp: f'(2))
  have m: "st_m st = st_m (sv_Store s')" using st(2) log same assms(22) by simp
  have get: "Get k st = Some v" "Get k (sv_Store s') = Some v" if "m k = Some v" for k v
    using post [of k] that m by (auto simp: Get_def)
  show ?thesis
    using f'(1) st(1) get by (auto simp: Let_def GET_key get_request_def intro!: exI [of _ f'] exI [of _ st])
qed

definition demo_leader :: Peer where
  "demo_leader = \<lparr>peer_Address = ''10.0.0.1:12000'', peer_ID = demo_ID, peer_State = ''Leader'', peer_Suffrage = []\<rparr>"

lemma demo_LeadServer: "LeadServer (demo_senv utc) (sv_Store follower_service) = (demo_leader, None)"
  by (simp add: LeadServer_def LeaderAddr_def follower_service_def walkRaftServers_def zero_Peer_def Let_def
      demo_leader_def demo_defs)

lemma demo_leader_addr: "NodeID_HTTPAddr (peer_ID demo_leader) = ''10.0.0.1:11000''"
  using NodeID_HTTPAddr_join [of "''10.0.0.1:11000''" "''10.0.0.1:12000''"]
  by (simp add: demo_leader_def demo_ID_def)

theorem POST_via_follower_witness:
  "\<exists>(U :: (string, string) svc_env) f' st. ServeHTTP (demo_senv utc) U (\<lambda>_. demo_t) (get_request ''user1'') (f'\<lparr>sv_Store := st\<rparr>, new_response) =
     (Ret (), f'\<lparr>sv_Store := st\<rparr>, WriteAsJSON (enc_list [''user1'', ''batman'']) new_response)"
proof -
  let ?E = "demo_senv utc" and ?m = "[''user1'' \<mapsto> ''batman'']" and ?V = demo_venv
  let ?rq = "demo_request ''POST'' KeyPath (enc_list [''user1'', ''batman''])"
  define fw where "fw = director (NodeID_HTTPAddr (peer_ID demo_leader)) (rq_Path ?rq) ?rq"
  let ?W = "demo_venv\<lparr>sv_backend := \<lambda>_ _. new_response\<rparr>"
  let ?d = "js_Command (se_js ?E) (set_cmd utc demo_t ''user1'' ''batman'')"
  let ?e = "(\<lparr>log_Index = 1, log_Data = ?d\<rparr>, demo_t)"
  have op: "entry_op ?E (st_Arg demo_store) ?e = Some (KSet ''user1'' ''batman'')"
    using demo_entry_op [of ?E utc] cmd_op_set [OF demo_fresh] by (simp add: demo_log_def)
  obtain st where st: "Set ?E demo_t ''user1'' ''batman'' demo_store = (Ret None, st)"
      "st_raft st = demo_raft0\<lparr>dr_index := 1, dr_log := [?e]\<rparr>"
    using raft_Apply_refines [OF demo_ra_Apply [OF demo_store_raft, of utc ?d], of "[KSet ''user1'' ''batman'']"] op
    by (auto simp: Set_leader)
  have m: "js_unmap (se_js ?E) (enc_list [''user1'', ''batman'']) = Inr ?m"
    by (simp add: demo_json_def dec_map_def)
  have body: "read_body ?rq = Inr (enc_list [''user1'', ''batman''])"
    by (simp add: demo_request_def read_body_def)
  then have fwd: "rq_Path fw = KeyPath @ []" "rq_Method fw = ''POST''"
      "read_body fw = Inr (enc_list [''user1'', ''batman''])"
    by (simp_all add: fw_def, simp_all add: demo_request_def)
  have run: "ServeHTTP ?E ?V (\<lambda>_. demo_t) fw (demo_service, new_response) =
      (Ret (), demo_service\<lparr>sv_Store := st\<rparr>, new_response)"
    using st(1) m fwd(2,3)
    by (simp add: ServeHTTP_key [OF fwd(1)] handleKeyRequest_def tryForwardToLeader_def
        doKeyPost_def demo_service_def demo_venv_def)
  have plain: "\<forall>k v. ?m k = Some v \<longrightarrow> plain_key k \<and> valid_utf8 v"
    by (auto simp: plain_key_def byte_in_def)
  have dealers: "same_dealers (st_Arg (sv_Store demo_service)) (st_Arg (sv_Store follower_service))"
      "same_libs ?E ?E"
    by (simp_all add: same_dealers_def follower_service_def demo_service_def same_libs_def)
  have log: "dr_log (st_raft (sv_Store (demo_service\<lparr>sv_Store := st\<rparr>))) =
      dr_log (st_raft (sv_Store demo_service)) @ [?e]"
    by (simp add: st(2) demo_service_def demo_raft0_def)
  have dec: "decodable ?E (st_Arg (sv_Store demo_service)) [?e]"
    using op by (simp add: decodable_def demo_service_def)
  have hdr: "Header_Get XOriginRemoteAddr ?rq = []" by (simp add: Header_Get_def demo_request_def)
  have path: "rq_Path ?rq = KeyPath @ []" by (simp add: demo_request_def)
  have ready: "IsLeader ?E (sv_Store demo_service)" by (simp add: demo_service_def)
  have ents: "list_all2 (same_entry (se_js ?E)) [?e] [?e]" by (simp add: same_entry_def)
  have addr: "NodeID_HTTPAddr (peer_ID demo_leader) \<noteq> []" by (simp add: demo_leader_addr)
  have meth: "rq_Method ?rq = ''POST''" by (simp add: demo_request_def)
  have order: "set (sv_order ?V ?m) = dom ?m" "distinct (sv_order ?V ?m)" by (simp_all add: demo_venv_def)
  have status: "status_of new_response = 200" by (simp add: status_of_def new_response_def)
  have proxy: "sv_backend ?W (director (NodeID_HTTPAddr (peer_ID demo_leader)) (rq_Path ?rq) ?rq) new_response =
      new_response" by simp
  have maps: "st_m (sv_Store follower_service) = st_m (sv_Store demo_service)"
    by (simp add: follower_service_def demo_service_def)
  obtain f' st' where "\<forall>k v. ?m k = Some v \<longrightarrow> k \<noteq> [] \<longrightarrow>
      ServeHTTP ?E ?W (\<lambda>_. demo_t) (get_request k) (f'\<lparr>sv_Store := st'\<rparr>, new_response) =
        (Ret (), f'\<lparr>sv_Store := st'\<rparr>, WriteAsJSON (sv_kv ?W k (TryParseJSON (sv_parse ?W) v)) new_response)"
    using POST_via_follower [where clkf = "\<lambda>_. demo_t" and r = demo_raft0,
      OF follower_not_leader demo_LeadServer addr hdr meth path body m plain order demo_service_ready ready
        run [unfolded fw_def] status proxy demo_keeps_log log dec dealers(2,1) maps ents]
    unfolding Let_def by blast
  from this [rule_format, of "''user1''" "''batman''"] have
    "ServeHTTP ?E ?W (\<lambda>_. demo_t) (get_request ''user1'') (f'\<lparr>sv_Store := st'\<rparr>, new_response) =
     (Ret (), f'\<lparr>sv_Store := st'\<rparr>, WriteAsJSON (sv_kv ?W ''user1'' (TryParseJSON (sv_parse ?W) ''batman'')) new_response)"
    by simp
  then show ?thesis by (auto simp: TryParseJSON_def demo_venv_def)
qed

end
