(* ===== verification/Join_Protocol.thy ===== *)
theory Join_Protocol
  imports Service
begin

text \<open>
  Joining, end to end: the newcomer's \<open>Join\<close> of \<open>arg.go\<close> against the leader's handler and its own
  \<open>/cluster\<close> handler; how an error of the Raft library reaches the client of a join request; and
  what the leader's \<open>saveCluster\<close> tells the other nodes.
\<close>

section \<open>The two exchanges\<close>

lemma rs_Body_JSON [simp]: "rs_Body (WriteAsJSON j new_response) = j"
  by (simp add: WriteAsJSON_def Write_def new_response_def)

text \<open>What the client makes of the answers of the program's own handlers.\<close>

definition answers_ok :: "json_lib \<Rightarrow> bool" where
  "answers_ok js \<longleftrightarrow> (\<forall>r. js_unrsp js (js_rsp js r) = (r, None)) \<and>
     (\<forall>cl. js_uncluster js (js_cluster js cl) = (cl, None)) \<and>
     (\<forall>m. js_unjoin js (js_join js m) = Inr m)"

lemma answers_okD:
  assumes "answers_ok js"
  shows "js_unrsp js (js_rsp js r) = (r, None)" "js_uncluster js (js_cluster js cl) = (cl, None)"
    "js_unjoin js (js_join js m) = Inr m"
  using assms by (simp_all add: answers_ok_def)

lemma join_URL:
  assumes "id_plain lh" "id_plain lp"
  shows "BindAddr_URLRaftJoin (lh @ '':'' @ lp) = ''http://'' @ lh @ '':'' @ lp @ ''/hraftd/raft/join''"
  using assms by (simp add: BindAddr_URLRaftJoin_def BindAddr_URL_def id_plainD RaftPath_def str_TrimPrefix_def Let_def)

lemma Cluster_IDs:
  assumes "ra_GetConfiguration (se_api F) (st_raft t) = (None, srvs)"
  shows "\<exists>cl t'. Cluster F t = ((cl, None), t') \<and> peer_ID ` set (rc_Servers cl) = srv_ID ` set srvs"
proof -
  obtain cl t' where cl: "Cluster F t = ((cl, None), t')" "list_all2 lists_server srvs (rc_Servers cl)"
    using cluster_walk [of F t srvs zero_RaftCluster "st_net t"] assms
    by (auto simp: Cluster_def walkRaftServers_def zero_RaftCluster_def)
  from cl(2) have "map peer_ID (rc_Servers cl) = map srv_ID srvs"
    by (induction rule: list_all2_induct) (auto simp: lists_server_def)
  with cl(1) show ?thesis by (metis set_map)
qed

lemma joined_loop_eq: "joined_loop nodeID peers =
    (if nodeID \<in> peer_ID ` set peers then None
     else Some (Err (''checked failed for joined node '' @ nodeID)))"
  by (induction peers) auto

text \<open>The answer of a node to a GET of its cluster view.\<close>

lemma GET_cluster:
  assumes "rq_Method rq = ''GET''" "rq_Path rq = RaftPath @ ''/cluster''"
    and "ra_GetConfiguration (se_api F) (st_raft (sv_Store t)) = (None, srvs)"
    and "ServeHTTP F V clk rq (t, new_response) = (x, t', w')"
  shows "\<exists>cl. rs_Body w' = js_cluster (se_js F) cl \<and> peer_ID ` set (rc_Servers cl) = srv_ID ` set srvs"
proof -
  obtain cl st where cl: "Cluster F (sv_Store t) = ((cl, None), st)"
      "peer_ID ` set (rc_Servers cl) = srv_ID ` set srvs"
    using Cluster_IDs [OF assms(3)] by blast
  then have "rs_Body w' = js_cluster (se_js F) cl"
    using assms(1,2,4)
    by (auto simp: ServeHTTP_raft [OF assms(2)] handleRaftRequest_def Let_def CheckMethodE_def handleCluster_def report_def)
  with cl(2) show ?thesis by blast
qed

lemma Join_leaves_member:
  assumes "members_ok (se_api E)" "config_ok (members (se_api E) (st_raft s))"
    and "RaftStore_Join E nodeID addr s = (None, st)"
  shows "joined_in nodeID addr (members (se_api E) (st_raft st))"
  using Join_cases [OF assms]
proof (elim disjE conjE exE)
  fix r err
  assume r: "members (se_api E) r = join_spec nodeID addr (members (se_api E) (st_raft s))"
    "writeConfigEntries E (s\<lparr>st_raft := r\<rparr>) = (err, st)"
  have "st_raft st = r"
    using same_core_writeConfigEntries [of "s\<lparr>st_raft := r\<rparr>" E] r(2) by (simp add: same_core_def)
  with r(1) show ?thesis by (simp add: join_spec_def joined_in_def)
qed simp

text \<open>
  C16. Joining works end to end, and shows where it does not: a newcomer with the ID
  \<open>h:hp,h:rp\<close> posts its join request to the leader; the leader enters it under the host the
  request came from. An error of the leader's \<open>Join\<close> is the newcomer's error, word by word.
  Otherwise the leader has it as a member at \<open>host:rp\<close>, and once Raft has given the newcomer that
  configuration, \<open>Join\<close> succeeds if the newcomer calls itself by that host; a newcomer whose own
  ID is not in the configuration (it came from a loopback address or through address
  translation, so that \<open>host\<close> differs from \<open>h\<close>) gets an error although it has joined.
\<close>

theorem join_end_to_end:
  assumes "answers_ok js" "se_js E = js" "se_js F = js"
    and "id_plain lh" "id_plain lp" "id_plain h" "id_plain hp" "id_plain rp" "id_plain ch" "id_plain cp"
    and "IsLeader E (sv_Store s)" "members_ok (se_api E)" "config_ok (members (se_api E) (st_raft (sv_Store s)))"
    and "rq_Method rq = ''POST''" "rq_Path rq = RaftPath @ ''/join''"
    and "read_body rq = Inr (js_join js \<lparr>jr_Addr = h @ '':'' @ rp, jr_NodeID = mk_NodeID h hp rp\<rparr>)"
    and "EmptyThen (Header_Get XOriginRemoteAddr rq) (rq_RemoteAddr rq) = ch @ '':'' @ cp"
    and "ServeHTTP E V clk rq (s, new_response) = (Ret (), s', w')"
    and "responder n (http_log n) (POST (''http://'' @ lh @ '':'' @ lp @ ''/hraftd/raft/join'')
          (js_join js \<lparr>jr_Addr = h @ '':'' @ rp, jr_NodeID = mk_NodeID h hp rp\<rparr>)) = Inr (code, rs_Body w')"
    and "rq_Method rq2 = ''GET''" "rq_Path rq2 = RaftPath @ ''/cluster''"
    and "ra_GetConfiguration (se_api F) (st_raft (sv_Store t)) = (None, srvs)"
    and "ServeHTTP F W clk2 rq2 (t, new_response) = (x, t', w2)"
    and "\<And>log. responder n log (GET (URLRaftCluster (mk_NodeID h hp rp))) = Inr (code2, rs_Body w2)"
  shows "let host = EqualsThen ch ''127.0.0.1'' [];
             res = fst (Join js (lh @ '':'' @ lp) (h @ '':'' @ rp) (mk_NodeID h hp rp) n) in
    case RaftStore_Join E (mk_NodeID host hp rp) (host @ '':'' @ rp) (sv_Store s) of
      (Some err, st) \<Rightarrow> res = Some (Err (err_Error err))
    | (None, st) \<Rightarrow>
        joined_in (mk_NodeID host hp rp) (host @ '':'' @ rp) (members (se_api E) (st_raft st)) \<and>
        (srvs = members (se_api E) (st_raft st) \<longrightarrow>
           (h = host \<longrightarrow> res = None) \<and>
           (mk_NodeID h hp rp \<notin> srv_ID ` set srvs \<longrightarrow>
              res = Some (Err (''checked failed for joined node '' @ mk_NodeID h hp rp))))"
proof -
  let ?host = "EqualsThen ch ''127.0.0.1'' []" and ?nid = "mk_NodeID h hp rp"
  obtain err st where j: "RaftStore_Join E (mk_NodeID ?host hp rp) (?host @ '':'' @ rp) (sv_Store s) = (err, st)"
    by fastforce
  have dec: "js_unjoin (se_js E) (js_join js \<lparr>jr_Addr = h @ '':'' @ rp, jr_NodeID = ?nid\<rparr>) =
      Inr \<lparr>jr_Addr = h @ '':'' @ rp, jr_NodeID = ?nid\<rparr>"
    using assms(1,2) by (simp add: answers_okD)
  note leader = join_uses_caller_host [OF assms(11,14,15,16) dec assms(17,9,10,6,7,8), of V clk new_response]
  have w': "rs_Body w' = js_rsp js (case err of None \<Rightarrow> rsp_msg True ''OK'' | Some e \<Rightarrow> rsp_msg False (err_Error e))"
    using leader assms(2,18) j by (auto simp: Let_def split: option.splits prod.splits outcome.splits)
  obtain cl where cl: "rs_Body w2 = js_cluster js cl" "peer_ID ` set (rc_Servers cl) = srv_ID ` set srvs"
    using GET_cluster [OF assms(20,21,22,23)] assms(3) by blast
  have res: "fst (Join js (lh @ '':'' @ lp) (h @ '':'' @ rp) ?nid n) =
      (case err of Some e \<Rightarrow> Some (Err (err_Error e)) | None \<Rightarrow> joined_loop ?nid (rc_Servers cl))"
    using assms(19,24) w' cl(1)
    by (cases err) (simp_all add: Join_def join_URL [OF assms(4,5), simplified] PostJSON_def do_http_def parseRSP_def Let_def
        answers_okD [OF assms(1)] rsp_msg_def checkJoined_def Cluster_of_def GetJSON_def)
  have self: "joined_loop ?nid (rc_Servers cl) =
      (if ?nid \<in> srv_ID ` set srvs then None else Some (Err (''checked failed for joined node '' @ ?nid)))"
    unfolding cl(2) [symmetric] by (rule joined_loop_eq)
  show ?thesis
  proof (cases err)
    case None
    with j have "joined_in (mk_NodeID ?host hp rp) (?host @ '':'' @ rp) (members (se_api E) (st_raft st))"
      using Join_leaves_member [OF assms(12,13)] by blast
    moreover from this have "mk_NodeID ?host hp rp \<in> srv_ID ` set (members (se_api E) (st_raft st))"
      unfolding joined_in_def by (metis image_eqI)
    ultimately show ?thesis using None j res self by (simp add: Let_def)
  qed (use j res in \<open>simp add: Let_def\<close>)
qed

lemma demo_answers_ok: "answers_ok demo_json"
  by (simp add: answers_ok_def demo_json_def)

text \<open>The newcomer, with the configuration that lists both nodes.\<close>

definition newcomer_service :: "(demo_raft, string, string) Service" where
  "newcomer_service = demo_service\<lparr>sv_Store := demo_store\<lparr>st_raft := demo_raft0\<lparr>dr_State := Follower,
     dr_servers := join_spec (mk_NodeID ''10.0.0.9'' ''11000'' ''12000'') ''10.0.0.9:12000'' [demo_server]\<rparr>\<rparr>\<rparr>"

theorem join_end_to_end_witness:
  "\<exists>n. fst (Join demo_json ''10.0.0.1:11000'' ''10.0.0.9:12000''
     (mk_NodeID ''10.0.0.9'' ''11000'' ''12000'') n) = None"
proof -
  let ?E = "demo_senv utc" and ?h = "''10.0.0.9''"
  let ?m = "\<lparr>jr_Addr = ''10.0.0.9'' @ '':'' @ ''12000'', jr_NodeID = mk_NodeID ''10.0.0.9'' ''11000'' ''12000''\<rparr>"
  let ?rq = "demo_request ''POST'' (RaftPath @ ''/join'') (enc_join ?m)"
  let ?rq2 = "demo_request ''GET'' (RaftPath @ ''/cluster'') []"
  have plain: "id_plain ''10.0.0.1''" "id_plain ''11000''" "id_plain ''10.0.0.9''" "id_plain ''12000''" "id_plain ''40000''"
    by (simp_all add: id_plain_def addr_plain_def)
  have body: "read_body ?rq = Inr (js_join demo_json ?m)"
    by (simp add: demo_request_def read_body_def demo_json_def)
  have dec: "js_unjoin (se_js ?E) (js_join demo_json ?m) = Inr ?m" using demo_answers_ok by (simp add: answers_okD)
  have caller: "EmptyThen (Header_Get XOriginRemoteAddr ?rq) (rq_RemoteAddr ?rq) = ''10.0.0.9'' @ '':'' @ ''40000''"
    by (simp add: demo_request_def Header_Get_def EmptyThen_def)
  have lead: "IsLeader ?E (sv_Store demo_service)" by (simp add: demo_service_def)
  have conf: "config_ok (members (se_api ?E) (st_raft (sv_Store demo_service)))"
    by (simp add: demo_service_def demo_store_ok)
  have mem: "members_ok (se_api ?E)" by (simp add: demo_members_ok)
  have rq: "rq_Method ?rq = ''POST''" "rq_Path ?rq = RaftPath @ ''/join''"
      "rq_Method ?rq2 = ''GET''" "rq_Path ?rq2 = RaftPath @ ''/cluster''"
    by (simp_all add: demo_request_def)
  obtain st where st: "RaftStore_Join ?E (mk_NodeID ''10.0.0.9'' ''11000'' ''12000'') ''10.0.0.9:12000'' demo_store = (None, st)"
    by (simp add: RaftStore_Join_def walkRaftServers_def join_server_def demo_defs mk_NodeID_def)
  have new: "\<not> joined_in (mk_NodeID ''10.0.0.9'' ''11000'' ''12000'') ''10.0.0.9:12000'' [demo_server]"
    by (simp add: joined_in_def demo_server_def)
  from Join_cases [OF mem _ st] new obtain r err where
    r: "members demo_api r = join_spec (mk_NodeID ''10.0.0.9'' ''11000'' ''12000'') ''10.0.0.9:12000'' [demo_server]"
      "writeConfigEntries ?E (demo_store\<lparr>st_raft := r\<rparr>) = (err, st)"
    by (auto simp: demo_store_ok)
  have "st_raft st = r"
    using same_core_writeConfigEntries [of "demo_store\<lparr>st_raft := r\<rparr>" ?E] r(2) by (simp add: same_core_def)
  with r(1) have conf2: "ra_GetConfiguration (se_api ?E) (st_raft (sv_Store newcomer_service)) = (None, members (se_api ?E) (st_raft st))"
    by (simp add: newcomer_service_def) (simp add: demo_api_def members_def)
  obtain s' w' where run: "ServeHTTP ?E demo_venv (\<lambda>_. demo_t) ?rq (demo_service, new_response) = (Ret (), s', w')"
  proof -
    obtain x st' where "saveCluster ?E (\<lambda>_. demo_t) st = (Ret x, st')" using demo_saveCluster [of utc "\<lambda>_. demo_t" st] by auto
    with that st show thesis
      using join_uses_caller_host [OF lead rq(1,2) body dec caller plain(3,5,3,2,4), of demo_venv "\<lambda>_. demo_t" new_response]
      by (auto simp: EqualsThen_def demo_service_def)
  qed
  obtain x t' w2 where run2: "ServeHTTP ?E demo_venv (\<lambda>_. demo_t) ?rq2 (newcomer_service, new_response) = (x, t', w2)"
    by (metis prod_cases3)
  define n where "n = \<lparr>responder = (\<lambda>_ q. case q of POST u b \<Rightarrow> Inr (200 :: nat, rs_Body w')
      | GET u \<Rightarrow> Inr (200, rs_Body w2)), http_log = []\<rparr>"
  have "responder n (http_log n) (POST (''http://'' @ ''10.0.0.1'' @ '':'' @ ''11000'' @ ''/hraftd/raft/join'')
      (js_join demo_json ?m)) = Inr (200, rs_Body w')" by (simp add: n_def)
  moreover have "responder n log (GET (URLRaftCluster (mk_NodeID ''10.0.0.9'' ''11000'' ''12000''))) =
      Inr (200, rs_Body w2)" for log by (simp add: n_def)
  ultimately show ?thesis
    using join_end_to_end [OF demo_answers_ok _ _ plain(1,2,3,2,4,3,5) lead mem conf rq(1,2) body caller run _
        rq(3,4) conf2 run2, of n 200 200] st
    by (intro exI [of _ n]) (simp add: EqualsThen_def Let_def demo_service_def)
qed

section \<open>Errors of Raft\<close>

lemma walk_join_error:
  "walk_loop (join_server api n a) srvs (b, r) = (Some err, x) \<Longrightarrow>
   \<exists>srv e r1 r2. srv \<in> set srvs \<and> conflicts n a srv \<and> ra_RemoveServer api (srv_ID srv) r1 = (Some e, r2) \<and>
     err = ErrWrap ''failed to invoke walk fn: ''
             (ErrWrap (''error removing existing node '' @ n @ '' at '' @ a @ '': '') e)"
proof (induction srvs arbitrary: b r)
  case (Cons srv srvs)
  show ?case
  proof (cases "fst (join_server api n a srv (b, r))")
    case (Inl e)
    with Cons.prems show ?thesis
      by (intro exI [of _ srv])
        (auto simp: join_server_def conflicts_def Let_def split: if_splits prod.splits option.splits)
  next
    case (Inr cont)
    obtain b1 r1 where "join_server api n a srv (b, r) = (Inr cont, b1, r1)"
      using Inr by (metis prod.collapse)
    with Cons.prems have "walk_loop (join_server api n a) srvs (b1, r1) = (Some err, x)"
      by (cases cont) simp_all
    from Cons.IH [OF this] show ?thesis 
      by (elim exE conjE) (intro exI conjI, rule list.set_intros(2), assumption+)
  qed
qed simp

text \<open>A failed \<open>Join\<close> fails with an error of Raft, wrapped in text, and changes nothing but Raft.\<close>

lemma Join_cause:
  assumes "IsLeader E s" "RaftStore_Join E n a s = (Some err, st)"
  shows "\<exists>pre e. errors_Is err e \<and> err_Error err = pre @ err_Error e \<and>
    (fst (ra_GetConfiguration (se_api E) (st_raft s)) = Some e \<or>
     (\<exists>srv \<in> set (members (se_api E) (st_raft s)). conflicts n a srv \<and>
        (\<exists>r. fst (ra_RemoveServer (se_api E) (srv_ID srv) r) = Some e)) \<or>
     (\<exists>r. fst (ra_AddVoter (se_api E) n a r) = Some e)) \<and>
    st_m st = st_m s \<and> st_fs st = st_fs s"
proof -
  obtain we b r where walk: "walkRaftServers (se_api E) (st_raft s) (join_server (se_api E) n a)
      (False, st_raft s) = (we, b, r)" by (metis prod_cases3)
  show ?thesis
  proof (cases we)
    case None
    with walk assms obtain e r' where "ra_AddVoter (se_api E) n a r = (Some e, r')"
        "err = ErrWrap (''node '' @ n @ '' at '' @ a @ '' joined error '') e" "st = s\<lparr>st_raft := r'\<rparr>"
      by (auto simp: RaftStore_Join_def IsLeader_def split: bool.splits prod.splits option.splits)
    then show ?thesis
      by (intro exI [of _ "''node '' @ n @ '' at '' @ a @ '' joined error ''"] exI [of _ e] conjI)
        (auto intro: exI [of _ r])
  next
    case (Some e1)
    with walk assms have err: "err = e1" "st = s\<lparr>st_raft := r\<rparr>"
      by (auto simp: RaftStore_Join_def IsLeader_def)
    show ?thesis
    proof (cases "fst (ra_GetConfiguration (se_api E) (st_raft s))")
      case None
      with walk Some have "walk_loop (join_server (se_api E) n a) (members (se_api E) (st_raft s))
          (False, st_raft s) = (Some e1, b, r)"
        by (auto simp: walkRaftServers_def members_def split: prod.splits option.splits)
      from walk_join_error [OF this] obtain srv e r1 r2 where
        "srv \<in> set (members (se_api E) (st_raft s))" "conflicts n a srv"
        "ra_RemoveServer (se_api E) (srv_ID srv) r1 = (Some e, r2)"
        "e1 = ErrWrap ''failed to invoke walk fn: ''
           (ErrWrap (''error removing existing node '' @ n @ '' at '' @ a @ '': '') e)" by blast
      with err show ?thesis
        by (intro exI [of _ "''failed to invoke walk fn: error removing existing node '' @ n @ '' at '' @ a @ '': ''"]
            exI [of _ e] conjI) (auto intro!: bexI [of _ srv] exI [of _ r1])
    next
      case (Some e)
      with walk \<open>we = Some e1\<close> have "e1 = ErrWrap ''failed to get raft configuration: '' e"
        by (auto simp: walkRaftServers_def split: prod.splits option.splits)
      with err Some show ?thesis
        by (intro exI [of _ "''failed to get raft configuration: ''"] exI [of _ e] conjI) auto
    qed
  qed
qed

text \<open>
  C34. An error of Raft during a join reaches the client with its text and cause: when the leader's
  \<open>Join\<close> fails, the error wraps one that Raft reported, when the configuration was read, when a
  conflicting server was to be removed or when the voter was to be added; \<open>errors.Is\<close> finds it in
  the chain. The map and the peers file are as before, and the client gets a JSON answer, with
  status 200, that is not OK and whose message ends with the text of Raft's error.
\<close>

theorem join_error_reaches_client:
  assumes "IsLeader E (sv_Store s)" "RaftStore_Join E n a (sv_Store s) = (Some err, st)"
    and "rq_Method rq = ''POST''" "rq_Path rq = RaftPath @ ''/join''"
    and "read_body rq = Inr body" "js_unjoin (se_js E) body = Inr m"
    and "JoinRequest_Fix (EmptyThen (Header_Get XOriginRemoteAddr rq) (rq_RemoteAddr rq)) m =
          Ret \<lparr>jr_Addr = a, jr_NodeID = n\<rparr>"
    and "answers_ok (se_js E)"
  shows "\<exists>pre e w'. errors_Is err e \<and> err_Error err = pre @ err_Error e \<and>
    (fst (ra_GetConfiguration (se_api E) (st_raft (sv_Store s))) = Some e \<or>
     (\<exists>srv \<in> set (members (se_api E) (st_raft (sv_Store s))). conflicts n a srv \<and>
        (\<exists>r. fst (ra_RemoveServer (se_api E) (srv_ID srv) r) = Some e)) \<or>
     (\<exists>r. fst (ra_AddVoter (se_api E) n a r) = Some e)) \<and>
    st_m st = st_m (sv_Store s) \<and> st_fs st = st_fs (sv_Store s) \<and>
    ServeHTTP E V clk rq (s, new_response) = (Ret (), s\<lparr>sv_Store := st\<rparr>, w') \<and> status_of w' = 200 \<and>
    js_unrsp (se_js E) (rs_Body w') = (rsp_msg False (pre @ err_Error e), None)"
proof -
  let ?w = "WriteAsJSON (js_rsp (se_js E) (rsp_msg False (err_Error err))) new_response"
  have serve: "ServeHTTP E V clk rq (s, new_response) = (Ret (), s\<lparr>sv_Store := st\<rparr>, ?w)"
    using assms by (simp add: ServeHTTP_raft [OF assms(4)] handleRaftRequest_def CheckMethodE_def
        tryForwardToLeaderFn_def handleJoin_def report_def)
  have st: "status_of ?w = 200" by (simp add: WriteAsJSON_def Write_def new_response_def status_of_def)
  from Join_cause [OF assms(1,2)] obtain pre e where "err_Error err = pre @ err_Error e \<and> errors_Is err e \<and>
    (fst (ra_GetConfiguration (se_api E) (st_raft (sv_Store s))) = Some e \<or>
     (\<exists>srv \<in> set (members (se_api E) (st_raft (sv_Store s))). conflicts n a srv \<and>
        (\<exists>r. fst (ra_RemoveServer (se_api E) (srv_ID srv) r) = Some e)) \<or>
     (\<exists>r. fst (ra_AddVoter (se_api E) n a r) = Some e)) \<and>
    st_m st = st_m (sv_Store s) \<and> st_fs st = st_fs (sv_Store s)" by blast
  with serve st assms(8) show ?thesis
    by (intro exI [of _ pre] exI [of _ e] exI [of _ ?w]) (simp add: answers_okD)
qed

definition lost_senv :: "(demo_raft, string) store_env" where
  "lost_senv = (demo_senv utc)\<lparr>se_api := demo_api\<lparr>ra_AddVoter := \<lambda>_ _ r. (Some (Err ''leadership lost''), r)\<rparr>\<rparr>"

theorem join_error_reaches_client_witness:
  "\<exists>pre e w'. ServeHTTP lost_senv demo_venv (\<lambda>_. demo_t)
       (demo_request ''POST'' (RaftPath @ ''/join'')
          (enc_join \<lparr>jr_Addr = ''10.0.0.9:12000'', jr_NodeID = ''10.0.0.9:11000,10.0.0.9:12000''\<rparr>))
       (demo_service, new_response) = (Ret (), demo_service, w') \<and> status_of w' = 200 \<and>
     js_unrsp demo_json (rs_Body w') = (rsp_msg False (pre @ err_Error e), None)"
proof -
  let ?m = "\<lparr>jr_Addr = ''10.0.0.9'' @ '':'' @ ''12000'', jr_NodeID = mk_NodeID ''10.0.0.9'' ''11000'' ''12000''\<rparr>"
  let ?rq = "demo_request ''POST'' (RaftPath @ ''/join'') (enc_join ?m)"
  have plain: "id_plain ''10.0.0.9''" "id_plain ''40000''" "id_plain ''11000''" "id_plain ''12000''"
    by (simp_all add: id_plain_def addr_plain_def)
  have api: "se_js lost_senv = demo_json" by (simp add: lost_senv_def)
  have lead: "IsLeader lost_senv (sv_Store demo_service)"
    by (simp add: lost_senv_def IsLeader_def demo_service_def demo_api_def demo_raft0_def)
  obtain err where err: "RaftStore_Join lost_senv (mk_NodeID ''10.0.0.9'' ''11000'' ''12000'') ''10.0.0.9:12000''
      (sv_Store demo_service) = (Some err, sv_Store demo_service)"
    by (simp add: RaftStore_Join_def lost_senv_def demo_service_def walkRaftServers_def join_server_def demo_defs
        mk_NodeID_def)
  have rq: "rq_Method ?rq = ''POST''" "rq_Path ?rq = RaftPath @ ''/join''" "read_body ?rq = Inr (enc_join ?m)"
    by (simp_all add: demo_request_def read_body_def)
  have caller: "EmptyThen (Header_Get XOriginRemoteAddr ?rq) (rq_RemoteAddr ?rq) = ''10.0.0.9'' @ '':'' @ ''40000''"
    by (simp add: demo_request_def Header_Get_def EmptyThen_def)
  have dec: "js_unjoin (se_js lost_senv) (enc_join ?m) = Inr ?m" by (simp add: api demo_json_def)
  have fix_m: "JoinRequest_Fix (EmptyThen (Header_Get XOriginRemoteAddr ?rq) (rq_RemoteAddr ?rq)) ?m =
      Ret \<lparr>jr_Addr = ''10.0.0.9:12000'', jr_NodeID = mk_NodeID ''10.0.0.9'' ''11000'' ''12000''\<rparr>"
    unfolding caller JoinRequest_Fix_plain [OF plain(1,2,1,3,4)] by (simp add: EqualsThen_def)
  have ans: "answers_ok (se_js lost_senv)" by (simp add: api demo_answers_ok)
  have same: "demo_service\<lparr>sv_Store := sv_Store demo_service\<rparr> = demo_service" by simp
  from join_error_reaches_client [OF lead err rq dec fix_m ans, of demo_venv "\<lambda>_. demo_t"]
  obtain pre e w' where "ServeHTTP lost_senv demo_venv (\<lambda>_. demo_t) ?rq (demo_service, new_response) =
      (Ret (), demo_service, w')" "status_of w' = 200"
      "js_unrsp demo_json (rs_Body w') = (rsp_msg False (pre @ err_Error e), None)"
    unfolding same api by blast
  then show ?thesis by (intro exI [of _ pre] exI [of _ e] exI [of _ w']) (simp add: mk_NodeID_def)
qed

section \<open>Telling the other nodes\<close>

lemma tryFind_fs [simp]: "st_fs (tryFindAndJoinLeader js v s) = st_fs s"
  by (simp add: tryFindAndJoinLeader_def Let_def case_prod_beta)

lemma saveCluster_command:
  assumes "IsLeader E s" "Cluster E s = ((cl, None), s1)"
  shows "saveCluster E clk s =
    (case raft_Apply E (js_Command (se_js E)
        (set_cmd (se_loc E) (clk ''raft/cluster'') ''raft/cluster'' (js_cluster (se_js E) cl))) s1 of
       (Panic e, s2) \<Rightarrow> (Panic e, s2) | (Ret _, s2) \<Rightarrow> (Ret (), s2))"
proof -
  obtain n where "s1 = s\<lparr>st_net := n\<rparr>" using Cluster_frame [of E s] assms(2) by auto
  with assms(1) have "IsLeader E s1" by (simp add: IsLeader_def)
  with assms(2) show ?thesis by (simp add: saveCluster_def Set_leader)
qed

definition cluster_servers :: "RaftCluster \<Rightarrow> Server list" where
  "cluster_servers cl = map (\<lambda>p. \<lparr>srv_Suffrage = ParseSuffrage (peer_Suffrage p), srv_ID = peer_ID p,
     srv_Address = peer_Address p\<rparr>) (rc_Servers cl)"

definition utf8_cluster :: "RaftCluster \<Rightarrow> bool" where
  "utf8_cluster cl \<longleftrightarrow>
     (\<forall>p \<in> set (rc_Servers cl). valid_utf8 (peer_ID p) \<and> valid_utf8 (peer_Address p) \<and> valid_utf8 (peer_Suffrage p))"

lemma processSetRaftCluster_writes:
  assumes "json_ok (se_js F)" "peers_file_ok t" "utf8_cluster v" "js_uncluster (se_js F) (cmd_Value c) = (v, None)"
  shows "ReadPeersJSON (se_js F) (peers_path (st_Arg t)) (st_fs (processSetRaftCluster F c t)) = Inr (cluster_servers v)"
proof -
  let ?es = "map (\<lambda>server. \<lparr>ce_ID = peer_ID server, ce_Address = peer_Address server,
      ce_Suffrage = peer_Suffrage server\<rparr>) (rc_Servers v)"
  have "list_all utf8_entry ?es" using assms(3) by (auto simp: utf8_cluster_def list_all_iff utf8_entry_def)
  from json_okD(3) [OF assms(1) this] assms(2,4) show ?thesis
    by (simp add: processSetRaftCluster_def writeClusterConfigEntries_def writePeersJSON_def WriteFile_def
        ReadPeersJSON_def ReadFile_def peers_file_ok_def cluster_servers_def comp_def)
qed

text \<open>
  C39. The followers are never told: after a join the leader writes the cluster under the key
  \<open>raft/cluster\<close>. A node that applies that entry stores it like any other key; its peers file and
  its network stay as they are. Under the key \<open>/raft/cluster\<close>, which \<open>Apply\<close> watches for, the same
  value would have rewritten the peers file of every node to the servers of the cluster, and
  left the map alone.
\<close>

theorem saveCluster_misses_peers:
  assumes "json_ok (se_js E)" "answers_ok (se_js E)" "IsLeader E s" "Cluster E s = ((cl, None), s1)"
    and "clock_ok (se_loc E) (clk ''raft/cluster'')" "valid_utf8 (js_cluster (se_js E) cl)" "utf8_cluster cl"
    and "se_js F = se_js E" "peers_file_ok t"
    and "now - 100 * 1000000000 \<le>
      (clk ''raft/cluster'' + se_loc E (clk ''raft/cluster'') * 1000000000) div 1000000 * 1000000"
    and "\<And>l c. \<not> snd (Intercept (se_unm F) (st_Arg t) l c)"
  shows "let v = js_cluster (se_js E) cl;
      cmd = \<lambda>k. js_Command (se_js E) (set_cmd (se_loc E) (clk ''raft/cluster'') k v) in
    saveCluster E clk s = (case raft_Apply E (cmd ''raft/cluster'') s1 of
       (Panic e, s2) \<Rightarrow> (Panic e, s2) | (Ret _, s2) \<Rightarrow> (Ret (), s2)) \<and>
    (\<forall>l. log_Data l = cmd ''raft/cluster'' \<longrightarrow>
       Apply F now l t = (Ret RspNil, t\<lparr>st_m := (st_m t)(''raft/cluster'' \<mapsto> v)\<rparr>)) \<and>
    (\<forall>l. log_Data l = cmd ''/raft/cluster'' \<longrightarrow>
       (\<exists>t'. Apply F now l t = (Ret RspNil, t') \<and> st_m t' = st_m t \<and>
          ReadPeersJSON (se_js F) (peers_path (st_Arg t)) (st_fs t') = Inr (cluster_servers cl)))"
proof -
  let ?v = "js_cluster (se_js E) cl" and ?t = "clk ''raft/cluster''"
  have cmd: "utf8_Command (set_cmd (se_loc E) ?t k ?v)" if "valid_utf8 k" for k
    using that assms(6) by (rule utf8_set_cmd)
  have dec: "js_unCommand (se_js F) (js_Command (se_js E) (set_cmd (se_loc E) ?t k ?v)) = Inr (set_cmd (se_loc E) ?t k ?v)"
    if "valid_utf8 k" for k
    using json_okD(1) [OF assms(1) cmd [OF that]] assms(8) by simp
  have fresh: "\<not> too_old now (set_cmd (se_loc E) ?t k ?v)" for k
    using assms(10) by (simp add: too_old_set_cmd [OF assms(5)])
  have icp: "\<exists>rsp. Intercept (se_unm F) (st_Arg t) l c = (rsp, False)" for l c
    using assms(11) [of l c] by (metis (full_types) prod.collapse)
  have utf: "valid_utf8 ''raft/cluster''" "valid_utf8 ''/raft/cluster''" by (simp_all add: byte_in_def)
  have "Apply F now l t = (Ret RspNil, t\<lparr>st_m := (st_m t)(''raft/cluster'' \<mapsto> ?v)\<rparr>)"
    if "log_Data l = js_Command (se_js E) (set_cmd (se_loc E) ?t ''raft/cluster'' ?v)" for l
    using that dec [OF utf(1)] fresh [of "''raft/cluster''"] icp [of l "set_cmd (se_loc E) ?t ''raft/cluster'' ?v"]
    by (auto simp: Apply_def) (auto simp: set_cmd_def)
  moreover have "\<exists>t'. Apply F now l t = (Ret RspNil, t') \<and> st_m t' = st_m t \<and>
          ReadPeersJSON (se_js F) (peers_path (st_Arg t)) (st_fs t') = Inr (cluster_servers cl)"
    if "log_Data l = js_Command (se_js E) (set_cmd (se_loc E) ?t ''/raft/cluster'' ?v)" for l
  proof -
    let ?c = "set_cmd (se_loc E) ?t ''/raft/cluster'' ?v"
    have "cmd_Op ?c = ''set''" "cmd_Key ?c = ''/raft/cluster''" "cmd_Value ?c = ?v" by (simp_all add: set_cmd_def)
    then have "Apply F now l t = (Ret RspNil, processSetRaftCluster F ?c t)"
      using that dec [OF utf(2)] fresh [of "''/raft/cluster''"] icp [of l ?c] by (auto simp: Apply_def)
    moreover have "st_m (processSetRaftCluster F ?c t) = st_m t"
      using same_core_processSetRaftCluster [of t F ?c] by (simp add: same_core_def)
    moreover have "js_uncluster (se_js F) (cmd_Value ?c) = (cl, None)"
      using assms(2,8) by (simp add: answers_okD set_cmd_def)
    ultimately show ?thesis
      using processSetRaftCluster_writes [OF _ assms(9,7), of F ?c] assms(1,8) by simp
  qed
  ultimately show ?thesis unfolding Let_def using saveCluster_command [OF assms(3,4)] by blast
qed

lemma demo_Cluster:
  "\<exists>cl s1. Cluster (demo_senv utc) demo_store = ((cl, None), s1) \<and> utf8_cluster cl \<and> valid_utf8 (enc_cluster cl)"
  by (simp add: Cluster_def walkRaftServers_def cluster_peer_def Let_def demo_defs zero_RaftCluster_def zero_Peer_def utf8_cluster_def
      enc_cluster_def enc_list_def enc_str_def enc_peer_def byte_in_def NodeState_def)

theorem saveCluster_misses_peers_witness:
  "\<exists>cl s1 t'. Cluster (demo_senv utc) demo_store = ((cl, None), s1) \<and>
     Apply (demo_senv utc) demo_t
       \<lparr>log_Index = 1, log_Data = enc_Command (set_cmd utc demo_t ''/raft/cluster'' (enc_cluster cl))\<rparr> demo_store =
       (Ret RspNil, t') \<and>
     ReadPeersJSON demo_json (peers_path (st_Arg demo_store)) (st_fs t') = Inr (cluster_servers cl)"
proof -
  obtain cl s1 where cl: "Cluster (demo_senv utc) demo_store = ((cl, None), s1)"
    "utf8_cluster cl" "valid_utf8 (enc_cluster cl)" using demo_Cluster by blast
  let ?E = "demo_senv utc"
  have enc: "js_cluster demo_json cl = enc_cluster cl" by (simp add: demo_json_def)
  have "\<not> snd (Intercept (se_unm ?E) (st_Arg demo_store) l c)" for l c by simp
  from saveCluster_misses_peers [OF _ _ _ cl(1) _ _ cl(2) refl _ _ this, of "\<lambda>_. demo_t" demo_t]
  have "\<forall>l. log_Data l = enc_Command (set_cmd utc demo_t ''/raft/cluster'' (enc_cluster cl)) \<longrightarrow>
      (\<exists>t'. Apply ?E demo_t l demo_store = (Ret RspNil, t') \<and> st_m t' = st_m demo_store \<and>
         ReadPeersJSON demo_json (peers_path (st_Arg demo_store)) (st_fs t') = Inr (cluster_servers cl))"
    using cl demo_clock_ok(1) demo_store_ok(3) demo_fresh
    by (simp add: enc demo_json_ok demo_answers_ok Let_def)
  from this [rule_format, of "\<lparr>log_Index = 1, log_Data = _\<rparr>", OF raft_log.select_convs(2)]
  show ?thesis using cl(1) by blast
qed

end
