(* ===== verification/Finding_Leader.thy ===== *)
theory Finding_Leader
  imports Store_Open
begin

text \<open>
  The search for a leader (\<open>findLeader\<close> and \<open>tryFindAndJoinLeader\<close> of \<open>store.go\<close>) against the
  specification "the first verdict wins", and the recovery after a restart (\<open>recoverJoin\<close>,
  \<open>tryJoinLeader\<close>).
\<close>

section \<open>The search\<close>

text \<open>The requests for the cluster views of the given peers, and the world after them.\<close>

definition asks_views :: "Peer list \<Rightarrow> http_req list" where
  "asks_views ps = map (\<lambda>p. GET (URLRaftCluster (peer_ID p))) ps"

definition after :: "http_req list \<Rightarrow> http_world \<Rightarrow> http_world" where
  "after qs w = w\<lparr>http_log := http_log w @ qs\<rparr>"

text \<open>The leader a cluster view names: its leader entry, or else the first server that leads.\<close>

definition named_leader :: "RaftCluster \<times> go_error option \<Rightarrow> Peer option" where
  "named_leader v =
     (case v of
        (cl, Some err) \<Rightarrow> None
      | (cl, None) \<Rightarrow> find (\<lambda>p. peer_State p = StateLeader) (rc_Leader cl # rc_Servers cl))"

text \<open>
  The verdict on the \<open>k\<close>th peer: its own entry if that says it leads, otherwise the leader named by
  the view it answers with when the peers before it have been asked.
\<close>

definition verdict :: "json_lib \<Rightarrow> Peer list \<Rightarrow> http_world \<Rightarrow> nat \<Rightarrow> Peer option" where
  "verdict js ps w k =
     (if peer_State (ps ! k) = StateLeader then Some (ps ! k)
      else named_leader (fst (Cluster_of js (peer_ID (ps ! k)) (after (asks_views (take k ps)) w))))"

lemma after_Nil [simp]: "after [] w = w" by (simp add: after_def)

lemma after_after [simp]: "after b (after a w) = after (a @ b) w" by (simp add: after_def)

lemma Cluster_of_after: "snd (Cluster_of js nid w) = after [GET (URLRaftCluster nid)] w"
  by (auto simp: Cluster_of_def GetJSON_def do_http_def after_def split: sum.split)

lemma find_leader_view:
  "peer_State p \<noteq> StateLeader \<Longrightarrow> findLeader_loop js (p # ps) w =
     (case named_leader (fst (Cluster_of js (peer_ID p) w)) of
        Some n \<Rightarrow> ((n, True), after [GET (URLRaftCluster (peer_ID p))] w)
      | None \<Rightarrow> findLeader_loop js ps (after [GET (URLRaftCluster (peer_ID p))] w))"
  using Cluster_of_after [of js "peer_ID p" w]
  by (auto simp: named_leader_def split: prod.splits option.splits)

lemma asks_views_simps [simp]:
  "asks_views [] = []" "asks_views (p # ps) = GET (URLRaftCluster (peer_ID p)) # asks_views ps"
  by (simp_all add: asks_views_def)

lemma verdict_Suc [simp]:
  "verdict js (p # ps) w (Suc k) = verdict js ps (after [GET (URLRaftCluster (peer_ID p))] w) k"
  by (simp add: verdict_def)

lemma findLeader_none:
  assumes "\<And>k. k < length ps \<Longrightarrow> verdict js ps w k = None"
  shows "findLeader_loop js ps w = ((zero_Peer, False), after (asks_views ps) w)"
  using assms
proof (induction ps arbitrary: w)
  case (Cons p ps)
  have "verdict js (p # ps) w 0 = None" using Cons.prems [of 0] by simp
  then have "peer_State p \<noteq> StateLeader" "named_leader (fst (Cluster_of js (peer_ID p) w)) = None"
    by (simp_all add: verdict_def split: if_splits)
  moreover have "verdict js ps (after [GET (URLRaftCluster (peer_ID p))] w) k = None" if "k < length ps" for k
    using Cons.prems [of "Suc k"] that by simp
  ultimately show ?case using Cons.IH by (simp add: find_leader_view del: findLeader_loop.simps)
qed simp

lemma findLeader_some:
  assumes "k < length ps" "verdict js ps w k = Some p" "\<And>j. j < k \<Longrightarrow> verdict js ps w j = None"
  shows "findLeader_loop js ps w = ((p, True),
    after (asks_views (take (if peer_State (ps ! k) = StateLeader then k else Suc k) ps)) w)"
  using assms
proof (induction ps arbitrary: w k)
  case (Cons q ps)
  show ?case
  proof (cases k)
    case 0
    show ?thesis
    proof (cases "peer_State q = StateLeader")
      case True
      with 0 Cons.prems(2) show ?thesis by (simp add: verdict_def)
    next
      case False
      with 0 Cons.prems(2) show ?thesis by (simp add: verdict_def find_leader_view del: findLeader_loop.simps)
    qed
  next
    case (Suc k')
    have "verdict js (q # ps) w 0 = None" using Cons.prems(3) [of 0] Suc by simp
    then have q: "peer_State q \<noteq> StateLeader" "named_leader (fst (Cluster_of js (peer_ID q) w)) = None"
      by (simp_all add: verdict_def split: if_splits)
    have "verdict js ps (after [GET (URLRaftCluster (peer_ID q))] w) j = None" if "j < k'" for j
      using Cons.prems(3) [of "Suc j"] that Suc by simp
    with Cons.IH [of k' "after [GET (URLRaftCluster (peer_ID q))] w"] Cons.prems Suc q show ?thesis
      by (simp add: find_leader_view del: findLeader_loop.simps)
  qed
qed simp

lemma named_leader_leads: "named_leader v = Some p \<Longrightarrow> peer_State p = StateLeader"
  by (auto simp: named_leader_def find_Some_iff split: prod.splits option.splits if_splits)

lemma verdict_leads: "verdict js ps w k = Some p \<Longrightarrow> peer_State p = StateLeader"
  by (auto simp: verdict_def named_leader_leads split: if_splits)

text \<open>
  C28. Searching for a leader: the peers of the cluster view are taken in order; the first one that
  is listed as leader, or whose own view of the cluster names a leader, decides. Only the views of
  the peers before the decision were fetched, one request each, in order. The peer found claims
  to lead, and the node asks it to let it join, with one request, at the HTTP address in its ID,
  provided it has an ID. When no peer and no view names a leader, every peer was asked and no join
  request is sent. The map, the files, Raft and the parameters are left alone.
\<close>

theorem find_and_join:
  "let ps = rc_Servers cl; s' = tryFindAndJoinLeader js cl s; w = st_net s;
       asked = \<lambda>n. after (asks_views (take n ps)) w in
    s' = s\<lparr>st_net := st_net s'\<rparr> \<and>
    (\<forall>k < length ps. \<forall>p. verdict js ps w k = Some p \<longrightarrow> (\<forall>j < k. verdict js ps w j = None) \<longrightarrow>
       (let n = (if peer_State (ps ! k) = StateLeader then k else Suc k) in
        peer_State p = StateLeader \<and>
        findLeader js cl w = ((p, True), asked n) \<and>
        st_net s' = (if peer_ID p = [] then asked n
          else snd (Join js (NodeID_HTTPAddr (peer_ID p)) (arg_RaftAddr (st_Arg s)) (arg_NodeID (st_Arg s)) (asked n))) \<and>
        posts (http_log (st_net s')) = posts (http_log w) @
          (if peer_ID p = [] then [] else [BindAddr_URLRaftJoin (NodeID_HTTPAddr (peer_ID p))]))) \<and>
    ((\<forall>k < length ps. verdict js ps w k = None) \<longrightarrow>
       findLeader js cl w = ((zero_Peer, False), asked (length ps)) \<and> st_net s' = asked (length ps) \<and>
       posts (http_log (st_net s')) = posts (http_log w))"
proof -
  have gets: "posts (http_log (after (asks_views ps) w)) = posts (http_log w)" for ps w
  proof -
    have "posts (asks_views ps) = []" by (induction ps) auto
    then show ?thesis by (simp add: after_def)
  qed
  have "tryFindAndJoinLeader js cl s = s\<lparr>st_net := st_net (tryFindAndJoinLeader js cl s)\<rparr>"
    by (auto simp: tryFindAndJoinLeader_def Let_def split: prod.splits)
  moreover have "findLeader js cl (st_net s) = ((p, True), w') \<Longrightarrow>
      st_net (tryFindAndJoinLeader js cl s) = (if peer_ID p = [] then w'
        else snd (Join js (NodeID_HTTPAddr (peer_ID p)) (arg_RaftAddr (st_Arg s)) (arg_NodeID (st_Arg s)) w'))" for p w'
    by (simp add: tryFindAndJoinLeader_def)
  moreover have "findLeader js cl (st_net s) = ((zero_Peer, False), w') \<Longrightarrow>
      st_net (tryFindAndJoinLeader js cl s) = w'" for w'
    by (simp add: tryFindAndJoinLeader_def zero_Peer_def)
  ultimately show ?thesis
    using findLeader_some [where ps = "rc_Servers cl" and js = js and w = "st_net s"]
      findLeader_none [where ps = "rc_Servers cl" and js = js and w = "st_net s"]
    by (auto simp: Let_def findLeader_def verdict_leads gets Join_posts)
qed

text \<open>Two nodes: the first one listed does not answer, the second one names itself the leader.\<close>

definition found_cluster :: RaftCluster where
  "found_cluster = zero_RaftCluster\<lparr>
     rc_Leader := zero_Peer\<lparr>peer_ID := ''10.0.0.2:11000,10.0.0.2:12000'', peer_State := ''Leader''\<rparr>\<rparr>"

definition found_net :: http_world where
  "found_net = \<lparr>responder = (\<lambda>_ q. if q = GET (URLRaftCluster ''10.0.0.2:11000,10.0.0.2:12000'')
       then Inr (200, enc_cluster found_cluster) else Inl (Err ''connection refused'')), http_log = []\<rparr>"

theorem find_and_join_witness:
  "posts (http_log (st_net (tryFindAndJoinLeader demo_json
       (zero_RaftCluster\<lparr>rc_Servers := [zero_Peer\<lparr>peer_ID := demo_ID\<rparr>,
          zero_Peer\<lparr>peer_ID := ''10.0.0.2:11000,10.0.0.2:12000''\<rparr>]\<rparr>)
       (demo_store\<lparr>st_net := found_net\<rparr>)))) = [''http://10.0.0.2:11000/hraftd/raft/join'']"
proof -
  let ?ps = "[zero_Peer\<lparr>peer_ID := demo_ID\<rparr>, zero_Peer\<lparr>peer_ID := ''10.0.0.2:11000,10.0.0.2:12000''\<rparr>]"
  have url: "URLRaftCluster demo_ID \<noteq> URLRaftCluster ''10.0.0.2:11000,10.0.0.2:12000''"
    by (simp add: URLRaftCluster_def demo_ID_def NodeID_URL_def NodeID_HTTPAddr_def BindAddr_URL_def RaftPath_def arg_eval go_eval
        str_TrimPrefix_def str_HasPrefix_def)
  have v: "verdict demo_json ?ps found_net 0 = None"
    "verdict demo_json ?ps found_net 1 = Some (rc_Leader found_cluster)"
    using url
    by (simp_all add: verdict_def named_leader_def Cluster_of_def GetJSON_def do_http_def found_net_def
        after_def zero_Peer_def StateLeader_def parseRSP_def found_cluster_def demo_json_def)
  let ?cl = "zero_RaftCluster\<lparr>rc_Servers := ?ps\<rparr>" and ?s = "demo_store\<lparr>st_net := found_net\<rparr>"
  have "verdict demo_json (rc_Servers ?cl) (st_net ?s) 1 = Some (rc_Leader found_cluster)" using v(2) by simp
  moreover have "\<forall>j < 1. verdict demo_json (rc_Servers ?cl) (st_net ?s) j = None" using v(1) by simp
  moreover have "1 < length (rc_Servers ?cl)" by simp
  ultimately have "posts (http_log (st_net (tryFindAndJoinLeader demo_json ?cl ?s))) = posts (http_log (st_net ?s)) @
      (if peer_ID (rc_Leader found_cluster) = [] then []
       else [BindAddr_URLRaftJoin (NodeID_HTTPAddr (peer_ID (rc_Leader found_cluster)))])"
    using find_and_join [of ?cl demo_json ?s] unfolding Let_def by blast
  then show ?thesis
    by (simp add: found_cluster_def found_net_def BindAddr_URLRaftJoin_def NodeID_HTTPAddr_def BindAddr_URL_def
        RaftPath_def arg_eval go_eval str_TrimPrefix_def str_HasPrefix_def)
qed

section \<open>Recovery after a restart\<close>

definition asks_states :: "Server list \<Rightarrow> http_req list" where
  "asks_states servers = map (\<lambda>srv. GET (URLRaftState (srv_ID srv))) servers"

text \<open>The \<open>k\<close>th server answers, asked after those before it, that it leads.\<close>

definition claims_lead :: "json_lib \<Rightarrow> Server list \<Rightarrow> http_world \<Rightarrow> nat \<Rightarrow> bool" where
  "claims_lead js ps w k =
     (let r = fst (getNodeState js (srv_ID (ps ! k)) (after (asks_states (take k ps)) w))
      in rsp_OK r \<and> rsp_Msg r = StateLeader)"

definition claimants :: "json_lib \<Rightarrow> Server list \<Rightarrow> http_world \<Rightarrow> NodeID list" where
  "claimants js ps w = map (\<lambda>k. srv_ID (ps ! k)) (filter (claims_lead js ps w) [0..<length ps])"

lemma getNodeState_after: "snd (getNodeState js nid w) = after [GET (URLRaftState nid)] w"
  by (auto simp: getNodeState_def GetJSON_def do_http_def after_def split: sum.split prod.split)

lemma asks_states_simps [simp]:
  "asks_states [] = []" "asks_states (p # ps) = GET (URLRaftState (srv_ID p)) # asks_states ps"
  by (simp_all add: asks_states_def)

lemma claimants_simps [simp]:
  "claimants js [] w = []"
  "claimants js (p # ps) w =
     (let r = fst (getNodeState js (srv_ID p) w); w' = after [GET (URLRaftState (srv_ID p))] w in
      if rsp_OK r \<and> rsp_Msg r = StateLeader then srv_ID p # claimants js ps w' else claimants js ps w')"
proof -
  show "claimants js [] w = []" by (simp add: claimants_def)
  have "claims_lead js (p # ps) w (Suc k) = claims_lead js ps (after [GET (URLRaftState (srv_ID p))] w) k" for k
    by (simp add: claims_lead_def)
  then have "filter (claims_lead js (p # ps) w) (map Suc [0..<length ps]) =
      map Suc (filter (claims_lead js ps (after [GET (URLRaftState (srv_ID p))] w)) [0..<length ps])"
    by (simp add: filter_map comp_def)
  then show "claimants js (p # ps) w =
     (let r = fst (getNodeState js (srv_ID p) w); w' = after [GET (URLRaftState (srv_ID p))] w in
      if rsp_OK r \<and> rsp_Msg r = StateLeader then srv_ID p # claimants js ps w' else claimants js ps w')"
    by (simp add: claimants_def upt_conv_Cons map_Suc_upt [symmetric] claims_lead_def Let_def comp_def
        del: upt_Suc map_Suc_upt)
qed

lemma leaderID_loop_eq:
  "leaderID_loop js ps l w = (last (l # claimants js ps w), after (asks_states ps) w)"
proof (induction ps arbitrary: l w)
  case (Cons p ps)
  obtain r w' where r: "getNodeState js (srv_ID p) w = (r, w')" by fastforce
  then have "w' = after [GET (URLRaftState (srv_ID p))] w" using getNodeState_after [of js "srv_ID p" w] by simp
  with Cons.IH r show ?case by (auto simp: Let_def)
qed simp

text \<open>
  Recovery after a restart fails exactly when the peers file cannot be read or decoded, and
  then nothing has happened. Otherwise it reports no error, whatever the network does: every
  server in the file is asked for its state, once and in order; if some of them claim to lead, the
  last one that does gets a single join request (an earlier claim is forgotten). The map, Raft's
  own state and the files stay as they are.
\<close>

theorem recoverJoin_tries:
  "recoverJoin js file s =
     (case ReadPeersJSON js file (st_fs s) of
        Inl err \<Rightarrow> (Some err, s)
      | Inr servers \<Rightarrow>
          let w = after (asks_states servers) (st_net s); leader = last ([] # claimants js servers (st_net s)) in
          (None, s\<lparr>st_net := (if leader = [] then w else
             snd (Join js (NodeID_HTTPAddr leader) (arg_RaftAddr (st_Arg s)) (arg_NodeID (st_Arg s)) w))\<rparr>))"
  by (auto simp: recoverJoin_def tryJoinLeader_def leaderID_loop_eq Let_def split: sum.splits prod.splits)

end
