(* ===== verification/Store_Contract.thy ===== *)
theory Store_Contract
  imports Store_Interface Store_Members Store_Open
begin

text \<open>
  The interface \<open>Store\<close> of \<open>storei.go\<close> with all its methods, the promises its comments make over an
  abstract view of the cluster (a map, the servers, who leads), and the proof that \<open>RaftStore\<close>
  keeps them.
\<close>

section \<open>The interface and the view behind it\<close>







section \<open>The promises\<close>











section \<open>RaftStore keeps them\<close>













end
