(* ===== verification/Ticker_Liveness.thy ===== *)
theory Ticker_Liveness
  imports Ticker Fair_Runs
begin

text \<open>
  What a ticker does in the long run. The steps of \<open>Ticker\<close> get labels, a run is an infinite
  sequence of states, and a run is fair when a goroutine that can begin, or that can return, all the
  time does so at some point. Go's scheduler gives every goroutine its turn, and its \<open>select\<close>
  chooses at random among the cases that are ready.
\<close>

section \<open>Runs\<close>

datatype 'f action = Start "'f option list" | Stop | Begin nat | Tick nat | Finish nat

definition run_at :: "nat \<Rightarrow> 'f Ticker \<Rightarrow> run option" where
  "run_at i j = (if i < length (tk_runs j) then Some (tk_runs j ! i) else None)"

fun act :: "'f action \<Rightarrow> 'f Ticker \<Rightarrow> 'f Ticker option" where
  "act (Start fns) j = Some (StartAsync fns j)"
| "act Stop j = (case StopAsync j of (Ret _, j') \<Rightarrow> Some j' | (Panic _, _) \<Rightarrow> None)"
| "act (Begin i) j =
     (if run_at i j = Some Launched
      then Some ((if tk_startInstantly j then execFns j else j)\<lparr>tk_runs := (tk_runs j)[i := Looping]\<rparr>)
      else None)"
| "act (Tick i) j = (if run_at i j = Some Looping then Some (execFns j) else None)"
| "act (Finish i) j =
     (if run_at i j = Some Looping \<and> tk_closed j then Some (j\<lparr>tk_runs := (tk_runs j)[i := Returned]\<rparr>) else None)"

lemma run_at_Some: "run_at i j = Some x \<longleftrightarrow> i < length (tk_runs j) \<and> tk_runs j ! i = x"
  by (simp add: run_at_def)

text \<open>The labels add nothing: some action leads from one state to the other exactly when a step does.\<close>

lemma tstep_act: "tstep j j' \<longleftrightarrow> (\<exists>a. act a j = Some j')"
proof
  assume "tstep j j'"
  then show "\<exists>a. act a j = Some j'"
  proof cases
    case (start fns)
    then show ?thesis by (intro exI [of _ "Start fns"]) simp
  next
    case stop
    then show ?thesis by (intro exI [of _ Stop]) simp
  next
    case (begin_run i)
    then show ?thesis by (intro exI [of _ "Begin i"]) (simp add: run_at_def)
  next
    case (tick i)
    then show ?thesis by (intro exI [of _ "Tick i"]) (simp add: run_at_def)
  next
    case (finish i)
    then show ?thesis by (intro exI [of _ "Finish i"]) (simp add: run_at_def)
  qed
next
  assume "\<exists>a. act a j = Some j'"
  then obtain a where a: "act a j = Some j'" ..
  show "tstep j j'"
  proof (cases a)
    case Stop
    with a show ?thesis by (auto intro: tstep.stop split: prod.splits outcome.splits)
  next
    case (Begin i)
    with a tstep.begin_run [of i j] show ?thesis by (auto simp: run_at_Some split: if_splits)
  qed (use a in \<open>auto simp: run_at_Some intro: tstep.start tstep.tick tstep.finish split: if_splits\<close>)
qed

definition fair_run :: "(nat \<Rightarrow> 'f Ticker) \<Rightarrow> (nat \<Rightarrow> 'f action option) \<Rightarrow> bool" where
  "fair_run \<sigma> \<alpha> \<longleftrightarrow> is_run act \<sigma> \<alpha> \<and> (\<forall>i. weakly_fair act \<sigma> \<alpha> (Begin i) \<and> weakly_fair act \<sigma> \<alpha> (Finish i))"

section \<open>What an action can do to a goroutine\<close>

lemma act_closed: "act a j = Some j' \<Longrightarrow> tk_closed j \<Longrightarrow> tk_closed j'"
  by (cases a) (auto simp: StopAsync_def execFns_def split: if_splits)

lemma act_runs: "act a j = Some j' \<Longrightarrow> (\<And>fns. a \<noteq> Start fns) \<Longrightarrow> length (tk_runs j') = length (tk_runs j)"
  by (cases a) (auto simp: StopAsync_def execFns_def split: if_splits)

text \<open>Only a goroutine that begins or ticks calls the functions.\<close>

lemma act_log: "act a j = Some j' \<Longrightarrow> (\<And>i x. run_at i j = Some x \<Longrightarrow> x = Returned) \<Longrightarrow> tk_log j' = tk_log j"
  by (cases a) (fastforce simp: StartAsync_def StopAsync_def execFns_def Let_def split: if_splits)+

text \<open>A goroutine goes from launched to looping by its \<open>Begin\<close> and from looping to returned by its \<open>Finish\<close>.\<close>

lemma act_run_at:
  assumes "act a j = Some j'" "run_at i j = Some x"
  shows "run_at i j' = Some (if x = Launched \<and> a = Begin i then Looping
    else if x = Looping \<and> a = Finish i then Returned else x)"
  using assms
  by (cases a) (auto simp: run_at_def StartAsync_def StopAsync_def execFns_def Let_def nth_append
      nth_list_update split: if_splits)

text \<open>So a goroutine begins, and once the channel is closed it returns.\<close>

interpretation begins: leads_to act "\<lambda>_. True" "\<lambda>j. run_at i j = Some Launched" "Begin i"
    "\<lambda>j. run_at i j = Some Looping" for i
  by unfold_locales (auto simp: run_at_def execFns_def dest: act_run_at split: if_splits)

interpretation returns: leads_to act tk_closed "\<lambda>j. run_at i j = Some Looping" "Finish i"
    "\<lambda>j. run_at i j = Some Returned" for i
  by unfold_locales (auto simp: run_at_def dest: act_run_at split: if_splits)

lemma run_closed: "is_run act \<sigma> \<alpha> \<Longrightarrow> tk_closed (\<sigma> n) \<Longrightarrow> n \<le> m \<Longrightarrow> tk_closed (\<sigma> m)"
  by (rule run_keeps [where P = tk_closed]) (auto intro: act_closed)

section \<open>Every goroutine ends after a stop\<close>

lemma goroutine_returns:
  assumes "fair_run \<sigma> \<alpha>" "tk_closed (\<sigma> n)" "i < length (tk_runs (\<sigma> n))"
  shows "\<exists>m \<ge> n. run_at i (\<sigma> m) = Some Returned"
proof -
  have r: "is_run act \<sigma> \<alpha>" "weakly_fair act \<sigma> \<alpha> (Begin i)" "weakly_fair act \<sigma> \<alpha> (Finish i)"
    using assms(1) by (auto simp: fair_run_def)
  have loop: "\<exists>m \<ge> k. run_at i (\<sigma> m) = Some Returned" if "n \<le> k" "run_at i (\<sigma> k) = Some Looping" for k
    using returns.progress [OF r(1,3) run_closed [OF r(1) assms(2)] that(2)] that(1) by simp
  obtain x where x: "run_at i (\<sigma> n) = Some x" using assms(3) by (simp add: run_at_def)
  show ?thesis
  proof (cases x)
    case Launched
    with begins.progress [OF r(1,2)] x obtain k where "n \<le> k" "run_at i (\<sigma> k) = Some Looping" by blast
    with loop show ?thesis by (meson le_trans)
  qed (use x loop in auto)
qed

lemma returned_stays:
  assumes "is_run act \<sigma> \<alpha>" "run_at i (\<sigma> n) = Some Returned" "n \<le> m"
  shows "run_at i (\<sigma> m) = Some Returned"
  by (rule run_keeps [where P = "\<lambda>j. run_at i j = Some Returned", OF assms]) (auto dest: act_run_at)

lemma all_returned_log:
  assumes "is_run act \<sigma> \<alpha>" "\<And>i m. i < l \<Longrightarrow> N \<le> m \<Longrightarrow> run_at i (\<sigma> m) = Some Returned"
    and "\<And>m. N \<le> m \<Longrightarrow> length (tk_runs (\<sigma> m)) = l" "N \<le> m"
  shows "tk_log (\<sigma> m) = tk_log (\<sigma> N)"
proof (rule run_keeps [where P = "\<lambda>j. tk_log j = tk_log (\<sigma> N)", OF assms(1) refl assms(4)])
  fix k a
  assume k: "N \<le> k" "act a (\<sigma> k) = Some (\<sigma> (Suc k))" "tk_log (\<sigma> k) = tk_log (\<sigma> N)"
  have "run_at i (\<sigma> k) = Some x \<Longrightarrow> x = Returned" for i x
    using assms(2) [of i k] assms(3) [of k] k(1) by (auto simp: run_at_def split: if_splits)
  with act_log [OF k(2)] k(3) show "tk_log (\<sigma> (Suc k)) = tk_log (\<sigma> N)" by simp
qed

text \<open>
  C30. A stop ends the ticker for good: in every fair run, each goroutine that exists when the channel
  is closed, or is started after that, returns in the end, so a ticker that is started again after
  a stop does not keep ticking. If it is not started any more, there is a moment from which on all
  goroutines have returned and no function is called again.
\<close>

theorem stopped_ticker_ends:
  assumes "fair_run \<sigma> \<alpha>" "tk_closed (\<sigma> n)"
  shows "(\<forall>k \<ge> n. \<forall>i < length (tk_runs (\<sigma> k)). \<exists>m \<ge> k. \<forall>m' \<ge> m. tk_runs (\<sigma> m') ! i = Returned) \<and>
    ((\<forall>k \<ge> n. \<forall>fns. \<alpha> k \<noteq> Some (Start fns)) \<longrightarrow>
       (\<exists>N \<ge> n. \<forall>m \<ge> N. set (tk_runs (\<sigma> m)) \<subseteq> {Returned} \<and> tk_log (\<sigma> m) = tk_log (\<sigma> N)))"
proof -
  have r: "is_run act \<sigma> \<alpha>" using assms(1) by (simp add: fair_run_def)
  have ends: "\<exists>m \<ge> k. \<forall>m' \<ge> m. run_at i (\<sigma> m') = Some Returned"
    if "n \<le> k" "i < length (tk_runs (\<sigma> k))" for k i
    using goroutine_returns [OF assms(1) run_closed [OF r assms(2) that(1)] that(2)] returned_stays [OF r] by blast
  have "\<exists>N \<ge> n. \<forall>m \<ge> N. set (tk_runs (\<sigma> m)) \<subseteq> {Returned} \<and> tk_log (\<sigma> m) = tk_log (\<sigma> N)"
    if no: "\<forall>k \<ge> n. \<forall>fns. \<alpha> k \<noteq> Some (Start fns)"
  proof -
    let ?l = "length (tk_runs (\<sigma> n))"
    have len: "length (tk_runs (\<sigma> m)) = ?l" if "n \<le> m" for m
      by (rule run_keeps [where P = "\<lambda>j. length (tk_runs j) = ?l", OF r refl that]) (use no act_runs in fastforce)
    have "\<exists>f. \<forall>i < ?l. n \<le> f i \<and> (\<forall>m' \<ge> f i. run_at i (\<sigma> m') = Some Returned)"
      using ends [of n] by (intro choice) auto
    then obtain f where f: "\<And>i. i < ?l \<Longrightarrow> n \<le> f i" "\<And>i m. i < ?l \<Longrightarrow> f i \<le> m \<Longrightarrow> run_at i (\<sigma> m) = Some Returned"
      by blast
    define N where "N = Max (insert n (f ` {..<?l}))"
    have N: "n \<le> N" "\<And>i. i < ?l \<Longrightarrow> f i \<le> N" by (simp_all add: N_def)
    have ret: "run_at i (\<sigma> m) = Some Returned" if "i < ?l" "N \<le> m" for i m
      using f(2) [OF that(1)] N(2) [OF that(1)] that(2) by simp
    have "set (tk_runs (\<sigma> m)) \<subseteq> {Returned}" if "N \<le> m" for m
    proof
      fix x assume "x \<in> set (tk_runs (\<sigma> m))"
      then obtain i where i: "i < length (tk_runs (\<sigma> m))" "tk_runs (\<sigma> m) ! i = x" by (auto simp: in_set_conv_nth)
      with len [of m] N(1) that ret [of i m] show "x \<in> {Returned}" by (auto simp: run_at_def)
    qed
    moreover have "tk_log (\<sigma> m) = tk_log (\<sigma> N)" if "N \<le> m" for m
      by (rule all_returned_log [OF r ret len that]) (use N(1) in auto)
    ultimately show ?thesis using N(1) by blast
  qed
  moreover have "\<exists>m \<ge> k. \<forall>m' \<ge> m. tk_runs (\<sigma> m') ! i = Returned"
    if "n \<le> k" "i < length (tk_runs (\<sigma> k))" for k i
    using ends [OF that] by (simp add: run_at_Some) blast
  ultimately show ?thesis by blast
qed

theorem stopped_ticker_ends_witness:
  "\<exists>\<sigma> \<alpha>. fair_run \<sigma> \<alpha> \<and> \<sigma> 0 = NewTicker True [Some ''f''] \<and>
     (\<exists>N. \<forall>m \<ge> N. set (tk_runs (\<sigma> m)) \<subseteq> {Returned} \<and> tk_log (\<sigma> m) = tk_log (\<sigma> N))"
proof -
  let ?j = "NewTicker True [Some ''f'']"
  define as :: "string action list" where "as = [Start [], Begin 0, Stop, Finish 0]"
  obtain t where t: "exec act as ?j = Some t" "tk_closed t" "tk_runs t = [Returned]"
    by (simp add: as_def NewTicker_def StartAsync_def StopAsync_def execFns_def run_at_def)
  obtain \<sigma> \<alpha> where r: "is_run act \<sigma> \<alpha>" "\<sigma> 0 = ?j" "\<And>n. length as \<le> n \<Longrightarrow> \<sigma> n = t"
      "\<And>n. \<alpha> n = (if n < length as then Some (as ! n) else None)" "\<And>a. act a t = None \<Longrightarrow> weakly_fair act \<sigma> \<alpha> a"
    using finite_run [OF t(1)] by blast
  have "act (Begin i) t = None" "act (Finish i) t = None" for i using t(3) by (auto simp: run_at_def)
  with r(1,5) have fair: "fair_run \<sigma> \<alpha>" by (simp add: fair_run_def)
  have "tk_closed (\<sigma> 4)" "\<forall>k \<ge> 4. \<forall>fns. \<alpha> k \<noteq> Some (Start fns)" using r(3,4) t(2) by (simp_all add: as_def)
  with stopped_ticker_ends [OF fair, of 4] fair r(2) show ?thesis by blast
qed

end
