(* ===== verification/Demo_Program.thy ===== *)
theory Demo_Program
  imports Demo_Main
begin

text \<open>
  The wiring of the demo program (\<open>main\<close> of \<open>cmd/hraftd/main.go\<close>): flags, the interceptor, the log
  dealer for the configuration items, the job dealer, the start; and the work of one tick as a
  whole. Parsing the command line (\<open>pflag\<close>) is the parameter \<open>parse\<close>.
\<close>

section \<open>The handlers\<close>

text \<open>What the JSON decoder fills in for the two handlers, and what they return.\<close>

datatype demo_val = Items "RigConfItem list" | Req string | No_val

type_synonym demo_res = "JobRsp option"

definition rig_type :: go_type where
  "rig_type = TFunc [TSlice (TNamed ''main.RigConfItem'')] [TNamed ''interface {}'', error_type]"

definition job_type :: go_type where
  "job_type = TFunc [TPtr (TNamed ''main.JobReq'')] [TNamed ''main.JobRsp'', error_type]"

text \<open>The items for this node are printed (\<open>rig_prints\<close>); the answer is nil without an error either way.\<close>

definition rig_prints :: "NodeID \<Rightarrow> RigConfItem list \<Rightarrow> RigConfItem list option" where
  "rig_prints nodeID items =
     (let meItems = filter (\<lambda>i. ri_NodeID i = nodeID) items in if length meItems = 0 then None else Some meItems)"

definition rig_dealer :: "(demo_val, demo_res) handler" where
  "rig_dealer items = (None, None)"

text \<open>\<open>myJob\<close> as a handler: the registry passes it a pointer to a job request, as its type says.\<close>

definition job_dealer :: "(demo_val, demo_res) handler" where
  "job_dealer req =
     (case req of ByPtr (Req ID) \<Rightarrow> (case myJob ID of (rsp, err) \<Rightarrow> (Some rsp, err)) | _ \<Rightarrow> (None, None))"

section \<open>The wiring\<close>

text \<open>The interceptor prints the command and lets it pass.\<close>

definition wire :: "(demo_val, demo_res) Arg \<Rightarrow> (demo_val, demo_res) Arg" where
  "wire a =
     (let a = a\<lparr>arg_ApplyInterceptor := Some (\<lambda>_ _. False)\<rparr>
      in a\<lparr>arg_LogDealer := snd (RegisterLogDealer rigConf (Some (rig_type, rig_dealer)) (arg_LogDealer a))\<rparr>)"

definition main_arg ::
    "(FlagNames \<Rightarrow> FlagNames option) \<Rightarrow> (flag_def list \<Rightarrow> (demo_val, demo_res) Arg \<Rightarrow> (demo_val, demo_res) Arg) \<Rightarrow>
     (demo_val, demo_res) Arg" where
  "main_arg defaults_Set parse =
     (let (arg, flags) = DefineFlags defaults_Set [] [] in (parse flags arg)\<lparr>arg_LoggerSet := True\<rparr>)"

text \<open>
  \<open>main\<close> up to the wait for the interrupt: the result is the running service, a panic, or \<^term>\<open>None\<close> while
  it still waits in \<open>StartAll\<close>. The goroutine it starts beside that is \<open>leaderChanging\<close>.
\<close>

definition hraftd_main ::
    "host_env \<Rightarrow> (FlagNames \<Rightarrow> FlagNames option) \<Rightarrow>
     (flag_def list \<Rightarrow> (demo_val, demo_res) Arg \<Rightarrow> (demo_val, demo_res) Arg) \<Rightarrow>
     ('r, demo_val) store_env \<Rightarrow> 'r open_env \<Rightarrow> 'r \<Rightarrow> files \<Rightarrow> http_world \<Rightarrow>
     (string \<Rightarrow> string \<Rightarrow> go_error + 'ln) \<Rightarrow> 'r wait_event list \<Rightarrow> 'r wait_event list \<Rightarrow>
     ('r, demo_val, demo_res) Service outcome option" where
  "hraftd_main env defaults_Set parse E oe r0 fs net listen evs evs' =
     (case Arg_Fix env (main_arg defaults_Set parse) of
        Panic e \<Rightarrow> Some (Panic e)
      | Ret arg \<Rightarrow>
          (case Create E oe (wire arg) r0 fs net of
             Panic e \<Rightarrow> Some (Panic e)
           | Ret h \<Rightarrow>
               (case RegisterJobDealer ''/myjob'' (Some (job_type, job_dealer)) (sv_DealerMap h) of
                  (Panic e, m) \<Rightarrow> Some (Panic e)
                | (Ret (Some err), m) \<Rightarrow> Some (Panic (''failed to register /myjob, error '' @ err_Error err))
                | (Ret None, m) \<Rightarrow>
                    (case StartAll env listen E evs evs' (h\<lparr>sv_DealerMap := m\<rparr>) of
                       (None, h) \<Rightarrow> None
                     | (Some (Some err), h) \<Rightarrow> Some (Panic (''failed to start HTTP service: '' @ err_Error err))
                     | (Some None, h) \<Rightarrow> Some (Ret h)))))"

text \<open>The work of one tick: \<open>tick\<close>, and the function of the ticker that calls it.\<close>

definition tick ::
    "('r, 'v) store_env \<Rightarrow> (RigConfItem list \<Rightarrow> string) \<Rightarrow> (Peer \<Rightarrow> nat \<Rightarrow> int) \<Rightarrow> (Peer \<Rightarrow> nat \<Rightarrow> RigConfItem) \<Rightarrow>
     (Peer \<Rightarrow> int) \<Rightarrow> int \<Rightarrow> (string \<Rightarrow> string) \<Rightarrow> (string \<Rightarrow> go_error + JobRsp) \<Rightarrow> RaftCluster \<Rightarrow>
     ('r, 'v, 'w) RaftStore \<Rightarrow> unit outcome \<times> ('r, 'v, 'w) RaftStore" where
  "tick E enc clk fake rnd now enc_req unm_rsp c s =
     (let activePeers = ActivePeers c in
      case demoApplyLogs E enc clk fake rnd now activePeers s of
        (Panic e, s) \<Rightarrow> (Panic e, s)
      | (Ret _, s) \<Rightarrow>
          (Ret (), s\<lparr>st_net := snd (demoDistributeJobs (se_js E) enc_req unm_rsp activePeers (st_net s))\<rparr>))"

definition ticker_fn ::
    "('r, 'v) store_env \<Rightarrow> (RigConfItem list \<Rightarrow> string) \<Rightarrow> (Peer \<Rightarrow> nat \<Rightarrow> int) \<Rightarrow> (Peer \<Rightarrow> nat \<Rightarrow> RigConfItem) \<Rightarrow>
     (Peer \<Rightarrow> int) \<Rightarrow> int \<Rightarrow> (string \<Rightarrow> string) \<Rightarrow> (string \<Rightarrow> go_error + JobRsp) \<Rightarrow>
     ('r, 'v, 'w) RaftStore \<Rightarrow> unit outcome \<times> ('r, 'v, 'w) RaftStore" where
  "ticker_fn E enc clk fake rnd now enc_req unm_rsp s =
     (case Cluster E s of
        ((cluster, Some err), s') \<Rightarrow> (Ret (), s')
      | ((cluster, None), s') \<Rightarrow> tick E enc clk fake rnd now enc_req unm_rsp cluster s')"

section \<open>A wired node\<close>

text \<open>The parameters of a node wired as above, with no other log dealer.\<close>

definition wired :: "(demo_val, demo_res) Arg \<Rightarrow> bool" where
  "wired a \<longleftrightarrow> arg_ApplyInterceptor a = Some (\<lambda>_ _. False) \<and>
     ld_DealerMap (arg_LogDealer a) =
       \<lparr>Dealers = [rigConf \<mapsto> \<lparr>Fn = rig_dealer, ReqType = TSlice (TNamed ''main.RigConfItem'')\<rparr>]\<rparr>"

lemma wired_wire: "arg_LogDealer a = MakeLogDealer \<Longrightarrow> wired (wire a)"
  by (simp add: wired_def wire_def RegisterLogDealer_def RegisterJobDealer_def checkDealerFn_def rig_type_def
      MakeLogDealer_def MakeDealerMap_def Let_def)

text \<open>Decoding the items never fails with one of the registry's own errors.\<close>

definition plain_errors :: "(go_type \<Rightarrow> string \<Rightarrow> go_error + 'v) \<Rightarrow> bool" where
  "plain_errors unm \<longleftrightarrow> (\<forall>t b e. unm t b = Inl e \<longrightarrow> \<not> errors_Is e ErrDealerNoExists \<and> \<not> errors_Is e ErrDealerContinue)"

lemma wired_Intercept:
  assumes "wired a" "plain_errors unm"
  shows "Intercept unm a l c =
    (if cmd_Key c = rigConf
     then (case unm (TSlice (TNamed ''main.RigConfItem'')) (cmd_Value c) of Inl e \<Rightarrow> RspErr e | Inr _ \<Rightarrow> RspVal None, True)
     else (RspNil, False))"
  using assms
  by (auto simp: Intercept_def wired_def Invoke_def rig_dealer_def plain_errors_def Let_def split: sum.splits)

lemma fix_keeps_dealers: "Arg_Fix env a = Ret a' \<Longrightarrow> arg_LogDealer a' = arg_LogDealer a"
proof -
  have 1: "fixAddr env a = Ret a' \<Longrightarrow> arg_LogDealer a' = arg_LogDealer a" for a a'
    by (auto simp: fixAddr_def outcome_simps Let_def split: sum.splits prod.splits if_splits)
  have 2: "parseFlagRaftNodeID a = Ret a' \<Longrightarrow> arg_LogDealer a' = arg_LogDealer a" for a a'
    by (auto simp: parseFlagRaftNodeID_def outcome_simps)
  have 3: "parseBootstrap env a = Ret a' \<Longrightarrow> arg_LogDealer a' = arg_LogDealer a" for a a'
    by (auto simp: parseBootstrap_def outcome_simps Let_def split: prod.splits if_splits)
  have 4: "arg_LogDealer (parseFlagRaftDir env a) = arg_LogDealer a" for a
    by (simp add: parseFlagRaftDir_def Let_def)
  show "Arg_Fix env a = Ret a' \<Longrightarrow> ?thesis"
    by (auto simp: Arg_Fix_def outcome_simps Let_def 4 dest!: 1 2 3)
qed

lemma Open_Arg: "Open E oe s = (None, s') \<Longrightarrow> st_Arg s' = (st_Arg s)\<lparr>arg_LoggerSet := True\<rparr>"
  by (auto simp: Open_def Let_def recoverJoin_def tryJoinLeader_def split: if_splits sum.splits prod.splits)

lemma StartAll_frame:
  assumes "StartAll env listen E evs evs' h = (Some None, h')"
  shows "st_m (sv_Store h') = st_m (sv_Store h) \<and> st_Arg (sv_Store h') = st_Arg (sv_Store h) \<and>
    sv_DealerMap h' = sv_DealerMap h"
proof -
  have w: "st_m (snd (WaitForLeader E evs s)) = st_m s \<and> st_Arg (snd (WaitForLeader E evs s)) = st_Arg s"
    for s :: "('a, 'b, 'c) RaftStore"
  proof (induction E evs s rule: WaitForLeader.induct)
    case (2 E r' evs s)
    with same_core_joinNodes [of "s\<lparr>st_raft := r'\<rparr>" E] show ?case
      by (cases "LeaderAddr E (s\<lparr>st_raft := r'\<rparr>) = []") (auto simp: Let_def same_core_def)
  qed auto
  from assms w [of "sv_Store h"] show ?thesis
    by (fastforce simp: StartAll_def StartRaft_def GoStartHTTP_def split: sum.splits prod.splits option.splits)
qed

section \<open>What the program starts\<close>

text \<open>
  When \<open>main\<close> gets through, the node is wired as written: its map is the one Raft restored from
  the last snapshot, its log dealer answers for the configuration items only, and a job request on
  \<open>/myjob\<close> runs \<open>myJob\<close>. It panics only with the error of the step that failed: fixing the parameters,
  opening the store, or opening the listener; and it waits only while one of the two timers has not
  expired.
\<close>

theorem main_starts:
  assumes "\<And>flags a. arg_LogDealer (parse flags a) = arg_LogDealer a"
  shows "case hraftd_main env dflt parse E oe r0 fs net listen evs evs' of
      None \<Rightarrow> Expired \<notin> set evs \<or> Expired \<notin> set evs'
    | Some (Panic e) \<Rightarrow>
        Arg_Fix env (main_arg dflt parse) = Panic e \<or>
        (\<exists>a. Arg_Fix env (main_arg dflt parse) = Ret a \<and>
          ((\<exists>err s. Open E oe (New ((wire a)\<lparr>arg_LoggerSet := True\<rparr>) r0 fs net) = (Some err, s) \<and>
              e = ''failed to open Store: '' @ err_Error err) \<or>
           (\<exists>err addr. listen ''tcp'' addr = Inl err \<and> e = ''failed to start HTTP service: '' @ err_Error err)))
    | Some (Ret h) \<Rightarrow>
        (\<exists>a s. Arg_Fix env (main_arg dflt parse) = Ret a \<and>
          Open E oe (New ((wire a)\<lparr>arg_LoggerSet := True\<rparr>) r0 fs net) = (None, s) \<and>
          wired (st_Arg (sv_Store h)) \<and> arg_NodeID (st_Arg (sv_Store h)) = arg_NodeID a \<and> st_m (sv_Store h) = st_m s \<and>
          (\<forall>body ID. se_unm E (TNamed ''main.JobReq'') body = Inr (Req ID) \<longrightarrow>
             Invoke (se_unm E) (sv_DealerMap h) ''/myjob'' body =
               (Some (Some \<lparr>jp_OK = ''OK'', jp_Msg = ID @ '' is processed''\<rparr>), None)))"
proof -
  let ?m = "\<lparr>Dealers = [''/myjob'' \<mapsto> \<lparr>Fn = job_dealer, ReqType = TPtr (TNamed ''main.JobReq'')\<rparr>]\<rparr>"
  have arg0: "arg_LogDealer (main_arg dflt parse) = MakeLogDealer"
    using assms by (simp add: main_arg_def DefineFlags_def MakeArg_def Let_def)
  have reg: "RegisterJobDealer ''/myjob'' (Some (job_type, job_dealer)) MakeDealerMap = (Ret None, ?m)"
    by (simp add: RegisterJobDealer_def MakeDealerMap_def checkDealerFn_def job_type_def)
  have job: "Invoke unm ?m ''/myjob'' body = (Some (Some \<lparr>jp_OK = ''OK'', jp_Msg = ID @ '' is processed''\<rparr>), None)"
    if "unm (TNamed ''main.JobReq'') body = Inr (Req ID)" for unm body ID
    using that by (simp add: Invoke_def job_dealer_def myJob_def)
  show ?thesis
  proof (cases "Arg_Fix env (main_arg dflt parse)")
    case (Panic e)
    then show ?thesis by (simp add: hraftd_main_def Let_def case_prod_beta)
  next
    case (Ret a)
    obtain oerr s where o: "Open E oe (New ((wire a)\<lparr>arg_LoggerSet := True\<rparr>) r0 fs net) = (oerr, s)" by fastforce
    show ?thesis
    proof (cases oerr)
      case (Some err)
      with Ret o show ?thesis by (simp add: hraftd_main_def Let_def case_prod_beta Create_def)
    next
      case None
      let ?h = "\<lparr>sv_Store = s, sv_DealerMap = ?m, sv_out = []\<rparr>"
      have main: "hraftd_main env dflt parse E oe r0 fs net listen evs evs' =
          (case StartAll env listen E evs evs' ?h of
             (None, h) \<Rightarrow> None
           | (Some (Some err), h) \<Rightarrow> Some (Panic (''failed to start HTTP service: '' @ err_Error err))
           | (Some None, h) \<Rightarrow> Some (Ret h))"
        using Ret o None reg by (simp add: hraftd_main_def Let_def case_prod_beta Create_def)
      have "arg_LogDealer a = MakeLogDealer"
        using fix_keeps_dealers [OF Ret] arg0 by simp
      then have w: "wired (st_Arg s)" "arg_NodeID (st_Arg s) = arg_NodeID a"
        using Open_Arg [of E oe _ s] o None wired_wire [of a] by (auto simp: New_def wired_def wire_def Let_def)
      obtain r h where st: "StartAll env listen E evs evs' ?h = (r, h)" by fastforce
      consider (waits) "r = None" | (fails) err where "r = Some (Some err)" | (runs) "r = Some None" by (cases r) auto
      then show ?thesis
      proof cases
        case waits
        have "Expired \<notin> set evs \<or> Expired \<notin> set evs'"
          using StartAll_returns [of evs evs' env listen E ?h] st waits
          by (cases "listen ''tcp'' (ConvertToZeroHost env (st_Arg s) (arg_HTTPAddr (st_Arg s)))") auto
        with main st waits show ?thesis by simp
      next
        case fails
        then have "\<exists>addr. listen ''tcp'' addr = Inl err"
          using st by (auto simp: StartAll_def StartRaft_def GoStartHTTP_def Let_def split: sum.splits prod.splits option.splits)
        with main st fails Ret show ?thesis by auto
      next
        case runs
        from StartAll_frame [of env listen E evs evs' ?h h] st runs
        have "st_m (sv_Store h) = st_m s" "st_Arg (sv_Store h) = st_Arg s" "sv_DealerMap h = ?m" by auto
        with main st runs Ret o None w job show ?thesis by auto
      qed
    qed
  qed
qed

section \<open>Configuration items in the log\<close>

definition rig_entry :: "('r, 'v) store_env \<Rightarrow> raft_log \<times> int \<Rightarrow> bool" where
  "rig_entry E e = (case js_unCommand (se_js E) (log_Data (fst e)) of Inl err \<Rightarrow> False | Inr c \<Rightarrow> cmd_Key c = rigConf)"

lemma Apply_rig:
  assumes "wired (st_Arg s)" "plain_errors (se_unm E)" "js_unCommand (se_js E) (log_Data l) = Inr c" "cmd_Key c = rigConf"
  shows "Apply E now l s = (Ret (case se_unm E (TSlice (TNamed ''main.RigConfItem'')) (cmd_Value c) of
    Inl e \<Rightarrow> RspErr e | Inr _ \<Rightarrow> RspVal None), s)"
  using assms by (simp add: Apply_def wired_Intercept)

lemma Apply_not_rig:
  assumes "wired (st_Arg s)" "plain_errors (se_unm E)" "\<not> rig_entry E (l, now)"
  shows "st_m (snd (Apply E now l s)) rigConf = st_m s rigConf"
proof (cases "js_unCommand (se_js E) (log_Data l)")
  case (Inr c)
  have "st_m (processSetRaftCluster E c s) = st_m s"
    using same_core_processSetRaftCluster [of s E c] by (simp add: same_core_def)
  with assms Inr show ?thesis by (simp add: Apply_def wired_Intercept rig_entry_def)
qed (simp add: Apply_def)

lemma rig_entry_Apply:
  assumes "wired (st_Arg s)" "plain_errors (se_unm E)" "rig_entry E (l, now)"
  shows "\<exists>rsp. Apply E now l s = (Ret rsp, s)"
  using assms(3) Apply_rig [OF assms(1,2)] by (fastforce simp: rig_entry_def split: sum.splits)

lemma wired_Apply: "wired (st_Arg s) \<Longrightarrow> wired (st_Arg (snd (Apply E now l s)))"
  by (simp add: Apply_settings)

lemma rig_log_filter:
  assumes "wired (st_Arg s)" "plain_errors (se_unm E)"
  shows "apply_logs E (filter (\<lambda>e. \<not> rig_entry E e) ls) s = apply_logs E ls s"
  using assms(1)
proof (induction ls arbitrary: s)
  case (Cons e ls)
  obtain l now r t where e: "e = (l, now)" "Apply E now l s = (r, t)" by (metis surj_pair)
  with wired_Apply [OF Cons.prems, of E now l] Cons.IH rig_entry_Apply [OF Cons.prems assms(2), of l now] show ?case
    by (cases "rig_entry E e"; cases r) auto
qed simp

lemma rig_log_key:
  assumes "wired (st_Arg s)" "plain_errors (se_unm E)"
  shows "st_m (snd (apply_logs E ls s)) rigConf = st_m s rigConf"
  using assms(1)
proof (induction ls arbitrary: s)
  case (Cons e ls)
  obtain l now r t where e: "e = (l, now)" "Apply E now l s = (r, t)" by (metis surj_pair)
  have "st_m t rigConf = st_m s rigConf"
    using e(2) Apply_not_rig [OF Cons.prems assms(2), of l now] rig_entry_Apply [OF Cons.prems assms(2), of l now]
    by (cases "rig_entry E (l, now)") auto
  with e wired_Apply [OF Cons.prems, of E now l] Cons.IH show ?case by (cases r) auto
qed simp

text \<open>
  C40. Configuration items travel through the log and are never stored: on a node wired by \<open>main\<close>, an
  entry whose key is \<open>rigconf\<close> is answered by the log dealer, with nil or with the error of
  decoding its value, whatever its operation and its age, and leaves the whole store alone (the
  caller of \<open>Set\<close> sees that error nowhere: the future only reports Raft's own). Any log has the
  effect it would have without these entries.
\<close>

theorem rigconf_not_stored:
  assumes "wired (st_Arg s)" "plain_errors (se_unm E)"
  shows "(js_unCommand (se_js E) (log_Data l) = Inr c \<longrightarrow> cmd_Key c = rigConf \<longrightarrow>
      Apply E now l s = (Ret (case se_unm E (TSlice (TNamed ''main.RigConfItem'')) (cmd_Value c) of
        Inl e \<Rightarrow> RspErr e | Inr _ \<Rightarrow> RspVal None), s)) \<and>
    st_m (snd (apply_logs E ls s)) rigConf = st_m s rigConf \<and>
    apply_logs E ls s = apply_logs E (filter (\<lambda>e. \<not> rig_entry E e) ls) s"
  using Apply_rig [OF assms] rig_log_key [OF assms] rig_log_filter [OF assms] by simp

section \<open>A tick\<close>

lemma rig_prints_items:
  assumes "distinct (map peer_ID peers)" "p \<in> set peers" "0 \<le> rnd p"
  shows "rig_prints (peer_ID p) (demo_items loc clk fake rnd peers) =
    Some (peer_items loc (clk p) (fake p) p (nat (1 + rnd p)))"
proof -
  have ids: "i \<in> set (peer_items loc c f q n) \<Longrightarrow> ri_NodeID i = peer_ID q" for i c f q n
    by (induction n) auto
  have "filter (\<lambda>i. ri_NodeID i = peer_ID p) (demo_items loc clk fake rnd peers) =
      (if p \<in> set peers then peer_items loc (clk p) (fake p) p (nat (1 + rnd p)) else [])"
    if "distinct (map peer_ID peers)" "p \<in> set peers \<or> peer_ID p \<notin> peer_ID ` set peers" for peers
    using that
  proof (induction peers)
    case (Cons q peers)
    have q: "filter (\<lambda>i. ri_NodeID i = peer_ID p) (peer_items loc (clk q) (fake q) q n) =
        (if peer_ID q = peer_ID p then peer_items loc (clk q) (fake q) q n else [])" for n
      using ids by (auto simp: filter_empty_conv filter_id_conv)
    show ?case
    proof (cases "p = q")
      case True
      with Cons q show ?thesis by auto
    next
      case False
      with Cons.prems have "peer_ID q \<noteq> peer_ID p" by auto
      with Cons False q show ?thesis by auto
    qed
  qed simp
  with assms(1,2) have "filter (\<lambda>i. ri_NodeID i = peer_ID p) (demo_items loc clk fake rnd peers) =
      peer_items loc (clk p) (fake p) p (nat (1 + rnd p))" by simp
  moreover have "nat (1 + rnd p) = Suc (nat (rnd p))" using assms(3) by simp
  ultimately show ?thesis by (simp add: rig_prints_def Let_def)
qed

text \<open>
  One tick of the leader: the node asks for the cluster, sends the configuration items of the
  active peers through the log and spreads ten jobs over these peers, job \<open>i\<close> to peer \<open>i mod n\<close>,
  whatever the answers are (with no active peer it posts nothing). The items printed on an
  active peer are exactly those made for it, at least one. The map and the files stay as they
  are. Raft may apply the tick's own command while it is called, and nothing else.
\<close>

theorem tick_effect:
  assumes "wired (st_Arg s)" "plain_errors (se_unm E)" "json_ok (se_js E)" "Cluster E s = ((cl, None), s1)"
    and "valid_utf8 (enc (demo_items (se_loc E) clk fake rnd (ActivePeers cl)))"
    and "\<forall>data r. \<forall>e \<in> set (fst (snd (ra_Apply (se_api E) data r))). log_Data (fst e) = data"
  shows "\<exists>s'. ticker_fn E enc clk fake rnd now enc_req unm_rsp s = (Ret (), s') \<and> st_m s' = st_m s \<and> st_fs s' = st_fs s \<and>
    posts (http_log (st_net s')) = posts (http_log (st_net s)) @
      (let peers = ActivePeers cl in if peers = [] then [] else
       map (\<lambda>i. NodeID_URL (peer_ID (peers ! (i mod length peers))) (DoJobPath @ ''/myjob'')) [0..<10]) \<and>
    (distinct (map peer_ID (ActivePeers cl)) \<longrightarrow> (\<forall>p \<in> set (ActivePeers cl). 0 \<le> rnd p \<longrightarrow>
       rig_prints (peer_ID p) (demo_items (se_loc E) clk fake rnd (ActivePeers cl)) =
         Some (peer_items (se_loc E) (clk p) (fake p) p (nat (1 + rnd p)))))"
proof -
  let ?peers = "ActivePeers cl" and ?v = "enc (demo_items (se_loc E) clk fake rnd (ActivePeers cl))"
  have gets: "posts (map (\<lambda>srv. GET (f srv)) xs) = []" for f :: "Server \<Rightarrow> string" and xs by (induction xs) auto
  have s1: "s1 = s\<lparr>st_net := st_net s1\<rparr> \<and> posts (http_log (st_net s1)) = posts (http_log (st_net s))"
  proof (cases "ra_GetConfiguration (se_api E) (st_raft s)")
    case (Pair err srvs)
    obtain cl' w' where w: "walk_loop (cluster_peer E s) srvs (zero_RaftCluster, st_net s) = (None, cl', w')"
        "http_log w' = http_log (st_net s) @ map (\<lambda>srv. GET (URLRaftState (srv_ID srv))) (filter (asks E s) srvs)"
      using cluster_walk [of E s srvs zero_RaftCluster "st_net s"] by blast
    with Pair assms(4) gets show ?thesis by (cases err) (auto simp: Cluster_def walkRaftServers_def)
  qed
  then have s1: "s1 = s\<lparr>st_net := st_net s1\<rparr>" "posts (http_log (st_net s1)) = posts (http_log (st_net s))" by auto
  have w1: "wired (st_Arg s1)" using assms(1) by (subst s1(1)) simp
  have "\<exists>r t. demoApplyLogs E enc clk fake rnd now ?peers s1 = (Ret (), t) \<and> t = s1\<lparr>st_raft := r\<rparr>"
  proof (cases "IsLeader E s1")
    case True
    let ?cmd = "set_cmd (se_loc E) now rigConf ?v"
    obtain err es r where ra: "ra_Apply (se_api E) (js_Command (se_js E) ?cmd) (st_raft s1) = (err, es, r)"
      by (metis prod_cases3)
    have "js_unCommand (se_js E) (js_Command (se_js E) ?cmd) = Inr ?cmd"
      using assms(3,5) by (intro json_okD(1) utf8_set_cmd) (simp_all add: rigConf_def byte_in_def)
    then have "filter (\<lambda>e. \<not> rig_entry E e) es = []"
      using assms(6) [rule_format, of _ "js_Command (se_js E) ?cmd" "st_raft s1"] ra
      by (auto simp: filter_empty_conv rig_entry_def set_cmd_def)
    moreover have "wired (st_Arg (s1\<lparr>st_raft := r\<rparr>))" using w1 by simp
    ultimately have "apply_logs E es (s1\<lparr>st_raft := r\<rparr>) = (Ret (), s1\<lparr>st_raft := r\<rparr>)"
      using rig_log_filter [of "s1\<lparr>st_raft := r\<rparr>" E es] assms(2) by simp
    with ra True show ?thesis by (intro exI [of _ r]) (simp add: demoApplyLogs_def Set_leader raft_Apply_def)
  next
    case False
    then show ?thesis by (intro exI [of _ "st_raft s1"]) (simp add: demoApplyLogs_def Set_def)
  qed
  then obtain r where a: "demoApplyLogs E enc clk fake rnd now ?peers s1 = (Ret (), s1\<lparr>st_raft := r\<rparr>)" by blast
  let ?w = "snd (demoDistributeJobs (se_js E) enc_req unm_rsp ?peers (st_net s1))"
  have "ticker_fn E enc clk fake rnd now enc_req unm_rsp s = (Ret (), s1\<lparr>st_raft := r, st_net := ?w\<rparr>)"
    using assms(4) a by (simp add: ticker_fn_def tick_def Let_def)
  moreover have "posts (http_log ?w) = posts (http_log (st_net s)) @ (if ?peers = [] then [] else
       map (\<lambda>i. NodeID_URL (peer_ID (?peers ! (i mod length ?peers))) (DoJobPath @ ''/myjob'')) [0..<10])"
    using s1(2) by (simp add: demoDistributeJobs_def jobs_loop_posts jobs_loop_local del: upt_rec_numeral)
  moreover have "st_m s1 = st_m s" "st_fs s1 = st_fs s" by (subst s1(1), simp)+
  ultimately show ?thesis using rig_prints_items [of ?peers] by (auto simp: Let_def simp del: upt_rec_numeral)
qed

section \<open>A concrete run\<close>

definition demo_penv :: "(demo_raft, demo_val) store_env" where
  "demo_penv = \<lparr>se_js = demo_json, se_unm = (\<lambda>t b. if t = TNamed ''main.JobReq'' then Inr (Req b) else Inr (Items [])),
     se_api = demo_api, se_loc = utc\<rparr>"

definition main_store :: "(demo_raft, demo_val, demo_res) RaftStore" where
  "main_store = New (wire (MakeArg\<lparr>arg_NodeID := demo_ID\<rparr>)) demo_raft0 demo_fs demo_net"

lemma main_store_wired: "wired (st_Arg main_store)"
  using wired_wire [of "MakeArg\<lparr>arg_NodeID := demo_ID\<rparr>"] by (simp add: main_store_def New_def MakeArg_def wired_def)

lemma demo_penv_plain: "plain_errors (se_unm demo_penv)"
  by (simp add: plain_errors_def demo_penv_def)

theorem rigconf_not_stored_witness:
  "st_m (snd (apply_logs demo_penv
     [(\<lparr>log_Index = 1, log_Data = enc_Command (set_cmd utc demo_t rigConf ''[]'')\<rparr>, demo_t)] main_store)) rigConf = None"
proof -
  have "st_m main_store rigConf = None" by (simp add: main_store_def New_def)
  then show ?thesis using rigconf_not_stored [OF main_store_wired demo_penv_plain, THEN conjunct2, THEN conjunct1] by metis
qed

theorem tick_effect_witness:
  "\<exists>s'. ticker_fn demo_penv (\<lambda>_. ''[]'') (\<lambda>_ _. demo_t) (\<lambda>_ i. \<lparr>ri_Time = [], ri_ID = int i, ri_Name = ''n'', ri_NodeID = []\<rparr>)
       (\<lambda>_. 2) demo_t (\<lambda>x. x) (\<lambda>_. Inl (Err [])) main_store = (Ret (), s') \<and> st_m s' = Map.empty \<and>
     posts (http_log (st_net s')) = replicate 10 ''http://10.0.0.1:11000/hraftd/dojob/myjob''"
proof -
  let ?p = "\<lparr>peer_Address = ''10.0.0.1:12000'', peer_ID = demo_ID, peer_State = ''Leader'', peer_Suffrage = ''Voter''\<rparr>"
  obtain cl s1 where cl: "Cluster demo_penv main_store = ((cl, None), s1)" "rc_Servers cl = [?p]"
    by (simp add: Cluster_def walkRaftServers_def cluster_peer_def main_store_def demo_penv_def New_def wire_def Let_def
        demo_api_def demo_raft0_def demo_server_def zero_RaftCluster_def NodeState_def LeaderAddr_def)
  then have act: "ActivePeers cl = [?p]"
    by (simp add: ActivePeers_def IsActive_def StateLeader_def StateFollower_def)
  have js: "json_ok (se_js demo_penv)" by (simp add: demo_penv_def demo_json_ok)
  have ap: "\<forall>data r. \<forall>e \<in> set (fst (snd (ra_Apply (se_api demo_penv) data r))). log_Data (fst e) = data"
    by (auto simp: demo_penv_def demo_api_def)
  have url: "NodeID_URL demo_ID (DoJobPath @ ''/myjob'') = ''http://10.0.0.1:11000/hraftd/dojob/myjob''"
    by (simp add: NodeID_URL_def NodeID_HTTPAddr_def BindAddr_URL_def DoJobPath_def demo_ID_def arg_eval go_eval
        str_TrimPrefix_def str_HasPrefix_def)
  have rep: "map (\<lambda>i. x) [0..<10] = replicate 10 x" for x :: string by (simp add: map_replicate_const)
  from tick_effect [OF main_store_wired demo_penv_plain js cl(1) _ ap, of "\<lambda>_. ''[]''" "\<lambda>_ _. demo_t"
      "\<lambda>_ i. \<lparr>ri_Time = [], ri_ID = int i, ri_Name = ''n'', ri_NodeID = []\<rparr>" "\<lambda>_. 2" demo_t "\<lambda>x. x" "\<lambda>_. Inl (Err [])"] act
  show ?thesis
    by (auto simp: byte_in_def url main_store_def New_def demo_net_def rep simp del: upt_rec_numeral)
qed

theorem main_starts_witness:
  "\<exists>h. hraftd_main demo_env Some (\<lambda>_ a. a\<lparr>arg_HTTPAddr := ''10.0.0.1:11000''\<rparr>) demo_penv demo_oe demo_raft0 demo_fs demo_net
      (\<lambda>_ a. Inr a :: go_error + string) [Expired] [Expired] = Some (Ret h) \<and>
     wired (st_Arg (sv_Store h))"
proof -
  let ?parse = "\<lambda>_ a. a\<lparr>arg_HTTPAddr := ''10.0.0.1:11000''\<rparr>" and ?listen = "\<lambda>_ a. Inr a :: go_error + string"
  let ?main = "hraftd_main demo_env Some ?parse demo_penv demo_oe demo_raft0 demo_fs demo_net ?listen [Expired] [Expired]"
  have keep: "arg_LogDealer (?parse flags a) = arg_LogDealer a" for flags a by simp
  obtain a where a: "Arg_Fix demo_env (main_arg Some ?parse) = Ret a"
    by (simp add: main_arg_def DefineFlags_def arg_eval go_eval)
  have opens: "fst (Open demo_penv demo_oe s) = None" if "st_fs s = demo_fs"
    for s :: "(demo_raft, demo_val, demo_res) RaftStore"
    using that by (simp add: Open_def createStores_def createTransport_def demo_oe_def PathExists_def demo_fs_def Let_def)
  have "fst (Open demo_penv demo_oe (New ((wire a)\<lparr>arg_LoggerSet := True\<rparr>) demo_raft0 demo_fs demo_net)) = None"
    by (rule opens) (simp add: New_def)
  with main_starts [OF keep, where env = demo_env and dflt = Some and E = demo_penv and oe = demo_oe and ?r0.0 = demo_raft0 and
      fs = demo_fs and net = demo_net and listen = ?listen and evs = "[Expired]" and evs' = "[Expired]"] a
  show ?thesis by (cases ?main) (auto split: outcome.splits)
qed

end
