(* ===== verification/Cluster_History.thy ===== *)
theory Cluster_History
  imports Two_Nodes
begin

text \<open>
  What clients see of a cluster: any number of processes, each a node with its whole life, over the
  log Raft has committed, with a history of the requests that were answered. A process that is
  restarted comes back as a new one, which starts empty. The leader may change at any time: Raft's
  own state on a process changes in the steps of \<open>Node\<close>.

  Reads are served from the map of whatever process is asked, without asking the leader. The
  theory says what that gives a client: every answer is the value after some beginning of the
  log, on one process never of a shorter one than before, and an acknowledged write is in the log,
  so that a read sees it once the process that answers has applied as much.
\<close>

section \<open>A cluster with its history\<close>

text \<open>
  An answered request: the process, whether it led when the request came, and the length of its log
  before and after.
\<close>

record answered =
  an_node :: nat
  an_req :: http_request
  an_resp :: response
  an_lead :: bool
  an_from :: nat
  an_at :: nat

record ('r, 'v, 'w) cluster =
  cl_log :: "raft_log list"
  cl_node :: "nat \<Rightarrow> ('r, 'v, 'w) Service"
  cl_hist :: "answered list"

text \<open>The entries a process has applied, without the readings of its clock.\<close>

definition entries :: "('r \<Rightarrow> (raft_log \<times> int) list) \<Rightarrow> ('r, 'v, 'w) Service \<Rightarrow> raft_log list" where
  "entries applied s = map fst (applied (st_raft (sv_Store s)))"

text \<open>
  What Raft promises when a process goes from \<open>s\<close> to \<open>s'\<close>: the log it has applied only grows and is a
  beginning of the committed log \<open>G\<close>. What the clocks decide is \<open>meaning\<close>: every process that
  applies an entry makes the same write of it (without that, nodes differ:
  \<open>Apply_clock_divergence\<close>).
\<close>

definition raft_keeps ::
    "('r, 'v) store_env \<Rightarrow> ('r \<Rightarrow> (raft_log \<times> int) list) \<Rightarrow> (raft_log \<Rightarrow> kv_op) \<Rightarrow> raft_log list \<Rightarrow>
     ('r, 'v, 'w) Service \<Rightarrow> ('r, 'v, 'w) Service \<Rightarrow> bool" where
  "raft_keeps E applied meaning G s s' \<longleftrightarrow>
     prefix (entries applied s) (entries applied s') \<and> prefix (entries applied s') G \<and>
     (\<forall>e \<in> set (applied (st_raft (sv_Store s'))). entry_op E (st_Arg (sv_Store s)) e = Some (meaning (fst e)))"

text \<open>
  A process answers a request, or takes one of the other steps of its life; either may happen after
  more entries have been committed. Requests whose handler panics are not answered.
\<close>

inductive cluster_step ::
    "(nat \<Rightarrow> ('r, 'v) store_env) \<Rightarrow> (nat \<Rightarrow> ('w, 'j) svc_env set) \<Rightarrow> ('r \<Rightarrow> (raft_log \<times> int) list) \<Rightarrow>
     (raft_log \<Rightarrow> kv_op) \<Rightarrow> ('r, 'v, 'w) cluster \<Rightarrow> ('r, 'v, 'w) cluster \<Rightarrow> bool"
  for E :: "nat \<Rightarrow> ('r, 'v) store_env" and Vs :: "nat \<Rightarrow> ('w, 'j) svc_env set"
    and applied :: "'r \<Rightarrow> (raft_log \<times> int) list" and meaning :: "raft_log \<Rightarrow> kv_op"
where
  answer: "V \<in> Vs i \<Longrightarrow> ServeHTTP (E i) V clk rq (cl_node C i, new_response) = (Ret (), s', w) \<Longrightarrow>
    prefix (cl_log C) G \<Longrightarrow> raft_keeps (E i) applied meaning G (cl_node C i) s' \<Longrightarrow>
    cluster_step E Vs applied meaning C
      (C\<lparr>cl_log := G, cl_node := (cl_node C)(i := s'),
         cl_hist := cl_hist C @ [\<lparr>an_node = i, an_req = rq, an_resp = w,
           an_lead = IsLeader (E i) (sv_Store (cl_node C i)),
           an_from = length (entries applied (cl_node C i)), an_at = length (entries applied s')\<rparr>]\<rparr>)"
| other: "node_step (E i) (Vs i) applied (cl_node C i) s' \<Longrightarrow> prefix (cl_log C) G \<Longrightarrow>
    raft_keeps (E i) applied meaning G (cl_node C i) s' \<Longrightarrow>
    cluster_step E Vs applied meaning C (C\<lparr>cl_log := G, cl_node := (cl_node C)(i := s')\<rparr>)"

inductive cluster_reach ::
    "(nat \<Rightarrow> ('r, 'v) store_env) \<Rightarrow> (nat \<Rightarrow> ('w, 'j) svc_env set) \<Rightarrow> ('r \<Rightarrow> (raft_log \<times> int) list) \<Rightarrow>
     (raft_log \<Rightarrow> kv_op) \<Rightarrow> ('r, 'v, 'w) cluster \<Rightarrow> ('r, 'v, 'w) cluster \<Rightarrow> bool"
  for E :: "nat \<Rightarrow> ('r, 'v) store_env" and Vs :: "nat \<Rightarrow> ('w, 'j) svc_env set"
    and applied :: "'r \<Rightarrow> (raft_log \<times> int) list" and meaning :: "raft_log \<Rightarrow> kv_op"
    and C0 :: "('r, 'v, 'w) cluster"
where
  init: "cluster_reach E Vs applied meaning C0 C0"
| step: "cluster_reach E Vs applied meaning C0 C \<Longrightarrow> cluster_step E Vs applied meaning C C' \<Longrightarrow>
    cluster_reach E Vs applied meaning C0 C'"

definition fresh_cluster :: "('r \<Rightarrow> (raft_log \<times> int) list) \<Rightarrow> ('r, 'v, 'w) cluster \<Rightarrow> bool" where
  "fresh_cluster applied C \<longleftrightarrow> cl_log C = [] \<and> cl_hist C = [] \<and> (\<forall>i. fresh_node applied (cl_node C i))"

section \<open>The invariant of a cluster\<close>

text \<open>Where an entry of the history comes from: a state the process could reach, and the answer there.\<close>

definition justified ::
    "(nat \<Rightarrow> ('r, 'v) store_env) \<Rightarrow> (nat \<Rightarrow> ('w, 'j) svc_env set) \<Rightarrow> ('r \<Rightarrow> (raft_log \<times> int) list) \<Rightarrow>
     (raft_log \<Rightarrow> kv_op) \<Rightarrow> ('r, 'v, 'w) cluster \<Rightarrow> ('r, 'v, 'w) cluster \<Rightarrow> answered \<Rightarrow> bool" where
  "justified E Vs applied meaning C0 C ev \<longleftrightarrow>
     (\<exists>s s' V clk. node_reach (E (an_node ev)) (Vs (an_node ev)) applied (cl_node C0 (an_node ev)) s \<and>
        node_reach (E (an_node ev)) (Vs (an_node ev)) applied (cl_node C0 (an_node ev)) s' \<and>
        V \<in> Vs (an_node ev) \<and>
        ServeHTTP (E (an_node ev)) V clk (an_req ev) (s, new_response) = (Ret (), s', an_resp ev) \<and>
        raft_keeps (E (an_node ev)) applied meaning (cl_log C) s s' \<and>
        an_lead ev = IsLeader (E (an_node ev)) (sv_Store s) \<and>
        an_from ev = length (entries applied s) \<and> an_at ev = length (entries applied s') \<and>
        prefix (entries applied s') (entries applied (cl_node C (an_node ev))))"

definition cluster_inv ::
    "(nat \<Rightarrow> ('r, 'v) store_env) \<Rightarrow> (nat \<Rightarrow> ('w, 'j) svc_env set) \<Rightarrow> ('r \<Rightarrow> (raft_log \<times> int) list) \<Rightarrow>
     (raft_log \<Rightarrow> kv_op) \<Rightarrow> ('r, 'v, 'w) cluster \<Rightarrow> ('r, 'v, 'w) cluster \<Rightarrow> bool" where
  "cluster_inv E Vs applied meaning C0 C \<longleftrightarrow>
     (\<forall>i. node_reach (E i) (Vs i) applied (cl_node C0 i) (cl_node C i)) \<and>
     (\<forall>ev \<in> set (cl_hist C). justified E Vs applied meaning C0 C ev) \<and>
     (\<forall>i. sorted (map an_at (filter (\<lambda>ev. an_node ev = i) (cl_hist C))))"

text \<open>A step of one process keeps what justified the answers so far.\<close>

lemma raft_keeps_log:
  "raft_keeps E applied meaning G s s' \<Longrightarrow> prefix G G' \<Longrightarrow> raft_keeps E applied meaning G' s s'"
  by (auto simp: raft_keeps_def)

lemma justified_step:
  assumes "justified E Vs applied meaning C0 C ev" "prefix (cl_log C) G"
    and "prefix (entries applied (cl_node C i)) (entries applied s')"
    and "cl_log C' = G" "cl_node C' = (cl_node C)(i := s')"
  shows "justified E Vs applied meaning C0 C' ev"
proof -
  have "prefix (entries applied (cl_node C (an_node ev))) (entries applied (cl_node C' (an_node ev)))"
    using assms(3,5) by simp
  then have grow: "prefix es (entries applied (cl_node C' (an_node ev)))"
    if "prefix es (entries applied (cl_node C (an_node ev)))" for es
    using prefix_order.trans [OF that] by blast
  note keeps = raft_keeps_log [OF _ assms(2), folded assms(4)]
  from assms(1) show ?thesis
    unfolding justified_def by (elim exE conjE) (intro exI conjI; (rule keeps grow | assumption); assumption?)
qed

lemma justified_at:
  "justified E Vs applied meaning C0 C ev \<Longrightarrow> an_at ev \<le> length (entries applied (cl_node C (an_node ev)))"
  by (auto simp: justified_def dest: prefix_length_le)

lemma answer_node_step:
  assumes "V \<in> Vs" "ServeHTTP E V clk rq (s, new_response) = (Ret (), s', w)" "raft_keeps E applied meaning G s s'"
  shows "node_step E Vs applied s s'"
  using assms by (intro node_step.serve [OF assms(1,2)]) (auto simp: raft_keeps_def decodable_def list_all_iff)

lemma cluster_inv_step:
  assumes "cluster_step E Vs applied meaning C C'" "cluster_inv E Vs applied meaning C0 C"
  shows "cluster_inv E Vs applied meaning C0 C'"
proof -
  have reach: "node_reach (E i) (Vs i) applied (cl_node C0 i) (cl_node C i)" for i
    using assms(2) by (simp add: cluster_inv_def)
  have just: "justified E Vs applied meaning C0 C ev" if "ev \<in> set (cl_hist C)" for ev
    using assms(2) that by (simp add: cluster_inv_def)
  have sort: "sorted (map an_at (filter (\<lambda>ev. an_node ev = i) (cl_hist C)))" for i
    using assms(2) by (simp add: cluster_inv_def)
  from assms(1) show ?thesis
  proof cases
    case (answer V i clk rq s' w G)
    let ?ev = "\<lparr>an_node = i, an_req = rq, an_resp = w, an_lead = IsLeader (E i) (sv_Store (cl_node C i)),
      an_from = length (entries applied (cl_node C i)), an_at = length (entries applied s')\<rparr>"
    have pre: "prefix (entries applied (cl_node C i)) (entries applied s')"
      using answer(5) by (simp add: raft_keeps_def)
    have r: "node_reach (E i) (Vs i) applied (cl_node C0 i) s'"
      using node_reach.step [OF reach answer_node_step [OF answer(2,3,5)]] .
    have new: "justified E Vs applied meaning C0 C' ?ev"
      using reach [of i] r answer by (auto simp: justified_def)
    have old: "justified E Vs applied meaning C0 C' ev" if "ev \<in> set (cl_hist C)" for ev
      using justified_step [OF just [OF that] answer(4) pre] answer(1) by simp
    have "an_at ev \<le> an_at ?ev" if "ev \<in> set (cl_hist C)" "an_node ev = i" for ev
      using justified_at [OF just [OF that(1)]] prefix_length_le [OF pre] that(2) by simp
    then show ?thesis
      using reach r sort new old answer(1) by (auto simp: cluster_inv_def sorted_append)
  next
    case (other i s' G)
    have pre: "prefix (entries applied (cl_node C i)) (entries applied s')"
      using other(4) by (simp add: raft_keeps_def)
    have old: "justified E Vs applied meaning C0 C' ev" if "ev \<in> set (cl_hist C)" for ev
      using justified_step [OF just [OF that] other(3) pre] other(1) by simp
    show ?thesis
      using reach node_reach.step [OF reach other(2)] sort old other(1) by (auto simp: cluster_inv_def)
  qed
qed

lemma cluster_reach_inv:
  assumes "cluster_reach E Vs applied meaning C0 C" "fresh_cluster applied C0"
  shows "cluster_inv E Vs applied meaning C0 C"
  using assms
proof (induction rule: cluster_reach.induct)
  case init
  then show ?case by (auto simp: cluster_inv_def fresh_cluster_def intro: node_reach.init)
next
  case (step C C')
  then show ?case by (blast intro: cluster_inv_step)
qed

section \<open>Reads\<close>

definition reads_key :: "string \<Rightarrow> http_request \<Rightarrow> bool" where
  "reads_key k rq \<longleftrightarrow> rq_Method rq = ''GET'' \<and> rq_Path rq = KeyPath @ ''/'' @ k \<and> k \<noteq> []"

text \<open>What a client is told about a key that has the value \<open>r\<close>.\<close>

definition kv_answer :: "('w, 'j) svc_env \<Rightarrow> string \<Rightarrow> string option \<Rightarrow> response" where
  "kv_answer V k r = (case r of
     Some v \<Rightarrow> WriteAsJSON (sv_kv V k (TryParseJSON (sv_parse V) v)) new_response
   | None \<Rightarrow> WriteHeader 404 new_response)"

lemma GET_answer:
  "reads_key k rq \<Longrightarrow> ServeHTTP E V clk rq (s, new_response) = (Ret (), s, kv_answer V k (Get k (sv_Store s)))"
  by (simp add: reads_key_def kv_answer_def GET_key)

text \<open>The value of a key after the first \<open>n\<close> entries of a log.\<close>

definition value_at :: "(raft_log \<Rightarrow> kv_op) \<Rightarrow> raft_log list \<Rightarrow> nat \<Rightarrow> string \<Rightarrow> string option" where
  "value_at meaning G n k = kv_lookup (map meaning (take n G)) Map.empty k"

lemma prefix_take: "prefix xs G \<Longrightarrow> take (length xs) G = xs"
  by (auto simp: prefix_def)

lemma node_value_at:
  assumes "node_reach E Vs applied s0 s" "keeps_log (se_api E) applied" "fresh_node applied s0"
    and "raft_keeps E applied meaning G s s"
  shows "Get k (sv_Store s) = value_at meaning G (length (entries applied s)) k"
proof -
  have "log_ops E (st_Arg (sv_Store s)) (applied (st_raft (sv_Store s))) = map meaning (entries applied s)"
    using assms(4) by (auto simp: raft_keeps_def log_ops_def entries_def)
  with node_reach_map_of_log [OF assms(1-3)] assms(4) show ?thesis
    by (simp add: value_at_def map_of_log_def Get_def fold_kv_apply raft_keeps_def prefix_take)
qed

lemma justified_read:
  assumes "justified E Vs applied meaning C0 C ev" "keeps_log (se_api (E (an_node ev))) applied"
    and "fresh_cluster applied C0" "reads_key k (an_req ev)"
  shows "an_from ev = an_at ev \<and> an_at ev \<le> length (cl_log C) \<and>
    (\<exists>V \<in> Vs (an_node ev). an_resp ev = kv_answer V k (value_at meaning (cl_log C) (an_at ev) k))"
proof -
  obtain s s' V clk where r: "node_reach (E (an_node ev)) (Vs (an_node ev)) applied (cl_node C0 (an_node ev)) s"
      "V \<in> Vs (an_node ev)"
      "ServeHTTP (E (an_node ev)) V clk (an_req ev) (s, new_response) = (Ret (), s', an_resp ev)"
      "raft_keeps (E (an_node ev)) applied meaning (cl_log C) s s'"
      "an_from ev = length (entries applied s)" "an_at ev = length (entries applied s')"
    using assms(1) unfolding justified_def by blast
  have s': "s' = s" "an_resp ev = kv_answer V k (Get k (sv_Store s))"
    using r(3) GET_answer [OF assms(4), of "E (an_node ev)" V clk s] by auto
  have "fresh_node applied (cl_node C0 (an_node ev))" using assms(3) by (simp add: fresh_cluster_def)
  from node_value_at [OF r(1) assms(2) this, of meaning "cl_log C" k] r s' show ?thesis
    by (auto simp: raft_keeps_def dest: prefix_length_le)
qed

section \<open>Acknowledged writes\<close>

text \<open>A future that reports success has had its command handed to the state machine.\<close>

definition hands_over :: "'r raft_api \<Rightarrow> bool" where
  "hands_over api \<longleftrightarrow> (\<forall>data r es r'. ra_Apply api data r = (None, es, r') \<longrightarrow> (\<exists>e \<in> set es. log_Data (fst e) = data))"

text \<open>
  The requests that write \<open>v\<close> under \<open>k\<close> (\<open>None\<close>: delete it), and the command that \<open>Set\<close> or \<open>Delete\<close>
  sends for it; \<open>ranges_all\<close>: ranging over a decoded map visits every key.
\<close>

definition asks_write :: "json_lib \<Rightarrow> http_request \<Rightarrow> string \<Rightarrow> string option \<Rightarrow> bool" where
  "asks_write js rq k v \<longleftrightarrow> (case v of
     Some x \<Rightarrow> rq_Method rq = ''POST'' \<and> str_HasPrefix (rq_Path rq) KeyPath \<and>
       (\<exists>body m. read_body rq = Inr body \<and> js_unmap js body = Inr m \<and> m k = Some x)
   | None \<Rightarrow> rq_Method rq = ''DELETE'' \<and> rq_Path rq = KeyPath @ ''/'' @ k \<and> k \<noteq> [])"

definition ranges_all :: "json_lib \<Rightarrow> ('w, 'j) svc_env set \<Rightarrow> bool" where
  "ranges_all js Vs \<longleftrightarrow> (\<forall>V \<in> Vs. \<forall>body m. js_unmap js body = Inr m \<longrightarrow> set (sv_order V m) = dom m)"

definition write_cmd :: "(int \<Rightarrow> int) \<Rightarrow> int \<Rightarrow> string \<Rightarrow> string option \<Rightarrow> Command" where
  "write_cmd loc t k v = (case v of Some x \<Rightarrow> set_cmd loc t k x | None \<Rightarrow> delete_cmd loc t k)"

text \<open>The log has grown, and the command \<open>d\<close> is among what is new.\<close>

definition entered ::
    "('r \<Rightarrow> (raft_log \<times> int) list) \<Rightarrow> ('r, 'v, 'w) RaftStore \<Rightarrow> ('r, 'v, 'w) RaftStore \<Rightarrow> string \<Rightarrow> bool" where
  "entered applied s s' d \<longleftrightarrow>
     (\<exists>es. applied (st_raft s') = applied (st_raft s) @ es \<and> (\<exists>e \<in> set es. log_Data (fst e) = d))"

lemma entered_logged: "entered applied s s' d \<Longrightarrow> logged E applied s' s'' \<Longrightarrow> entered applied s s'' d"
  unfolding entered_def logged_def by (metis append.assoc UnCI set_append)

lemma logged_entered: "logged E applied s s' \<Longrightarrow> entered applied s' s'' d \<Longrightarrow> entered applied s s'' d"
  unfolding entered_def logged_def by (metis append.assoc UnCI set_append)

lemma raft_Apply_entered:
  assumes "keeps_log (se_api E) applied" "hands_over (se_api E)" "raft_Apply E data s = (Ret None, s')"
  shows "entered applied s s' data"
proof -
  obtain es r where ra: "ra_Apply (se_api E) data (st_raft s) = (None, es, r)"
    using raft_Apply_err [OF assms(3)] by blast
  have "s' = snd (apply_logs E es (s\<lparr>st_raft := r\<rparr>))"
    using assms(3) ra by (auto simp: raft_Apply_def split: prod.splits outcome.splits)
  then have "st_raft s' = r" using apply_logs_frame [of E es "s\<lparr>st_raft := r\<rparr>"] by simp
  with keeps_logD(1) [OF assms(1) ra] assms(2) ra show ?thesis
    unfolding entered_def hands_over_def by blast
qed

lemma Set_entered:
  assumes "keeps_log (se_api E) applied" "hands_over (se_api E)" "Set E t k v s = (Ret None, s')"
  shows "entered applied s s' (js_Command (se_js E) (set_cmd (se_loc E) t k v))"
proof -
  have "IsLeader E s" using assms(3) by (auto simp: Set_def split: if_splits)
  with assms show ?thesis by (intro raft_Apply_entered [of E]) (simp_all add: Set_leader)
qed

lemma Delete_entered:
  assumes "keeps_log (se_api E) applied" "hands_over (se_api E)" "Delete E t k s = (Ret None, s')"
  shows "entered applied s s' (js_Command (se_js E) (delete_cmd (se_loc E) t k))"
proof -
  have "IsLeader E s" using assms(3) by (auto simp: Delete_def split: if_splits)
  with assms show ?thesis by (intro raft_Apply_entered [of E]) (simp_all add: Delete_leader)
qed

lemma post_loop_entered:
  assumes "keeps_log (se_api E) applied" "hands_over (se_api E)" "k \<in> set ks"
    and "post_loop E clk m ks (s, new_response) = (Ret (), s', w')" "status_of w' = 200"
  shows "entered applied (sv_Store s) (sv_Store s')
    (js_Command (se_js E) (set_cmd (se_loc E) (clk k) k (the (m k))))"
  using assms(3-5)
proof (induction ks arbitrary: s)
  case (Cons k0 ks)
  obtain x st where st: "Set E (clk k0) k0 (the (m k0)) (sv_Store s) = (x, st)" by fastforce
  have x: "x = Ret None"
    using post_loop_ok [OF Cons.prems(2) _ Cons.prems(3)] Cons.prems(2,3) st
    by (cases x) (auto simp: new_response_def status_of_def WriteHeader_def reply_def split: option.splits)
  then have rest: "post_loop E clk m ks (s\<lparr>sv_Store := st\<rparr>, new_response) = (Ret (), s', w')"
    using Cons.prems(2) st by simp
  show ?case
  proof (cases "k = k0")
    case True
    have "served E applied (s\<lparr>sv_Store := st\<rparr>) s'"
      using post_loop_served [OF assms(1), of "(s\<lparr>sv_Store := st\<rparr>, new_response)" clk m ks] rest by simp
    with entered_logged [OF Set_entered [OF assms(1,2) st [unfolded x]]] True show ?thesis
      by (auto simp: served_def)
  next
    case False
    with Cons.IH [OF _ rest Cons.prems(3)] Cons.prems(1) Set_logged [OF assms(1) st] show ?thesis
      by (auto intro: logged_entered)
  qed
qed simp

text \<open>A write the leader answers with status 200 has entered its log.\<close>

lemma ServeHTTP_entered:
  assumes "keeps_log (se_api E) applied" "hands_over (se_api E)" "IsLeader E (sv_Store s)"
    and "asks_write (se_js E) rq k v" "\<And>body m. js_unmap (se_js E) body = Inr m \<Longrightarrow> set (sv_order V m) = dom m"
    and "ServeHTTP E V clk rq (s, new_response) = (Ret (), s', w')" "status_of w' = 200"
  shows "entered applied (sv_Store s) (sv_Store s') (js_Command (se_js E) (write_cmd (se_loc E) (clk k) k v))"
proof (cases v)
  case None
  then have rq: "rq_Method rq = ''DELETE''" "rq_Path rq = KeyPath @ ''/'' @ k" "k \<noteq> []"
    using assms(4) by (simp_all add: asks_write_def)
  have "fst (Delete E (clk k) k (sv_Store s)) = Ret None \<and> snd (Delete E (clk k) k (sv_Store s)) = sv_Store s'"
    using assms(6,7) getKey_path [OF rq(3), of rq new_response] assms(3) rq(1,2)
    by (auto simp: ServeHTTP_key [OF rq(2)] handleKeyRequest_def tryForwardToLeader_def doKeyDelete_def
        new_response_def status_of_def WriteHeader_def split: prod.splits outcome.splits option.splits)
  then have "Delete E (clk k) k (sv_Store s) = (Ret None, sv_Store s')" by (auto simp: prod_eq_iff)
  from Delete_entered [OF assms(1,2) this] None show ?thesis by (simp add: write_cmd_def)
next
  case (Some x)
  then obtain body m where rq: "rq_Method rq = ''POST''" "str_HasPrefix (rq_Path rq) KeyPath"
      "read_body rq = Inr body" "js_unmap (se_js E) body = Inr m" "m k = Some x"
    using assms(4) by (auto simp: asks_write_def)
  have "post_loop E clk m (sv_order V m) (s, new_response) = (Ret (), s', w')"
    using assms(3,6) rq by (simp add: ServeHTTP_def Let_def handleKeyRequest_def tryForwardToLeader_def doKeyPost_def)
  from post_loop_entered [OF assms(1,2) _ this assms(7), of k] rq(5) assms(5) [OF rq(4)] Some show ?thesis
    by (auto simp: write_cmd_def)
qed

lemma entered_at:
  assumes "entered applied (sv_Store s) (sv_Store s') d" "raft_keeps E applied meaning G s s'"
  shows "\<exists>n. length (entries applied s) \<le> n \<and> n < length (entries applied s') \<and> log_Data (G ! n) = d"
proof -
  obtain es e where "applied (st_raft (sv_Store s')) = applied (st_raft (sv_Store s)) @ es" "e \<in> set es"
      "log_Data (fst e) = d"
    using assms(1) by (auto simp: entered_def)
  then obtain pre post where es: "entries applied s' = entries applied s @ pre @ fst e # post"
    by (auto simp: entries_def in_set_conv_decomp)
  moreover obtain zs where "G = entries applied s' @ zs" using assms(2) by (auto simp: raft_keeps_def prefix_def)
  ultimately show ?thesis
    using \<open>log_Data (fst e) = d\<close> by (intro exI [of _ "length (entries applied s @ pre)"]) (simp add: nth_append)
qed

lemma justified_write:
  assumes "justified E Vs applied meaning C0 C ev" "an_lead ev" "status_of (an_resp ev) = 200"
    and "keeps_log (se_api (E (an_node ev))) applied" "hands_over (se_api (E (an_node ev)))"
    and "asks_write (se_js (E (an_node ev))) (an_req ev) k v"
    and "ranges_all (se_js (E (an_node ev))) (Vs (an_node ev))"
  shows "\<exists>n t. an_from ev \<le> n \<and> n < an_at ev \<and>
    log_Data (cl_log C ! n) = js_Command (se_js (E (an_node ev))) (write_cmd (se_loc (E (an_node ev))) t k v)"
proof -
  obtain s s' V clk where r: "V \<in> Vs (an_node ev)"
      "ServeHTTP (E (an_node ev)) V clk (an_req ev) (s, new_response) = (Ret (), s', an_resp ev)"
      "raft_keeps (E (an_node ev)) applied meaning (cl_log C) s s'"
      "IsLeader (E (an_node ev)) (sv_Store s)"
      "an_from ev = length (entries applied s)" "an_at ev = length (entries applied s')"
    using assms(1,2) unfolding justified_def by blast
  have "entered applied (sv_Store s) (sv_Store s')
      (js_Command (se_js (E (an_node ev))) (write_cmd (se_loc (E (an_node ev))) (clk k) k v))"
    by (rule ServeHTTP_entered [OF assms(4,5) r(4) assms(6) _ r(2) assms(3)]) (use assms(7) r(1) in \<open>auto simp: ranges_all_def\<close>)
  from entered_at [OF this r(3)] r(5,6) show ?thesis by auto
qed

text \<open>The last write before a read decides.\<close>

lemma value_at_last:
  assumes "n < j" "j \<le> length G" "kv_key (meaning (G ! n)) = Some k"
    and "\<forall>p. n < p \<and> p < j \<longrightarrow> kv_key (meaning (G ! p)) \<noteq> Some k"
  shows "value_at meaning G j k = kv_val (meaning (G ! n))"
proof -
  have G: "take j G = take n G @ G ! n # drop (Suc n) (take j G)"
    using id_take_nth_drop [of n "take j G"] assms(1,2) by (simp add: min_def)
  have "\<forall>op \<in> set (map meaning (drop (Suc n) (take j G))). kv_key op \<noteq> Some k"
    using assms(2,4) by (auto simp: in_set_conv_nth)
  from kv_lookup_last [OF assms(3) this] show ?thesis
    unfolding value_at_def by (subst G) simp
qed

section \<open>Properties\<close>

text \<open>
  C3. What reads see. Take any run of a cluster from its creation, with any number of processes,
  requests to any of them, changes of leader, deliveries, snapshots and joins. Every answered GET
  of a key told the client the value (or 404) that the key has after a beginning of the committed
  log, namely what that process had applied; and the answers of one process never go back to an
  earlier beginning. So all clients see one sequence of writes, at different speeds. The
  assumptions are in \<open>raft_keeps\<close> (Raft's log, and clocks that agree about the age of each entry).
\<close>

theorem reads_follow_log:
  assumes "cluster_reach E Vs applied meaning C0 C" "fresh_cluster applied C0"
    and "\<And>i. keeps_log (se_api (E i)) applied"
  shows "(\<forall>ev \<in> set (cl_hist C). \<forall>k. reads_key k (an_req ev) \<longrightarrow> an_at ev \<le> length (cl_log C) \<and>
      (\<exists>V \<in> Vs (an_node ev). an_resp ev = kv_answer V k (value_at meaning (cl_log C) (an_at ev) k))) \<and>
    sorted (map an_at (filter (\<lambda>ev. an_node ev = i) (cl_hist C)))"
proof -
  note inv = cluster_reach_inv [OF assms(1,2), unfolded cluster_inv_def]
  have "an_at ev \<le> length (cl_log C) \<and>
      (\<exists>V \<in> Vs (an_node ev). an_resp ev = kv_answer V k (value_at meaning (cl_log C) (an_at ev) k))"
    if "ev \<in> set (cl_hist C)" "reads_key k (an_req ev)" for ev k
    using justified_read [where E = E, OF _ assms(3) assms(2) that(2)] inv that(1) by blast
  with inv show ?thesis by blast
qed

definition demo_cluster :: "(demo_raft, string, string) cluster" where
  "demo_cluster = \<lparr>cl_log = [], cl_node = (\<lambda>i. if i = 0 then demo_service else follower_service), cl_hist = []\<rparr>"

lemma demo_fresh_cluster: "fresh_cluster dr_log demo_cluster"
  by (simp add: fresh_cluster_def demo_cluster_def fresh_node_def follower_service_def demo_service_def
      demo_store_def New_def demo_raft0_def)

definition demo_post :: http_request where
  "demo_post = demo_request ''POST'' KeyPath (enc_list [''a'', ''1''])"

lemma demo_post_run:
  "\<exists>s. ServeHTTP (demo_senv utc) demo_venv (\<lambda>_. demo_t) demo_post (demo_service, new_response) =
      (Ret (), s, new_response) \<and> dr_log (st_raft (sv_Store s)) = [demo_set_entry]"
proof -
  let ?E = "demo_senv utc" and ?m = "[''a'' \<mapsto> ''1'']"
  let ?d = "js_Command (se_js ?E) (set_cmd utc demo_t ''a'' ''1'')"
  have e: "(\<lparr>log_Index = 1, log_Data = ?d\<rparr>, demo_t) = demo_set_entry"
    by (simp add: demo_set_entry_def demo_log_def)
  obtain st where st: "Set ?E demo_t ''a'' ''1'' demo_store = (Ret None, st)"
      "st_raft st = demo_raft0\<lparr>dr_index := 1, dr_log := [demo_set_entry]\<rparr>"
    using raft_Apply_refines [OF demo_ra_Apply [OF demo_store_raft, of utc ?d, unfolded e], of "[KSet ''a'' ''1'']"]
    by (auto simp: Set_leader demo_set_entry_op)
  have m: "js_unmap (se_js ?E) (enc_list [''a'', ''1'']) = Inr ?m" by (simp add: demo_json_def dec_map_def)
  have rq: "rq_Method demo_post = ''POST''" "rq_Path demo_post = KeyPath @ []"
      "read_body demo_post = Inr (enc_list [''a'', ''1''])"
    by (simp_all add: demo_post_def demo_request_def read_body_def)
  have "ServeHTTP ?E demo_venv (\<lambda>_. demo_t) demo_post (demo_service, new_response) =
      (Ret (), demo_service\<lparr>sv_Store := st\<rparr>, new_response)"
    using st(1) m rq(1,3)
    by (simp add: ServeHTTP_key [OF rq(2)] handleKeyRequest_def tryForwardToLeader_def
        doKeyPost_def demo_service_def demo_venv_def)
  with st(2) show ?thesis by (intro exI [of _ "demo_service\<lparr>sv_Store := st\<rparr>"]) simp
qed

lemma demo_raft_keeps:
  assumes "dr_log (st_raft (sv_Store s)) = [] \<or> dr_log (st_raft (sv_Store s)) = [demo_set_entry]"
    and "dr_log (st_raft (sv_Store s')) = [demo_set_entry]" "st_Arg (sv_Store s) = st_Arg demo_store"
  shows "raft_keeps (demo_senv utc) dr_log (\<lambda>_. KSet ''a'' ''1'') [fst demo_set_entry] s s'"
  using assms demo_set_entry_op by (auto simp: raft_keeps_def entries_def)

text \<open>A value posted to the leader, handed to another process, and read there.\<close>

lemma demo_cluster_run:
  "\<exists>C wr rd. cluster_reach (\<lambda>_. demo_senv utc) (\<lambda>_. {demo_venv}) dr_log (\<lambda>_. KSet ''a'' ''1'') demo_cluster C \<and>
     cl_log C = [fst demo_set_entry] \<and> wr \<in> set (cl_hist C) \<and> rd \<in> set (cl_hist C) \<and>
     an_req wr = demo_post \<and> an_lead wr \<and> an_resp wr = new_response \<and> an_from wr = 0 \<and> an_at wr = 1 \<and>
     an_node rd = 1 \<and> an_req rd = get_request ''a'' \<and> an_at rd = 1"
proof -
  let ?step = "cluster_step (\<lambda>_. demo_senv utc) (\<lambda>_. {demo_venv}) dr_log (\<lambda>_. KSet ''a'' ''1'')"
  obtain s where s: "ServeHTTP (demo_senv utc) demo_venv (\<lambda>_. demo_t) demo_post (demo_service, new_response) =
      (Ret (), s, new_response)" "dr_log (st_raft (sv_Store s)) = [demo_set_entry]"
    using demo_post_run by blast
  obtain f where f: "node_step (demo_senv utc) {demo_venv} dr_log follower_service f"
      "dr_log (st_raft (sv_Store f)) = [demo_set_entry]"
    using demo_follower_step by blast
  have nodes: "cl_node demo_cluster 0 = demo_service" "cl_node demo_cluster (Suc i) = follower_service"
      "cl_log demo_cluster = []" "cl_hist demo_cluster = []" for i
    by (simp_all add: demo_cluster_def)
  have arg: "st_Arg (sv_Store demo_service) = st_Arg demo_store"
      "st_Arg (sv_Store follower_service) = st_Arg demo_store"
      "dr_log (st_raft (sv_Store demo_service)) = []" "dr_log (st_raft (sv_Store follower_service)) = []"
    by (simp_all add: follower_service_def demo_service_def demo_raft0_def)
  have argf: "st_Arg (sv_Store f) = st_Arg demo_store"
    using node_step_map_of_log [OF demo_keeps_log f(1)] arg
    by (simp add: map_of_log_def follower_service_def demo_service_def demo_store_def New_def demo_raft0_def)
  define C1 where "C1 = demo_cluster\<lparr>cl_log := [fst demo_set_entry], cl_node := (cl_node demo_cluster)(0 := s),
    cl_hist := [\<lparr>an_node = 0, an_req = demo_post, an_resp = new_response, an_lead = True, an_from = 0, an_at = 1\<rparr>]\<rparr>"
  define C2 where "C2 = C1\<lparr>cl_log := [fst demo_set_entry], cl_node := (cl_node C1)(1 := f)\<rparr>"
  let ?w = "kv_answer demo_venv ''a'' (Get ''a'' (sv_Store f))"
  have get: "ServeHTTP (demo_senv utc) demo_venv (\<lambda>_. demo_t) (get_request ''a'') (f, new_response) = (Ret (), f, ?w)"
    by (rule GET_answer) (simp add: reads_key_def get_request_def)
  have "IsLeader (demo_senv utc) (sv_Store demo_service)" by (simp add: demo_service_def)
  then have 1: "?step demo_cluster C1"
    using cluster_step.answer [of demo_venv "\<lambda>_. {demo_venv}" 0 "\<lambda>_. demo_senv utc" "\<lambda>_. demo_t" demo_post
      demo_cluster s new_response "[fst demo_set_entry]" dr_log "\<lambda>_. KSet ''a'' ''1''"] s
      demo_raft_keeps [of demo_service s] arg nodes
    by (simp add: C1_def entries_def)
  have 2: "?step C1 C2"
    unfolding C2_def using f demo_raft_keeps [of follower_service f] arg nodes
    by (intro cluster_step.other) (simp_all add: C1_def)
  have n2: "cl_node C2 1 = f" "cl_log C2 = [fst demo_set_entry]" by (simp_all add: C2_def)
  let ?rd = "\<lparr>an_node = 1, an_req = get_request ''a'', an_resp = ?w, an_lead = IsLeader (demo_senv utc) (sv_Store f),
    an_from = length (entries dr_log f), an_at = length (entries dr_log f)\<rparr>"
  note 3 = cluster_step.answer [of demo_venv "\<lambda>_. {demo_venv}" 1 "\<lambda>_. demo_senv utc" "\<lambda>_. demo_t" "get_request ''a''"
      C2 f ?w "[fst demo_set_entry]" dr_log "\<lambda>_. KSet ''a'' ''1''", unfolded n2, OF _ get prefix_order.refl
      demo_raft_keeps [OF disjI2 [OF f(2)] f(2) argf]]
  have 4: "\<exists>C. ?step C2 C \<and> cl_log C = [fst demo_set_entry] \<and> cl_hist C = cl_hist C2 @ [?rd]"
    by (intro exI conjI) (rule 3, simp_all)
  then obtain C where C: "?step C2 C" "cl_log C = [fst demo_set_entry]" "cl_hist C = cl_hist C2 @ [?rd]" by blast
  have "cluster_reach (\<lambda>_. demo_senv utc) (\<lambda>_. {demo_venv}) dr_log (\<lambda>_. KSet ''a'' ''1'') demo_cluster C"
    by (rule cluster_reach.step [OF cluster_reach.step [OF cluster_reach.step [OF cluster_reach.init 1] 2] C(1)])
  with C(2,3) show ?thesis
    by (intro exI [of _ C] exI [of _ "hd (cl_hist C1)"] exI [of _ ?rd])
      (simp add: f(2) C2_def C1_def entries_def)
qed

theorem reads_follow_log_witness:
  "\<exists>C rd. cluster_reach (\<lambda>_. demo_senv utc) (\<lambda>_. {demo_venv}) dr_log (\<lambda>_. KSet ''a'' ''1'') demo_cluster C \<and>
     rd \<in> set (cl_hist C) \<and> an_node rd = 1 \<and> an_resp rd = kv_answer demo_venv ''a'' (Some ''1'')"
proof -
  obtain C rd where c: "cluster_reach (\<lambda>_. demo_senv utc) (\<lambda>_. {demo_venv}) dr_log (\<lambda>_. KSet ''a'' ''1'') demo_cluster C"
      "cl_log C = [fst demo_set_entry]" "rd \<in> set (cl_hist C)" "an_node rd = 1" "an_req rd = get_request ''a''"
      "an_at rd = 1"
    using demo_cluster_run by blast
  have "reads_key ''a'' (an_req rd)" by (simp add: c(5) reads_key_def get_request_def)
  with reads_follow_log [OF c(1) demo_fresh_cluster demo_keeps_log] c(3)
  have "an_resp rd = kv_answer demo_venv ''a'' (value_at (\<lambda>_. KSet ''a'' ''1'') (cl_log C) (an_at rd) ''a'')" by blast
  then have "an_resp rd = kv_answer demo_venv ''a'' (Some ''1'')"
    by (simp add: c(2,6) value_at_def kv_lookup_def)
  with c show ?thesis by blast
qed

text \<open>
  C2. No acknowledged write is lost, whoever leads afterwards. In any such run, if a process that
  led has answered a POST or a DELETE under the key path with status 200, then the log has, from
  then on, the command of each write the request asked for, among the entries applied during the
  request. Every later or earlier answer to a GET of the key, on any process that had applied as
  much as the leader then, is at least as new: if the entry still counted as a write to the key
  and no later entry the reader had applied writes to it, the client is told the value written
  (404 after a DELETE). Besides the assumptions of the reads it uses that a future of Raft
  reports success only after its command was handed over, and that ranging over a map visits
  every key.
\<close>

theorem acknowledged_writes_seen:
  assumes "cluster_reach E Vs applied meaning C0 C" "fresh_cluster applied C0"
    and "\<And>i. keeps_log (se_api (E i)) applied \<and> hands_over (se_api (E i)) \<and> ranges_all (se_js (E i)) (Vs i)"
    and "wr \<in> set (cl_hist C)" "an_lead wr" "status_of (an_resp wr) = 200"
    and "asks_write (se_js (E (an_node wr))) (an_req wr) k v"
  shows "\<exists>n t. an_from wr \<le> n \<and> n < an_at wr \<and>
    log_Data (cl_log C ! n) = js_Command (se_js (E (an_node wr))) (write_cmd (se_loc (E (an_node wr))) t k v) \<and>
    (\<forall>rd \<in> set (cl_hist C). reads_key k (an_req rd) \<longrightarrow> an_at wr \<le> an_at rd \<longrightarrow>
       (case v of Some x \<Rightarrow> meaning (cl_log C ! n) = KSet k x | None \<Rightarrow> meaning (cl_log C ! n) = KDel k) \<longrightarrow>
       (\<forall>p. n < p \<and> p < an_at rd \<longrightarrow> kv_key (meaning (cl_log C ! p)) \<noteq> Some k) \<longrightarrow>
       (\<exists>V \<in> Vs (an_node rd). an_resp rd = kv_answer V k v))"
proof -
  have just: "justified E Vs applied meaning C0 C ev" if "ev \<in> set (cl_hist C)" for ev
    using cluster_reach_inv [OF assms(1,2)] that by (simp add: cluster_inv_def)
  obtain n t where n: "an_from wr \<le> n" "n < an_at wr"
      "log_Data (cl_log C ! n) = js_Command (se_js (E (an_node wr))) (write_cmd (se_loc (E (an_node wr))) t k v)"
    using justified_write [OF just [OF assms(4)] assms(5,6) _ _ assms(7)] assms(3) by blast
  have "\<exists>V \<in> Vs (an_node rd). an_resp rd = kv_answer V k v"
    if "rd \<in> set (cl_hist C)" "reads_key k (an_req rd)" "an_at wr \<le> an_at rd"
      "case v of Some x \<Rightarrow> meaning (cl_log C ! n) = KSet k x | None \<Rightarrow> meaning (cl_log C ! n) = KDel k"
      "\<forall>p. n < p \<and> p < an_at rd \<longrightarrow> kv_key (meaning (cl_log C ! p)) \<noteq> Some k" for rd
  proof -
    have op: "kv_key (meaning (cl_log C ! n)) = Some k" "kv_val (meaning (cl_log C ! n)) = v"
      using that(4) by (auto split: option.splits)
    have "keeps_log (se_api (E (an_node rd))) applied" using assms(3) by blast
    from justified_read [OF just [OF that(1)] this assms(2) that(2)]
      value_at_last [of n "an_at rd" "cl_log C" meaning k] that(3,5) n(2) op show ?thesis
      by auto
  qed
  with n show ?thesis by blast
qed

lemma demo_hands_over: "hands_over (se_api (demo_senv utc))"
  using promptD(3) [OF demo_prompt] unfolding hands_over_def by fastforce

lemma demo_ranges_all: "ranges_all (se_js (demo_senv utc)) {demo_venv}"
  by (auto simp: ranges_all_def demo_venv_def demo_json_def dec_map_def finite_dom_map_of)

theorem acknowledged_writes_seen_witness:
  "\<exists>C rd. cluster_reach (\<lambda>_. demo_senv utc) (\<lambda>_. {demo_venv}) dr_log (\<lambda>_. KSet ''a'' ''1'') demo_cluster C \<and>
     rd \<in> set (cl_hist C) \<and> an_node rd = 1 \<and> an_resp rd = kv_answer demo_venv ''a'' (Some ''1'')"
proof -
  obtain C wr rd where c: "cluster_reach (\<lambda>_. demo_senv utc) (\<lambda>_. {demo_venv}) dr_log (\<lambda>_. KSet ''a'' ''1'') demo_cluster C"
      "wr \<in> set (cl_hist C)" "rd \<in> set (cl_hist C)" "an_req wr = demo_post" "an_lead wr" "an_resp wr = new_response"
      "an_from wr = 0" "an_at wr = 1" "an_node rd = 1" "an_req rd = get_request ''a''" "an_at rd = 1"
    using demo_cluster_run by blast
  have "js_unmap (se_js (demo_senv utc)) (enc_list [''a'', ''1'']) = Inr [''a'' \<mapsto> ''1'']"
    by (simp add: demo_json_def dec_map_def)
  then have ask: "asks_write (se_js (demo_senv utc)) (an_req wr) ''a'' (Some ''1'')"
    using c(4) by (simp add: asks_write_def demo_post_def demo_request_def read_body_def str_HasPrefix_def)
  have status: "status_of (an_resp wr) = 200" by (simp add: c(6) status_of_def new_response_def)
  have read: "reads_key ''a'' (an_req rd)" by (simp add: c(10) reads_key_def get_request_def)
  have libs: "keeps_log (se_api (demo_senv utc)) dr_log \<and> hands_over (se_api (demo_senv utc)) \<and>
      ranges_all (se_js (demo_senv utc)) {demo_venv}"
    using demo_keeps_log demo_hands_over demo_ranges_all by blast
  from acknowledged_writes_seen [OF c(1) demo_fresh_cluster libs c(2,5) status ask] c(1,3,8,9,11) read show ?thesis
    by fastforce
qed

end
