(* ===== verification/Posts_In_Flight.thy ===== *)
theory Posts_In_Flight
  imports Cluster_History
begin

text \<open>
  Handlers of POST requests at the grain at which they run: the handler of \<open>service_key.go\<close> calls
  \<open>Set\<close> once for each key, and between two of these calls the process serves other requests, applies
  entries of others and may lose the leadership. A cluster as in \<open>Cluster_History\<close>, with any number of POSTs
  under way on any of its processes: each turn of a handler is one call of \<open>Set\<close>, or the return.
\<close>

section \<open>A cluster with POSTs under way\<close>

text \<open>
  A handler in its loop: the decoded map, the keys that are set and those still to come, in the order
  in which the map is ranged over; \<open>ph_from\<close> is the length of the process's log when the request came.
\<close>

record post_handler =
  ph_node :: nat
  ph_req :: http_request
  ph_map :: "string \<rightharpoonup> string"
  ph_done :: "string list"
  ph_todo :: "string list"
  ph_from :: nat

record post_answer =
  pa_handler :: post_handler
  pa_resp :: response
  pa_at :: nat

record ('r, 'v, 'w) busy =
  bz_cluster :: "('r, 'v, 'w) cluster"
  bz_posts :: "nat \<Rightarrow> post_handler option"
  bz_answers :: "post_answer list"

text \<open>
  Up to the loop: the request is a POST under the key path, the process leads (\<open>tryForwardToLeader\<close>),
  the body decodes. The other cases need no loop; they are answered in one step of \<open>Cluster_History\<close>.
\<close>

definition begin_post ::
    "('r, 'v) store_env \<Rightarrow> ('w, 'j) svc_env \<Rightarrow> http_request \<Rightarrow> ('r, 'v, 'w) Service \<Rightarrow>
     ((string \<rightharpoonup> string) \<times> string list) option" where
  "begin_post E V rq s =
     (if str_HasPrefix (rq_Path rq) KeyPath \<and> rq_Method rq = ''POST'' \<and> IsLeader E (sv_Store s) then
        (case read_body rq of
           Inl err \<Rightarrow> None
         | Inr body \<Rightarrow>
             (case js_unmap (se_js E) body of
                Inl err \<Rightarrow> None
              | Inr m \<Rightarrow> Some (m, sv_order V m)))
      else None)"

text \<open>A turn: the answer, if the handler has returned.\<close>

definition post_turn ::
    "('r, 'v) store_env \<Rightarrow> int \<Rightarrow> post_handler \<Rightarrow> ('r, 'v, 'w) Service \<Rightarrow>
     (unit outcome \<times> response) option \<times> post_handler \<times> ('r, 'v, 'w) Service" where
  "post_turn E t h s =
     (case ph_todo h of
        [] \<Rightarrow> (Some (Ret (), new_response), h, s)
      | k # ks \<Rightarrow>
          (case Set E t k (the (ph_map h k)) (sv_Store s) of
             (Panic e, st) \<Rightarrow> (Some (Panic e, new_response), h, s\<lparr>sv_Store := st\<rparr>)
           | (Ret (Some err), st) \<Rightarrow> (Some (Ret (), WriteHeader 500 new_response), h, s\<lparr>sv_Store := st\<rparr>)
           | (Ret None, st) \<Rightarrow> (None, h\<lparr>ph_done := ph_done h @ [k], ph_todo := ks\<rparr>, s\<lparr>sv_Store := st\<rparr>)))"

text \<open>After the turn of handler \<open>p\<close>. A request whose handler panicked is not answered.\<close>

definition settle ::
    "nat \<Rightarrow> (unit outcome \<times> response) option \<Rightarrow> post_handler \<Rightarrow> nat \<Rightarrow> ('r, 'v, 'w) busy \<Rightarrow> ('r, 'v, 'w) busy" where
  "settle p x h at B =
     (case x of
        None \<Rightarrow> B\<lparr>bz_posts := (bz_posts B)(p \<mapsto> h)\<rparr>
      | Some (Panic e, w) \<Rightarrow> B\<lparr>bz_posts := (bz_posts B)(p := None)\<rparr>
      | Some (Ret _, w) \<Rightarrow> B\<lparr>bz_posts := (bz_posts B)(p := None),
          bz_answers := bz_answers B @ [\<lparr>pa_handler = h, pa_resp = w, pa_at = at\<rparr>]\<rparr>)"

inductive busy_step ::
    "(nat \<Rightarrow> ('r, 'v) store_env) \<Rightarrow> (nat \<Rightarrow> ('w, 'j) svc_env set) \<Rightarrow> ('r \<Rightarrow> (raft_log \<times> int) list) \<Rightarrow>
     (raft_log \<Rightarrow> kv_op) \<Rightarrow> ('r, 'v, 'w) busy \<Rightarrow> ('r, 'v, 'w) busy \<Rightarrow> bool"
  for E :: "nat \<Rightarrow> ('r, 'v) store_env" and Vs :: "nat \<Rightarrow> ('w, 'j) svc_env set"
    and applied :: "'r \<Rightarrow> (raft_log \<times> int) list" and meaning :: "raft_log \<Rightarrow> kv_op"
where
  others: "cluster_step E Vs applied meaning (bz_cluster B) C \<Longrightarrow>
    busy_step E Vs applied meaning B (B\<lparr>bz_cluster := C\<rparr>)"
| begins: "V \<in> Vs i \<Longrightarrow> begin_post (E i) V rq (cl_node (bz_cluster B) i) = Some (m, ks) \<Longrightarrow>
    bz_posts B p = None \<Longrightarrow>
    busy_step E Vs applied meaning B
      (B\<lparr>bz_posts := (bz_posts B)(p \<mapsto> \<lparr>ph_node = i, ph_req = rq, ph_map = m, ph_done = [], ph_todo = ks,
        ph_from = length (entries applied (cl_node (bz_cluster B) i))\<rparr>)\<rparr>)"
| turn: "bz_posts B p = Some h \<Longrightarrow>
    post_turn (E (ph_node h)) t h (cl_node (bz_cluster B) (ph_node h)) = (x, h', s') \<Longrightarrow>
    prefix (cl_log (bz_cluster B)) G \<Longrightarrow>
    raft_keeps (E (ph_node h)) applied meaning G (cl_node (bz_cluster B) (ph_node h)) s' \<Longrightarrow>
    busy_step E Vs applied meaning B
      (settle p x h' (length (entries applied s'))
        (B\<lparr>bz_cluster := (bz_cluster B)\<lparr>cl_log := G, cl_node := (cl_node (bz_cluster B))(ph_node h := s')\<rparr>\<rparr>))"

inductive busy_reach ::
    "(nat \<Rightarrow> ('r, 'v) store_env) \<Rightarrow> (nat \<Rightarrow> ('w, 'j) svc_env set) \<Rightarrow> ('r \<Rightarrow> (raft_log \<times> int) list) \<Rightarrow>
     (raft_log \<Rightarrow> kv_op) \<Rightarrow> ('r, 'v, 'w) busy \<Rightarrow> ('r, 'v, 'w) busy \<Rightarrow> bool"
  for E :: "nat \<Rightarrow> ('r, 'v) store_env" and Vs :: "nat \<Rightarrow> ('w, 'j) svc_env set"
    and applied :: "'r \<Rightarrow> (raft_log \<times> int) list" and meaning :: "raft_log \<Rightarrow> kv_op"
    and B0 :: "('r, 'v, 'w) busy"
where
  init: "busy_reach E Vs applied meaning B0 B0"
| step: "busy_reach E Vs applied meaning B0 B \<Longrightarrow> busy_step E Vs applied meaning B B' \<Longrightarrow>
    busy_reach E Vs applied meaning B0 B'"

lemma busy_reach_trans:
  assumes "busy_step E Vs applied meaning B B'" "busy_reach E Vs applied meaning B' B''"
  shows "busy_reach E Vs applied meaning B B''"
  using assms(2,1) by (induction rule: busy_reach.induct) (blast intro: busy_reach.intros)+

definition idle_cluster :: "('r \<Rightarrow> (raft_log \<times> int) list) \<Rightarrow> ('r, 'v, 'w) busy \<Rightarrow> bool" where
  "idle_cluster applied B \<longleftrightarrow> fresh_cluster applied (bz_cluster B) \<and> bz_posts B = Map.empty \<and> bz_answers B = []"

section \<open>Turns are steps of the cluster\<close>

lemma settle_cluster [simp]: "bz_cluster (settle p x h at B) = bz_cluster B"
  by (simp add: settle_def split: option.splits prod.splits outcome.splits)

lemma post_turn_cases:
  assumes "post_turn E t h s = (x, h', s')"
  obtains (returns) "ph_todo h = []" "x = Some (Ret (), new_response)" "h' = h" "s' = s"
  | (sets) k ks st where "ph_todo h = k # ks" "Set E t k (the (ph_map h k)) (sv_Store s) = (Ret None, st)"
      "x = None" "h' = h\<lparr>ph_done := ph_done h @ [k], ph_todo := ks\<rparr>" "s' = s\<lparr>sv_Store := st\<rparr>"
  | (fails) k ks err st where "ph_todo h = k # ks"
      "Set E t k (the (ph_map h k)) (sv_Store s) = (Ret (Some err), st)"
      "x = Some (Ret (), WriteHeader 500 new_response)" "h' = h" "s' = s\<lparr>sv_Store := st\<rparr>"
  | (panics) k ks e st where "ph_todo h = k # ks" "Set E t k (the (ph_map h k)) (sv_Store s) = (Panic e, st)"
      "x = Some (Panic e, new_response)" "h' = h" "s' = s\<lparr>sv_Store := st\<rparr>"
proof (cases "ph_todo h")
  case Nil
  with assms show ?thesis by (intro returns [OF Nil]) (auto simp: post_turn_def)
next
  case (Cons k ks)
  obtain r st where set1: "Set E t k (the (ph_map h k)) (sv_Store s) = (r, st)" by fastforce
  show ?thesis
  proof (cases r)
    case (Ret y)
    show ?thesis
    proof (cases y)
      case None
      with assms Cons set1 Ret show ?thesis by (intro sets [OF Cons]) (auto simp: post_turn_def)
    next
      case (Some err)
      with assms Cons set1 Ret show ?thesis by (intro fails [OF Cons]) (auto simp: post_turn_def)
    qed
  next
    case (Panic e)
    with assms Cons set1 show ?thesis by (intro panics [OF Cons]) (auto simp: post_turn_def)
  qed
qed

lemma post_turn_calls:
  assumes "post_turn E t h s = (x, h', s')"
  shows "s' = s \<or> (\<exists>k v r st. Set E t k v (sv_Store s) = (r, st) \<and> s' = s\<lparr>sv_Store := st\<rparr>)"
  using assms by (cases rule: post_turn_cases) blast+

lemma raft_keeps_decodable:
  "raft_keeps E applied meaning G s s' \<Longrightarrow> decodable E (st_Arg (sv_Store s)) (applied (st_raft (sv_Store s')))"
  by (auto simp: raft_keeps_def decodable_def list_all_iff)

lemma turn_cluster_step:
  assumes "post_turn (E i) t h (cl_node C i) = (x, h', s')" "prefix (cl_log C) G"
    and "raft_keeps (E i) applied meaning G (cl_node C i) s'"
  shows "cluster_step E Vs applied meaning C (C\<lparr>cl_log := G, cl_node := (cl_node C)(i := s')\<rparr>)"
proof (rule cluster_step.other [where E = E and i = i, OF _ assms(2,3)])
  note dec = raft_keeps_decodable [OF assms(3)]
  from post_turn_calls [OF assms(1)] show "node_step (E i) (Vs i) applied (cl_node C i) s'"
  proof (elim disjE exE conjE)
    fix k v r st
    assume "Set (E i) t k v (sv_Store (cl_node C i)) = (r, st)" "s' = (cl_node C i)\<lparr>sv_Store := st\<rparr>"
    with node_step.own_set [of "E i" t k v "cl_node C i" r st applied "Vs i"] dec show ?thesis by simp
  next
    assume "s' = cl_node C i"
    with node_step.raft [of applied "st_raft (sv_Store (cl_node C i))" "cl_node C i" "E i" "Vs i"]
    show ?thesis by simp
  qed
qed

lemma busy_step_cluster:
  assumes "busy_step E Vs applied meaning B B'"
  shows "bz_cluster B' = bz_cluster B \<or> cluster_step E Vs applied meaning (bz_cluster B) (bz_cluster B')"
  using assms
proof cases
  case (turn p h t x h' s' G)
  from turn_cluster_step [where E = E and i = "ph_node h" and C = "bz_cluster B", OF turn(3-5), of Vs] turn(1) show ?thesis by simp
qed simp_all

lemma busy_reach_cluster:
  "busy_reach E Vs applied meaning B0 B \<Longrightarrow> cluster_reach E Vs applied meaning (bz_cluster B0) (bz_cluster B)"
  by (induction rule: busy_reach.induct) (use busy_step_cluster in \<open>fastforce intro: cluster_reach.intros\<close>)+


lemma post_turn_frame:
  assumes "post_turn E t h s = (x, h', s')"
  shows "ph_node h' = ph_node h \<and> ph_req h' = ph_req h \<and> ph_map h' = ph_map h \<and> ph_from h' = ph_from h \<and>
    ph_done h' @ ph_todo h' = ph_done h @ ph_todo h"
  using assms by (cases rule: post_turn_cases) auto

section \<open>What a handler has put into the log\<close>

text \<open>
  Among the entries \<open>from\<close> up to \<open>at\<close> of the log are commands that set the keys to what \<open>m\<close> has for them, in
  the order of the keys; other entries may stand between them.
\<close>

definition posted ::
    "json_lib \<Rightarrow> (int \<Rightarrow> int) \<Rightarrow> raft_log list \<Rightarrow> nat \<Rightarrow> nat \<Rightarrow> (string \<rightharpoonup> string) \<Rightarrow> string list \<Rightarrow> bool" where
  "posted js loc G from at m ks \<longleftrightarrow>
     (\<exists>es. subseq es (drop from (take at G)) \<and>
        list_all2 (\<lambda>k e. \<exists>t. log_Data e = js_Command js (set_cmd loc t k (the (m k)))) ks es)"

lemma posted_Nil [simp]: "posted js loc G from at m []"
  by (auto simp: posted_def)

lemma posted_grow:
  assumes "posted js loc G from at m ks" "prefix (take at G) (take at' G')"
  shows "posted js loc G' from at' m ks"
proof -
  obtain es where es: "subseq es (drop from (take at G))"
      "list_all2 (\<lambda>k e. \<exists>t. log_Data e = js_Command js (set_cmd loc t k (the (m k)))) ks es"
    using assms(1) by (auto simp: posted_def)
  obtain zs where "take at' G' = take at G @ zs" using assms(2) by (auto simp: prefix_def)
  then have "subseq es (drop from (take at' G'))"
    using es(1) by (simp add: subseq_rev_drop_many)
  with es(2) show ?thesis by (auto simp: posted_def)
qed

lemma posted_snoc:
  assumes "posted js loc G from at m ks" "from \<le> at" "at \<le> n" "n < at'"
    and "n < length G" "log_Data (G ! n) = js_Command js (set_cmd loc t k (the (m k)))"
  shows "posted js loc G from at' m (ks @ [k])"
proof -
  obtain es where es: "subseq es (drop from (take at G))"
      "list_all2 (\<lambda>k e. \<exists>t. log_Data e = js_Command js (set_cmd loc t k (the (m k)))) ks es"
    using assms(1) by (auto simp: posted_def)
  have "take at' G = take at G @ drop at (take at' G)"
    using assms(3,4) by (metis append_take_drop_id le_trans less_imp_le min.absorb1 take_take)
  then have "drop from (take at' G) = drop from (take at G) @ drop (from - length (take at G)) (drop at (take at' G))"
    by (metis drop_append)
  moreover have "from - length (take at G) = 0" using assms(2-5) by simp
  ultimately have split: "drop from (take at' G) = drop from (take at G) @ drop at (take at' G)" by simp
  have "G ! n \<in> set (drop at (take at' G))"
    using assms(3-5) by (auto simp: in_set_conv_nth intro!: exI [of _ "n - at"])
  then have "subseq [G ! n] (drop at (take at' G))" by (simp add: subseq_singleton_left)
  then have "subseq (es @ [G ! n]) (drop from (take at' G))"
    unfolding split by (rule list_emb_append_mono [OF es(1)])
  moreover have "list_all2 (\<lambda>k e. \<exists>t. log_Data e = js_Command js (set_cmd loc t k (the (m k)))) (ks @ [k]) (es @ [G ! n])"
    using es(2) assms(6) by (auto intro: list_all2_appendI)
  ultimately show ?thesis unfolding posted_def by blast
qed

lemma posted_at:
  assumes "posted js loc G from at m ks" "k \<in> set ks" "at \<le> length G"
  shows "\<exists>n t. from \<le> n \<and> n < at \<and> log_Data (G ! n) = js_Command js (set_cmd loc t k (the (m k)))"
proof -
  obtain es where es: "subseq es (drop from (take at G))"
      "list_all2 (\<lambda>k e. \<exists>t. log_Data e = js_Command js (set_cmd loc t k (the (m k)))) ks es"
    using assms(1) by (auto simp: posted_def)
  obtain i where i: "i < length ks" "ks ! i = k" using assms(2) by (auto simp: in_set_conv_nth)
  then obtain t where e: "i < length es" "log_Data (es ! i) = js_Command js (set_cmd loc t k (the (m k)))"
    using es(2) by (auto simp: list_all2_conv_all_nth)
  have "es ! i \<in> set (drop from (take at G))" using nth_mem [OF e(1)] es(1) by (metis set_nths_subset subseq_conv_nths subsetD)
  then obtain j where "j < length (drop from (take at G))" "drop from (take at G) ! j = es ! i"
    by (auto simp: in_set_conv_nth)
  with e(2) assms(3) show ?thesis by (intro exI [of _ "from + j"] exI [of _ t]) auto
qed


section \<open>The invariant\<close>

text \<open>A handler whose process has applied \<open>n\<close> entries of the committed log \<open>G\<close>.\<close>

definition on_its_way ::
    "(nat \<Rightarrow> ('r, 'v) store_env) \<Rightarrow> (nat \<Rightarrow> ('w, 'j) svc_env set) \<Rightarrow> raft_log list \<Rightarrow> nat \<Rightarrow> post_handler \<Rightarrow> bool" where
  "on_its_way E Vs G n h \<longleftrightarrow>
     ph_from h \<le> n \<and> n \<le> length G \<and>
     posted (se_js (E (ph_node h))) (se_loc (E (ph_node h))) G (ph_from h) n (ph_map h) (ph_done h) \<and>
     (\<exists>V \<in> Vs (ph_node h). \<exists>body. read_body (ph_req h) = Inr body \<and>
        js_unmap (se_js (E (ph_node h))) body = Inr (ph_map h) \<and> ph_done h @ ph_todo h = sv_order V (ph_map h))"

definition busy_inv ::
    "(nat \<Rightarrow> ('r, 'v) store_env) \<Rightarrow> (nat \<Rightarrow> ('w, 'j) svc_env set) \<Rightarrow> ('r \<Rightarrow> (raft_log \<times> int) list) \<Rightarrow>
     ('r, 'v, 'w) busy \<Rightarrow> bool" where
  "busy_inv E Vs applied B \<longleftrightarrow>
     (\<forall>i. prefix (entries applied (cl_node (bz_cluster B) i)) (cl_log (bz_cluster B))) \<and>
     (\<forall>p h. bz_posts B p = Some h \<longrightarrow>
        on_its_way E Vs (cl_log (bz_cluster B)) (length (entries applied (cl_node (bz_cluster B) (ph_node h)))) h) \<and>
     (\<forall>a \<in> set (bz_answers B). on_its_way E Vs (cl_log (bz_cluster B)) (pa_at a) (pa_handler a) \<and>
        status_of (pa_resp a) = (if ph_todo (pa_handler a) = [] then 200 else 500))"

lemma on_its_way_grow:
  assumes "on_its_way E Vs G n h" "prefix G G'" "n \<le> n'" "n' \<le> length G'"
  shows "on_its_way E Vs G' n' h"
proof -
  obtain zs where zs: "G' = G @ zs" using assms(2) by (auto simp: prefix_def)
  have "n \<le> length G" using assms(1) by (simp add: on_its_way_def)
  then have "take n (take n' G') = take n G" using zs assms(3) by (simp add: min_absorb1)
  then have "prefix (take n G) (take n' G')" by (metis take_is_prefix)
  with assms(1,3,4) posted_grow show ?thesis by (fastforce simp: on_its_way_def)
qed

lemma cluster_step_grows:
  assumes "cluster_step E Vs applied meaning C C'" "\<And>i. prefix (entries applied (cl_node C i)) (cl_log C)"
  shows "prefix (cl_log C) (cl_log C') \<and> prefix (entries applied (cl_node C i)) (entries applied (cl_node C' i)) \<and>
    prefix (entries applied (cl_node C' i)) (cl_log C')"
  using assms(1)
proof cases
  case (answer V j clk rq s' w G)
  with assms(2) [of i] show ?thesis by (auto simp: raft_keeps_def intro: prefix_order.order_trans)
next
  case (other j s' G)
  with assms(2) [of i] show ?thesis by (auto simp: raft_keeps_def intro: prefix_order.order_trans)
qed

lemma turn_on_its_way:
  assumes "keeps_log (se_api (E (ph_node h))) applied" "hands_over (se_api (E (ph_node h)))"
    and "post_turn (E (ph_node h)) t h s = (x, h', s')" "on_its_way E Vs G0 (length (entries applied s)) h"
    and "prefix G0 G" "raft_keeps (E (ph_node h)) applied meaning G s s'"
  shows "on_its_way E Vs G (length (entries applied s')) h'"
proof -
  have len: "length (entries applied s) \<le> length (entries applied s')" "length (entries applied s') \<le> length G"
    using assms(6) by (auto simp: raft_keeps_def dest: prefix_length_le)
  have old: "on_its_way E Vs G (length (entries applied s)) h"
    using on_its_way_grow [OF assms(4,5)] len by simp
  from assms(3) show ?thesis
  proof (cases rule: post_turn_cases)
    case (sets k ks st)
    have "entered applied (sv_Store s) (sv_Store s')
        (js_Command (se_js (E (ph_node h))) (set_cmd (se_loc (E (ph_node h))) t k (the (ph_map h k))))"
      using Set_entered [OF assms(1,2) sets(2)] sets(5) by simp
    from entered_at [OF this assms(6)] obtain n where n: "length (entries applied s) \<le> n" "n < length (entries applied s')"
        "log_Data (G ! n) = js_Command (se_js (E (ph_node h))) (set_cmd (se_loc (E (ph_node h))) t k (the (ph_map h k)))"
      by blast
    have "posted (se_js (E (ph_node h))) (se_loc (E (ph_node h))) G (ph_from h) (length (entries applied s')) (ph_map h)
        (ph_done h @ [k])"
      using posted_snoc [where m = "ph_map h" and k = k, OF _ _ n(1,2) _ n(3)] old n(2) len by (simp add: on_its_way_def)
    with old len sets(1,4) show ?thesis by (simp add: on_its_way_def)
  qed (use on_its_way_grow [OF old prefix_order.refl len] in simp_all)
qed

lemma turn_answer:
  assumes "post_turn E t h s = (Some (Ret (), w), h', s')"
  shows "status_of w = (if ph_todo h' = [] then 200 else 500)"
  using assms by (cases rule: post_turn_cases) (simp_all add: new_response_def status_of_def WriteHeader_def)

lemma busy_inv_cluster:
  assumes "busy_inv E Vs applied B" "bz_posts B' = bz_posts B" "bz_answers B' = bz_answers B"
    and "prefix (cl_log (bz_cluster B)) (cl_log (bz_cluster B'))"
    and "\<And>i. prefix (entries applied (cl_node (bz_cluster B) i)) (entries applied (cl_node (bz_cluster B') i))"
    and "\<And>i. prefix (entries applied (cl_node (bz_cluster B') i)) (cl_log (bz_cluster B'))"
  shows "busy_inv E Vs applied B'"
proof -
  have "on_its_way E Vs (cl_log (bz_cluster B')) (length (entries applied (cl_node (bz_cluster B') (ph_node h)))) h"
    if "bz_posts B p = Some h" for p h
    by (rule on_its_way_grow [OF _ assms(4) prefix_length_le [OF assms(5)] prefix_length_le [OF assms(6)]])
      (use assms(1) that in \<open>simp add: busy_inv_def\<close>)
  moreover have "on_its_way E Vs (cl_log (bz_cluster B')) (pa_at a) (pa_handler a)" if "a \<in> set (bz_answers B)" for a
  proof (rule on_its_way_grow [OF _ assms(4) order.refl])
    show "on_its_way E Vs (cl_log (bz_cluster B)) (pa_at a) (pa_handler a)"
      using assms(1) that by (simp add: busy_inv_def)
    then show "pa_at a \<le> length (cl_log (bz_cluster B'))"
      using prefix_length_le [OF assms(4)] by (simp add: on_its_way_def)
  qed
  ultimately show ?thesis using assms(1,2,3,6) by (auto simp: busy_inv_def)
qed


lemma busy_inv_step:
  assumes "busy_step E Vs applied meaning B B'" "busy_inv E Vs applied B"
    and libs: "\<And>i. keeps_log (se_api (E i)) applied \<and> hands_over (se_api (E i))"
  shows "busy_inv E Vs applied B'"
proof -
  have pre: "prefix (entries applied (cl_node (bz_cluster B) i)) (cl_log (bz_cluster B))" for i
    using assms(2) by (simp add: busy_inv_def)
  note grows = cluster_step_grows [OF _ pre]
  from assms(1) show ?thesis
  proof cases
    case (others C)
    show ?thesis
      by (rule busy_inv_cluster [OF assms(2)]) (use grows [OF others(2)] others(1) in simp_all)
  next
    case (begins V i rq m ks p)
    let ?h = "\<lparr>ph_node = i, ph_req = rq, ph_map = m, ph_done = [], ph_todo = ks,
      ph_from = length (entries applied (cl_node (bz_cluster B) i))\<rparr>"
    have "on_its_way E Vs (cl_log (bz_cluster B)) (length (entries applied (cl_node (bz_cluster B) i))) ?h"
      using begins(2,3) prefix_length_le [OF pre]
      by (auto simp: on_its_way_def begin_post_def split: if_splits sum.splits)
    with assms(2) begins(1) show ?thesis by (simp add: busy_inv_def)
  next
    case (turn p h t x h' s' G)
    let ?i = "ph_node h" and ?C = "bz_cluster B"
    let ?B = "B\<lparr>bz_cluster := ?C\<lparr>cl_log := G, cl_node := (cl_node ?C)(?i := s')\<rparr>\<rparr>"
    note step = turn_cluster_step [where E = E and i = ?i and C = ?C and Vs = Vs, OF turn(3-5)]
    have inv: "busy_inv E Vs applied ?B"
      by (rule busy_inv_cluster [OF assms(2)]) (use grows [OF step] in simp_all)
    have h: "on_its_way E Vs (cl_log ?C) (length (entries applied (cl_node ?C ?i))) h"
      using assms(2) turn(2) by (simp add: busy_inv_def)
    have h': "on_its_way E Vs G (length (entries applied s')) h'"
      using turn_on_its_way [OF _ _ turn(3) h turn(4,5)] libs by simp
    have node: "ph_node h' = ?i" using post_turn_frame [OF turn(3)] by simp
    show ?thesis
    proof (cases x)
      case None
      with inv h' node turn(1) show ?thesis by (auto simp: busy_inv_def settle_def)
    next
      case (Some y)
      then show ?thesis
        using inv h' turn_answer [of "E ?i" t h "cl_node ?C ?i"] turn(1,3)
        by (cases y; cases "fst y") (auto simp: busy_inv_def settle_def split: if_splits)
    qed
  qed
qed

lemma busy_reach_inv:
  assumes "busy_reach E Vs applied meaning B0 B" "idle_cluster applied B0"
    and "\<And>i. keeps_log (se_api (E i)) applied \<and> hands_over (se_api (E i))"
  shows "busy_inv E Vs applied B"
  using assms
proof (induction rule: busy_reach.induct)
  case init
  then show ?case by (auto simp: busy_inv_def idle_cluster_def fresh_cluster_def fresh_node_def entries_def)
next
  case (step B B')
  then show ?case by (blast intro: busy_inv_step)
qed

section \<open>A handler on its own\<close>

lemma raft_keeps_middle:
  assumes "logged E applied (sv_Store s) (sv_Store s1)" "logged E applied (sv_Store s1) (sv_Store s')"
    and "raft_keeps E applied meaning G s s'"
  shows "raft_keeps E applied meaning G s s1" "raft_keeps E applied meaning G s1 s'"
proof -
  have pre: "prefix (entries applied s) (entries applied s1)" "prefix (entries applied s1) (entries applied s')"
    using assms(1,2) by (auto simp: logged_def entries_def)
  have "set (applied (st_raft (sv_Store s1))) \<subseteq> set (applied (st_raft (sv_Store s')))"
    using assms(2) by (auto simp: logged_def)
  with assms(3) pre show "raft_keeps E applied meaning G s s1"
    by (auto simp: raft_keeps_def intro: prefix_order.order_trans)
  show "raft_keeps E applied meaning G s1 s'"
    using assms(1,3) pre by (auto simp: raft_keeps_def logged_def)
qed

text \<open>
  When nothing else happens in between, the turns of a handler are the loop of \<open>doKeyPost\<close>, so the answers given
  in one step of \<open>Cluster_History\<close> are among the runs here.
\<close>

lemma post_loop_turns:
  assumes "post_loop (E i) clk m ks (s, new_response) = (x, s', w)"
    and "keeps_log (se_api (E i)) applied" "prefix (cl_log (bz_cluster B)) G"
    and "raft_keeps (E i) applied meaning G s s'"
    and "bz_posts B p = Some h" "ph_todo h = ks" "ph_map h = m" "ph_node h = i" "cl_node (bz_cluster B) i = s"
  shows "\<exists>B' h'. busy_reach E Vs applied meaning B B' \<and> cl_node (bz_cluster B') i = s' \<and> bz_posts B' p = None \<and>
    (x = Ret () \<longrightarrow> bz_answers B' = bz_answers B @ [\<lparr>pa_handler = h', pa_resp = w,
       pa_at = length (entries applied s')\<rparr>] \<and> ph_req h' = ph_req h \<and> ph_from h' = ph_from h)"
  using assms(1,3-)
proof (induction ks arbitrary: s B h)
  case (Nil s B h)
  have t: "post_turn (E i) 0 h s = (Some (x, w), h, s')"
    using Nil by (simp add: post_turn_def)
  have B: "busy_step E Vs applied meaning B (settle p (Some (x, w)) h (length (entries applied s'))
      (B\<lparr>bz_cluster := (bz_cluster B)\<lparr>cl_log := G, cl_node := (cl_node (bz_cluster B))(i := s')\<rparr>\<rparr>))"
    (is "busy_step _ _ _ _ _ ?B")
    using busy_step.turn [of B p h E 0 _ _ _ G applied meaning Vs] t Nil by simp
  show ?case
    by (intro exI [of _ ?B] exI [of _ h] conjI busy_reach.step [OF busy_reach.init B])
      (simp_all add: settle_def split: outcome.splits)
next
  case (Cons k ks s B h)
  obtain r st where set1: "Set (E i) (clk k) k (the (m k)) (sv_Store s) = (r, st)" by fastforce
  let ?s = "s\<lparr>sv_Store := st\<rparr>"
  show ?case
  proof (cases "r = Ret None")
    case False
    then have t: "post_turn (E i) (clk k) h s = (Some (x, w), h, s')"
      using Cons.prems set1 by (auto simp: post_turn_def split: outcome.splits option.splits)
    have B: "busy_step E Vs applied meaning B (settle p (Some (x, w)) h (length (entries applied s'))
        (B\<lparr>bz_cluster := (bz_cluster B)\<lparr>cl_log := G, cl_node := (cl_node (bz_cluster B))(i := s')\<rparr>\<rparr>))"
      (is "busy_step _ _ _ _ _ ?B")
      using busy_step.turn [of B p h E "clk k" _ _ _ G applied meaning Vs] t Cons.prems by simp
    show ?thesis
      by (intro exI [of _ ?B] exI [of _ h] conjI busy_reach.step [OF busy_reach.init B])
        (simp_all add: settle_def split: outcome.splits)
  next
    case True
    let ?h = "h\<lparr>ph_done := ph_done h @ [k], ph_todo := ks\<rparr>"
    let ?B = "settle p None ?h (length (entries applied ?s))
        (B\<lparr>bz_cluster := (bz_cluster B)\<lparr>cl_log := G, cl_node := (cl_node (bz_cluster B))(i := ?s)\<rparr>\<rparr>)"
    have rest: "post_loop (E i) clk m ks (?s, new_response) = (x, s', w)"
      using Cons.prems(1) set1 True by simp
    have "logged (E i) applied (sv_Store ?s) (sv_Store s')"
      using post_loop_served [OF assms(2), of "(?s, new_response)" clk m ks] rest by (simp add: served_def)
    moreover have "logged (E i) applied (sv_Store s) (sv_Store ?s)"
      using Set_logged [OF assms(2) set1] by simp
    ultimately have keeps: "raft_keeps (E i) applied meaning G s ?s" "raft_keeps (E i) applied meaning G ?s s'"
      using raft_keeps_middle [OF _ _ Cons.prems(3)] by blast+
    have t: "post_turn (E i) (clk k) h s = (None, ?h, ?s)"
      using Cons.prems set1 True by (simp add: post_turn_def)
    have B: "busy_step E Vs applied meaning B ?B"
      using busy_step.turn [of B p h E "clk k" _ _ _ G applied meaning Vs] t Cons.prems keeps by simp
    have "prefix (cl_log (bz_cluster ?B)) G" "bz_posts ?B p = Some ?h" "cl_node (bz_cluster ?B) i = ?s"
        "bz_answers ?B = bz_answers B"
      by (simp_all add: settle_def)
    with Cons.IH [OF rest, of ?B ?h] keeps(2) Cons.prems obtain B' h' where
      B': "busy_reach E Vs applied meaning ?B B'" "cl_node (bz_cluster B') i = s'" "bz_posts B' p = None"
        "x = Ret () \<longrightarrow> bz_answers B' = bz_answers B @ [\<lparr>pa_handler = h', pa_resp = w,
           pa_at = length (entries applied s')\<rparr>] \<and> ph_req h' = ph_req h \<and> ph_from h' = ph_from h"
      by auto
    have "busy_reach E Vs applied meaning B B'" by (rule busy_reach_trans [OF B B'(1)])
    with B' show ?thesis by blast
  qed
qed


lemma answer_by_turns:
  assumes "V \<in> Vs i" "begin_post (E i) V rq (cl_node (bz_cluster B) i) = Some (m, ks)" "bz_posts B p = None"
    and "ServeHTTP (E i) V clk rq (cl_node (bz_cluster B) i, new_response) = (Ret (), s', w)"
    and "keeps_log (se_api (E i)) applied" "prefix (cl_log (bz_cluster B)) G"
    and "raft_keeps (E i) applied meaning G (cl_node (bz_cluster B) i) s'"
  shows "\<exists>B' h. busy_reach E Vs applied meaning B B' \<and> cl_node (bz_cluster B') i = s' \<and>
    bz_answers B' = bz_answers B @ [\<lparr>pa_handler = h, pa_resp = w, pa_at = length (entries applied s')\<rparr>] \<and>
    ph_req h = rq \<and> ph_from h = length (entries applied (cl_node (bz_cluster B) i))"
proof -
  let ?s = "cl_node (bz_cluster B) i"
  let ?h = "\<lparr>ph_node = i, ph_req = rq, ph_map = m, ph_done = [], ph_todo = ks, ph_from = length (entries applied ?s)\<rparr>"
  let ?B = "B\<lparr>bz_posts := (bz_posts B)(p \<mapsto> ?h)\<rparr>"
  have B: "busy_step E Vs applied meaning B ?B" by (rule busy_step.begins [where V = V and i = i and Vs = Vs and E = E, OF assms(1-3)])
  have "post_loop (E i) clk m ks (?s, new_response) = (Ret (), s', w)"
    using assms(2,4)
    by (auto simp: begin_post_def ServeHTTP_def Let_def handleKeyRequest_def tryForwardToLeader_def doKeyPost_def
        split: if_splits sum.splits)
  from post_loop_turns [where E = E and i = i and B = ?B and G = G and p = p and h = ?h and Vs = Vs and meaning = meaning, OF this assms(5)] assms(6,7) obtain B' h' where
    "busy_reach E Vs applied meaning ?B B'" "cl_node (bz_cluster B') i = s'"
    "bz_answers B' = bz_answers B @ [\<lparr>pa_handler = h', pa_resp = w, pa_at = length (entries applied s')\<rparr>]"
    "ph_req h' = rq" "ph_from h' = length (entries applied ?s)"
    by auto
  with busy_reach_trans [OF B] show ?thesis by blast
qed

section \<open>Properties\<close>

text \<open>
  C4. POSTs under way. Take any run of a cluster with any number of POSTs under way at once, each on a
  process that led when it came, in which the calls of \<open>Set\<close> of all of them, all other requests, elections and
  deliveries follow each other in any order. The cluster does nothing that it does not do in the
  runs of \<open>Cluster_History\<close>, so what those runs show holds here (reads follow the log, the map is the log). Each
  answered POST has left the commands for the keys it got to in the log, in the order in which it went
  over its map, and between its arrival and its answer; what other requests wrote may stand
  between them. An answer with status 200 means all its keys; any other answer has status 500 and
  means that it stopped before the end, with the earlier keys written. A POST is therefore not
  atomic, in either way: see the witness.
\<close>

theorem posts_in_flight:
  assumes "busy_reach E Vs applied meaning B0 B" "idle_cluster applied B0"
    and "\<And>i. keeps_log (se_api (E i)) applied \<and> hands_over (se_api (E i)) \<and> ranges_all (se_js (E i)) (Vs i)"
  shows "cluster_reach E Vs applied meaning (bz_cluster B0) (bz_cluster B) \<and>
    (\<forall>a \<in> set (bz_answers B). let h = pa_handler a; env = E (ph_node h) in
       posted (se_js env) (se_loc env) (cl_log (bz_cluster B)) (ph_from h) (pa_at a) (ph_map h) (ph_done h) \<and>
       pa_at a \<le> length (cl_log (bz_cluster B)) \<and> set (ph_done h @ ph_todo h) = dom (ph_map h) \<and>
       status_of (pa_resp a) = (if ph_todo h = [] then 200 else 500))"
proof -
  have "busy_inv E Vs applied B" using busy_reach_inv [OF assms(1,2)] assms(3) by blast
  then have a: "on_its_way E Vs (cl_log (bz_cluster B)) (pa_at a) (pa_handler a)"
      "status_of (pa_resp a) = (if ph_todo (pa_handler a) = [] then 200 else 500)" if "a \<in> set (bz_answers B)" for a
    using that by (simp_all add: busy_inv_def)
  have keys: "set (ph_done h @ ph_todo h) = dom (ph_map h)" if "on_its_way E Vs G n h" for G n h
    using that assms(3) [of "ph_node h"] unfolding on_its_way_def ranges_all_def by metis
  show ?thesis
    unfolding Let_def
    by (intro conjI ballI busy_reach_cluster [OF assms(1)] keys [OF a(1)] a(2)) (use a(1) in \<open>auto simp: on_its_way_def\<close>)
qed

text \<open>
  C5. No key of an acknowledged POST is lost, however the handlers overlap. When a POST was answered
  with status 200, the command for each of its keys is in the log, between its arrival and its
  answer. Every answer to a GET of the key, on any process that had applied as much, is at least as new:
  if the entry counted as a write and no later entry the reader had applied writes to the key, the
  client is told the posted value.
\<close>

theorem posted_keys_seen:
  assumes "busy_reach E Vs applied meaning B0 B" "idle_cluster applied B0"
    and "\<And>i. keeps_log (se_api (E i)) applied \<and> hands_over (se_api (E i)) \<and> ranges_all (se_js (E i)) (Vs i)"
    and "a \<in> set (bz_answers B)" "status_of (pa_resp a) = 200" "ph_map (pa_handler a) k = Some v"
  shows "\<exists>n t. ph_from (pa_handler a) \<le> n \<and> n < pa_at a \<and>
    log_Data (cl_log (bz_cluster B) ! n) = js_Command (se_js (E (ph_node (pa_handler a))))
      (set_cmd (se_loc (E (ph_node (pa_handler a)))) t k v) \<and>
    (\<forall>rd \<in> set (cl_hist (bz_cluster B)). reads_key k (an_req rd) \<longrightarrow> pa_at a \<le> an_at rd \<longrightarrow>
       meaning (cl_log (bz_cluster B) ! n) = KSet k v \<longrightarrow>
       (\<forall>p. n < p \<and> p < an_at rd \<longrightarrow> kv_key (meaning (cl_log (bz_cluster B) ! p)) \<noteq> Some k) \<longrightarrow>
       (\<exists>V \<in> Vs (an_node rd). an_resp rd = kv_answer V k (Some v)))"
proof -
  let ?h = "pa_handler a" and ?G = "cl_log (bz_cluster B)"
  have inv: "busy_inv E Vs applied B" using busy_reach_inv [OF assms(1,2)] assms(3) by blast
  have h: "on_its_way E Vs ?G (pa_at a) ?h" "ph_todo ?h = []"
    using inv assms(4,5) by (auto simp: busy_inv_def split: if_splits)
  then have "set (ph_done ?h) = dom (ph_map ?h)"
    using assms(3) [of "ph_node ?h"] by (auto simp: on_its_way_def ranges_all_def)
  with posted_at [of _ _ ?G _ "pa_at a" "ph_map ?h" "ph_done ?h" k] h(1) assms(6) obtain n t where
    n: "ph_from ?h \<le> n" "n < pa_at a"
      "log_Data (?G ! n) = js_Command (se_js (E (ph_node ?h))) (set_cmd (se_loc (E (ph_node ?h))) t k v)"
    unfolding on_its_way_def by (metis domI option.sel)
  have fresh: "fresh_cluster applied (bz_cluster B0)" using assms(2) by (simp add: idle_cluster_def)
  note cl = cluster_reach_inv [OF busy_reach_cluster [OF assms(1)] fresh]
  have "\<exists>V \<in> Vs (an_node rd). an_resp rd = kv_answer V k (Some v)"
    if rd: "rd \<in> set (cl_hist (bz_cluster B))" "reads_key k (an_req rd)" "pa_at a \<le> an_at rd"
      "meaning (?G ! n) = KSet k v" "\<forall>p. n < p \<and> p < an_at rd \<longrightarrow> kv_key (meaning (?G ! p)) \<noteq> Some k" for rd
  proof -
    have "justified E Vs applied meaning (bz_cluster B0) (bz_cluster B) rd" using cl rd(1) by (simp add: cluster_inv_def)
    moreover have "keeps_log (se_api (E (an_node rd))) applied" using assms(3) by blast
    ultimately have "an_at rd \<le> length ?G"
        "\<exists>V \<in> Vs (an_node rd). an_resp rd = kv_answer V k (value_at meaning ?G (an_at rd) k)"
      using justified_read [OF _ _ fresh rd(2)] by blast+
    with value_at_last [of n "an_at rd" ?G meaning k] rd(3-5) n(2) show ?thesis by simp
  qed
  with n show ?thesis by blast
qed


section \<open>Two POSTs that overlap\<close>

definition demo_entry_of :: "nat \<Rightarrow> string \<times> string \<Rightarrow> raft_log \<times> int" where
  "demo_entry_of n kv = (\<lparr>log_Index = Suc n, log_Data = enc_Command (set_cmd utc demo_t (fst kv) (snd kv))\<rparr>, demo_t)"

definition demo_sets :: "(string \<times> string) list \<Rightarrow> (raft_log \<times> int) list" where
  "demo_sets kvs = map (\<lambda>(n, kv). demo_entry_of n kv) (List.enumerate 0 kvs)"

definition demo_meaning :: "raft_log \<Rightarrow> kv_op" where
  "demo_meaning l = the (entry_op (demo_senv utc) (st_Arg demo_store) (l, demo_t))"

lemma demo_sets_snoc: "demo_sets (kvs @ [kv]) = demo_sets kvs @ [demo_entry_of (length kvs) kv]"
  by (simp add: demo_sets_def enumerate_append_eq)

lemma length_demo_sets [simp]: "length (demo_sets kvs) = length kvs"
  by (simp add: demo_sets_def)

lemma demo_entry_of_op:
  "entry_op (demo_senv utc) (st_Arg demo_store) (demo_entry_of n kv) =
     Some (cmd_op demo_t (set_cmd utc demo_t (fst kv) (snd kv)))"
  by (simp add: entry_op_def demo_entry_of_def)

lemma demo_meaning_entry:
  "fst kv \<noteq> ''/raft/cluster'' \<Longrightarrow> demo_meaning (fst (demo_entry_of n kv)) = KSet (fst kv) (snd kv)"
  using demo_entry_of_op [of n kv] cmd_op_set [OF demo_fresh, of "fst kv" "snd kv"]
  by (simp add: demo_meaning_def) (simp add: demo_entry_of_def)

lemma demo_sets_op:
  assumes "e \<in> set (demo_sets kvs)"
  shows "entry_op (demo_senv utc) (st_Arg demo_store) e = Some (demo_meaning (fst e))"
proof -
  obtain n kv where e: "e = demo_entry_of n kv" using assms by (auto simp: demo_sets_def)
  then have "(fst e, demo_t) = e" by (simp add: demo_entry_of_def)
  then show ?thesis using demo_entry_of_op [of n kv] e by (simp add: demo_meaning_def)
qed

text \<open>The only process leads and has the writes \<open>kvs\<close> in its log.\<close>

definition demo_leads :: "(demo_raft, string, string) Service \<Rightarrow> (string \<times> string) list \<Rightarrow> bool" where
  "demo_leads s kvs \<longleftrightarrow> st_Arg (sv_Store s) = st_Arg demo_store \<and>
     st_raft (sv_Store s) = demo_raft0\<lparr>dr_index := length kvs, dr_log := demo_sets kvs\<rparr>"

lemma demo_leads_IsLeader: "demo_leads s kvs \<Longrightarrow> IsLeader (demo_senv utc) (sv_Store s)"
  by (simp add: demo_leads_def IsLeader_def demo_defs)

lemma demo_leads_Set:
  assumes "demo_leads s kvs"
  shows "\<exists>st. Set (demo_senv utc) demo_t k v (sv_Store s) = (Ret None, st) \<and>
    demo_leads (s\<lparr>sv_Store := st\<rparr>) (kvs @ [(k, v)])"
proof -
  let ?e = "demo_entry_of (length kvs) (k, v)"
  have ra: "ra_Apply (se_api (demo_senv utc)) (js_Command (se_js (demo_senv utc)) (set_cmd (se_loc (demo_senv utc)) demo_t k v))
      (st_raft (sv_Store s)) =
      (None, [] @ [?e], demo_raft0\<lparr>dr_index := length (kvs @ [(k, v)]), dr_log := demo_sets (kvs @ [(k, v)])\<rparr>)"
    using assms by (simp add: demo_leads_def demo_api_def demo_sets_snoc demo_entry_of_def demo_raft0_def)
  have "map (entry_op (demo_senv utc) (st_Arg (sv_Store s))) ([] @ [?e]) =
      map Some [cmd_op demo_t (set_cmd utc demo_t k v)]"
    using assms demo_entry_of_op [of "length kvs" "(k, v)"] by (simp add: demo_leads_def)
  from raft_Apply_refines [OF ra this] demo_leads_IsLeader [OF assms] assms show ?thesis
    by (auto simp: Set_leader demo_leads_def)
qed

lemma demo_leads_keeps:
  assumes "demo_leads s kvs" "demo_leads s' (kvs @ kvs')"
  shows "raft_keeps (demo_senv utc) dr_log demo_meaning (map fst (demo_sets (kvs @ kvs'))) s s'"
proof -
  have "prefix (map fst (demo_sets kvs)) (map fst (demo_sets (kvs @ kvs')))"
    by (simp add: demo_sets_def enumerate_append_eq)
  with assms demo_sets_op [of _ "kvs @ kvs'"] show ?thesis by (simp add: raft_keeps_def entries_def demo_leads_def)
qed

definition demo_busy :: "(demo_raft, string, string) busy" where
  "demo_busy = \<lparr>bz_cluster = demo_cluster, bz_posts = Map.empty, bz_answers = []\<rparr>"

lemma demo_idle: "idle_cluster dr_log demo_busy"
  by (simp add: idle_cluster_def demo_busy_def demo_fresh_cluster)

abbreviation demo_busy_reach where
  "demo_busy_reach \<equiv> busy_reach (\<lambda>_. demo_senv utc) (\<lambda>_. {demo_venv}) dr_log demo_meaning"

text \<open>A state of the demo: the process 0 leads with \<open>kvs\<close>, which is all there is in the log.\<close>

definition demo_at :: "(demo_raft, string, string) busy \<Rightarrow> (string \<times> string) list \<Rightarrow> bool" where
  "demo_at B kvs \<longleftrightarrow> demo_busy_reach demo_busy B \<and> cl_log (bz_cluster B) = map fst (demo_sets kvs) \<and>
     demo_leads (cl_node (bz_cluster B) 0) kvs"

lemma demo_at_begins:
  assumes "demo_at B kvs" "bz_posts B p = None" "begin_post (demo_senv utc) demo_venv rq (cl_node (bz_cluster B) 0) = Some (m, ks)"
  shows "\<exists>B'. demo_at B' kvs \<and> bz_answers B' = bz_answers B \<and> bz_posts B' = (bz_posts B)(p \<mapsto> \<lparr>ph_node = 0, ph_req = rq,
    ph_map = m, ph_done = [], ph_todo = ks, ph_from = length kvs\<rparr>)"
proof -
  have "length (entries dr_log (cl_node (bz_cluster B) 0)) = length kvs"
    using assms(1) by (simp add: demo_at_def demo_leads_def entries_def)
  with busy_step.begins [of demo_venv "\<lambda>_. {demo_venv}" 0 "\<lambda>_. demo_senv utc" rq B m ks p dr_log demo_meaning] assms(2,3)
  have B: "busy_step (\<lambda>_. demo_senv utc) (\<lambda>_. {demo_venv}) dr_log demo_meaning B
      (B\<lparr>bz_posts := (bz_posts B)(p \<mapsto> \<lparr>ph_node = 0, ph_req = rq, ph_map = m, ph_done = [], ph_todo = ks,
        ph_from = length kvs\<rparr>)\<rparr>)" (is "busy_step _ _ _ _ _ ?B")
    by simp
  show ?thesis
    using assms(1) busy_reach.step [OF _ B, of demo_busy] by (intro exI [of _ ?B]) (simp add: demo_at_def)
qed

lemma demo_at_sets:
  assumes "demo_at B kvs" "bz_posts B p = Some h" "ph_node h = 0" "ph_todo h = k # ks"
  shows "\<exists>B'. demo_at B' (kvs @ [(k, the (ph_map h k))]) \<and> bz_answers B' = bz_answers B \<and>
    bz_posts B' = (bz_posts B)(p \<mapsto> h\<lparr>ph_done := ph_done h @ [k], ph_todo := ks\<rparr>)"
proof -
  let ?kvs = "kvs @ [(k, the (ph_map h k))]" and ?s = "cl_node (bz_cluster B) 0"
  let ?h = "h\<lparr>ph_done := ph_done h @ [k], ph_todo := ks\<rparr>"
  have lead: "demo_leads ?s kvs" and log: "cl_log (bz_cluster B) = map fst (demo_sets kvs)"
    using assms(1) by (simp_all add: demo_at_def)
  obtain st where st: "Set (demo_senv utc) demo_t k (the (ph_map h k)) (sv_Store ?s) = (Ret None, st)"
      "demo_leads (?s\<lparr>sv_Store := st\<rparr>) ?kvs"
    using demo_leads_Set [OF lead] by blast
  have turn: "post_turn (demo_senv utc) demo_t h ?s = (None, ?h, ?s\<lparr>sv_Store := st\<rparr>)"
    using st(1) assms(4) by (simp add: post_turn_def)
  let ?B = "settle p None ?h (length (entries dr_log (?s\<lparr>sv_Store := st\<rparr>)))
    (B\<lparr>bz_cluster := (bz_cluster B)\<lparr>cl_log := map fst (demo_sets ?kvs), cl_node := (cl_node (bz_cluster B))(0 := ?s\<lparr>sv_Store := st\<rparr>)\<rparr>\<rparr>)"
  have "busy_step (\<lambda>_. demo_senv utc) (\<lambda>_. {demo_venv}) dr_log demo_meaning B ?B"
    using busy_step.turn [of B p h "\<lambda>_. demo_senv utc" demo_t _ _ _ "map fst (demo_sets ?kvs)" dr_log demo_meaning "\<lambda>_. {demo_venv}"]
      assms(2,3) turn demo_leads_keeps [OF lead st(2)] log by (simp add: demo_sets_snoc)
  with assms(1) busy_reach.step have "demo_busy_reach demo_busy ?B" by (fastforce simp: demo_at_def)
  with st(2) show ?thesis by (intro exI [of _ ?B]) (simp add: demo_at_def settle_def)
qed

lemma demo_at_returns:
  assumes "demo_at B kvs" "bz_posts B p = Some h" "ph_node h = 0" "ph_todo h = []"
  shows "\<exists>B'. demo_at B' kvs \<and> bz_posts B' = (bz_posts B)(p := None) \<and>
    bz_answers B' = bz_answers B @ [\<lparr>pa_handler = h, pa_resp = new_response, pa_at = length kvs\<rparr>]"
proof -
  let ?s = "cl_node (bz_cluster B) 0"
  have lead: "demo_leads ?s kvs" and log: "cl_log (bz_cluster B) = map fst (demo_sets kvs)"
    using assms(1) by (simp_all add: demo_at_def)
  have turn: "post_turn (demo_senv utc) demo_t h ?s = (Some (Ret (), new_response), h, ?s)"
    using assms(4) by (simp add: post_turn_def)
  have at: "length (entries dr_log ?s) = length kvs" using lead by (simp add: demo_leads_def entries_def)
  let ?B = "settle p (Some (Ret (), new_response)) h (length kvs)
    (B\<lparr>bz_cluster := (bz_cluster B)\<lparr>cl_log := map fst (demo_sets kvs), cl_node := (cl_node (bz_cluster B))(0 := ?s)\<rparr>\<rparr>)"
  have "busy_step (\<lambda>_. demo_senv utc) (\<lambda>_. {demo_venv}) dr_log demo_meaning B ?B"
    using busy_step.turn [of B p h "\<lambda>_. demo_senv utc" demo_t _ _ _ "map fst (demo_sets kvs)" dr_log demo_meaning "\<lambda>_. {demo_venv}"]
      assms(2,3) turn demo_leads_keeps [of ?s kvs ?s "[]"] lead log at by simp
  with assms(1) busy_reach.step have "demo_busy_reach demo_busy ?B" by (fastforce simp: demo_at_def)
  with lead show ?thesis by (intro exI [of _ ?B]) (simp add: demo_at_def settle_def)
qed


definition demo_post2 :: "string \<Rightarrow> http_request" where
  "demo_post2 v = demo_request ''POST'' KeyPath (enc_list [''a'', v, ''b'', v])"

lemma demo_begin2:
  assumes "demo_at B kvs" "v = ''1'' \<or> v = ''2''"
  shows "begin_post (demo_senv utc) demo_venv (demo_post2 v) (cl_node (bz_cluster B) 0) =
    Some ([''a'' \<mapsto> v, ''b'' \<mapsto> v], [''a'', ''b''])"
proof -
  have "js_unmap (se_js (demo_senv utc)) (enc_list [''a'', v, ''b'', v]) = Inr [''a'' \<mapsto> v, ''b'' \<mapsto> v]"
    using assms(2) by (auto simp: demo_json_def dec_map_def fun_upd_twist)
  moreover have "IsLeader (demo_senv utc) (sv_Store (cl_node (bz_cluster B) 0))"
    using assms(1) demo_leads_IsLeader by (auto simp: demo_at_def)
  moreover have "str_HasPrefix (rq_Path (demo_post2 v)) KeyPath"
    by (simp add: demo_post2_def demo_request_def str_HasPrefix_def)
  ultimately show ?thesis
    by (simp add: begin_post_def demo_post2_def demo_request_def read_body_def demo_venv_def)
qed

text \<open>
  The first POST sets \<open>a\<close>, then the second one both keys, then the first one \<open>b\<close>: at the end each key has the
  value of another request.
\<close>

definition demo_overlap :: "(string \<times> string) list" where
  "demo_overlap = [(''a'', ''1''), (''a'', ''2''), (''b'', ''2''), (''b'', ''1'')]"

definition demo_handler2 :: "string \<Rightarrow> post_handler" where
  "demo_handler2 v = \<lparr>ph_node = 0, ph_req = demo_post2 v, ph_map = [''a'' \<mapsto> v, ''b'' \<mapsto> v],
     ph_done = [''a'', ''b''], ph_todo = [], ph_from = 0\<rparr>"

lemma demo_overlap_run:
  "\<exists>B. demo_at B demo_overlap \<and> bz_answers B =
     [\<lparr>pa_handler = demo_handler2 ''2'', pa_resp = new_response, pa_at = 4\<rparr>,
      \<lparr>pa_handler = demo_handler2 ''1'', pa_resp = new_response, pa_at = 4\<rparr>]"
proof -
  let ?h = "\<lambda>v d t. \<lparr>ph_node = 0, ph_req = demo_post2 v, ph_map = [''a'' \<mapsto> v, ''b'' \<mapsto> v],
     ph_done = d, ph_todo = t, ph_from = 0\<rparr>"
  have 0: "demo_at demo_busy []"
    by (auto simp: demo_at_def demo_busy_def demo_cluster_def demo_sets_def demo_leads_def demo_service_def
        demo_raft0_def intro: busy_reach.init)
  have none: "bz_posts demo_busy = Map.empty" "bz_answers demo_busy = []" by (simp_all add: demo_busy_def)
  obtain B1 where 1: "demo_at B1 []" "bz_answers B1 = []" "bz_posts B1 = [0 \<mapsto> ?h ''1'' [] [''a'', ''b'']]"
    using demo_at_begins [OF 0 _ demo_begin2 [OF 0], of 0 "''1''"] none by auto
  obtain B2 where 2: "demo_at B2 []" "bz_answers B2 = []"
      "bz_posts B2 = [0 \<mapsto> ?h ''1'' [] [''a'', ''b''], 1 \<mapsto> ?h ''2'' [] [''a'', ''b'']]"
    using demo_at_begins [OF 1(1) _ demo_begin2 [OF 1(1)], of 1 "''2''"] 1 by auto
  obtain B3 where 3: "demo_at B3 [(''a'', ''1'')]" "bz_answers B3 = []"
      "bz_posts B3 = [1 \<mapsto> ?h ''2'' [] [''a'', ''b''], 0 \<mapsto> ?h ''1'' [''a''] [''b'']]"
    using demo_at_sets [OF 2(1), of 0 "?h ''1'' [] [''a'', ''b'']"] 2 by (auto simp: fun_upd_twist)
  obtain B4 where 4: "demo_at B4 [(''a'', ''1''), (''a'', ''2'')]" "bz_answers B4 = []"
      "bz_posts B4 = [0 \<mapsto> ?h ''1'' [''a''] [''b''], 1 \<mapsto> ?h ''2'' [''a''] [''b'']]"
    using demo_at_sets [OF 3(1), of 1 "?h ''2'' [] [''a'', ''b'']"] 3 by (auto simp: fun_upd_twist)
  obtain B5 where 5: "demo_at B5 [(''a'', ''1''), (''a'', ''2''), (''b'', ''2'')]" "bz_answers B5 = []"
      "bz_posts B5 = [0 \<mapsto> ?h ''1'' [''a''] [''b''], 1 \<mapsto> demo_handler2 ''2'']"
    using demo_at_sets [OF 4(1), of 1 "?h ''2'' [''a''] [''b'']"] 4 by (auto simp: demo_handler2_def fun_upd_twist)
  obtain B6 where 6: "demo_at B6 demo_overlap" "bz_answers B6 = []"
      "bz_posts B6 = [1 \<mapsto> demo_handler2 ''2'', 0 \<mapsto> demo_handler2 ''1'']"
    using demo_at_sets [OF 5(1), of 0 "?h ''1'' [''a''] [''b'']"] 5 by (auto simp: demo_handler2_def demo_overlap_def fun_upd_twist)
  have len: "length demo_overlap = 4" by (simp add: demo_overlap_def)
  obtain B7 where 7: "demo_at B7 demo_overlap" "bz_posts B7 = [0 \<mapsto> demo_handler2 ''1'']"
      "bz_answers B7 = [\<lparr>pa_handler = demo_handler2 ''2'', pa_resp = new_response, pa_at = 4\<rparr>]"
    using demo_at_returns [OF 6(1), of 1 "demo_handler2 ''2''"] 6 len by (auto simp: demo_handler2_def fun_upd_twist)
  then show ?thesis
    using demo_at_returns [OF 7(1), of 0 "demo_handler2 ''1''"] len by (auto simp: demo_handler2_def)
qed


lemma demo_at_reads:
  assumes "demo_at B kvs"
  shows "\<exists>B' w. demo_at B' kvs \<and> bz_answers B' = bz_answers B \<and>
    \<lparr>an_node = 0, an_req = get_request ''a'', an_resp = w, an_lead = True, an_from = length kvs, an_at = length kvs\<rparr>
      \<in> set (cl_hist (bz_cluster B'))"
proof -
  let ?s = "cl_node (bz_cluster B) 0" and ?C = "bz_cluster B"
  have lead: "demo_leads ?s kvs" and log: "cl_log ?C = map fst (demo_sets kvs)"
    using assms by (simp_all add: demo_at_def)
  have at: "length (entries dr_log ?s) = length kvs" using lead by (simp add: demo_leads_def entries_def)
  let ?w = "kv_answer demo_venv ''a'' (Get ''a'' (sv_Store ?s))"
  have get: "ServeHTTP (demo_senv utc) demo_venv (\<lambda>_. demo_t) (get_request ''a'') (?s, new_response) = (Ret (), ?s, ?w)"
    by (rule GET_answer) (simp add: reads_key_def get_request_def)
  let ?C' = "?C\<lparr>cl_log := map fst (demo_sets kvs), cl_node := (cl_node ?C)(0 := ?s),
    cl_hist := cl_hist ?C @ [\<lparr>an_node = 0, an_req = get_request ''a'', an_resp = ?w, an_lead = True,
      an_from = length kvs, an_at = length kvs\<rparr>]\<rparr>"
  have "cluster_step (\<lambda>_. demo_senv utc) (\<lambda>_. {demo_venv}) dr_log demo_meaning ?C ?C'"
    using cluster_step.answer [of demo_venv "\<lambda>_. {demo_venv}" 0 "\<lambda>_. demo_senv utc" "\<lambda>_. demo_t" "get_request ''a''"
      ?C ?s ?w "map fst (demo_sets kvs)" dr_log demo_meaning] get log at demo_leads_IsLeader [OF lead]
      demo_leads_keeps [of ?s kvs ?s "[]"] lead by simp
  from busy_step.others [of "\<lambda>_. demo_senv utc" "\<lambda>_. {demo_venv}" dr_log demo_meaning B, OF this]
  have "demo_busy_reach demo_busy (B\<lparr>bz_cluster := ?C'\<rparr>)"
    using assms busy_reach.step by (fastforce simp: demo_at_def)
  with lead show ?thesis by (intro exI [of _ "B\<lparr>bz_cluster := ?C'\<rparr>"] exI [of _ ?w]) (simp add: demo_at_def)
qed

lemma demo_libs:
  "keeps_log (se_api (demo_senv utc)) dr_log \<and> hands_over (se_api (demo_senv utc)) \<and>
   ranges_all (se_js (demo_senv utc)) {demo_venv}"
  using demo_keeps_log demo_hands_over demo_ranges_all by blast

lemma demo_overlap_meaning:
  "map demo_meaning (map fst (demo_sets demo_overlap)) =
     [KSet ''a'' ''1'', KSet ''a'' ''2'', KSet ''b'' ''2'', KSet ''b'' ''1'']"
  by (simp add: demo_sets_def demo_overlap_def demo_meaning_entry)

theorem posts_in_flight_witness:
  "\<exists>B. demo_busy_reach demo_busy B \<and> map (ph_map \<circ> pa_handler) (bz_answers B) =
     [[''a'' \<mapsto> ''2'', ''b'' \<mapsto> ''2''], [''a'' \<mapsto> ''1'', ''b'' \<mapsto> ''1'']] \<and>
     (\<forall>a \<in> set (bz_answers B). status_of (pa_resp a) = 200) \<and>
     Get ''a'' (sv_Store (cl_node (bz_cluster B) 0)) = Some ''2'' \<and>
     Get ''b'' (sv_Store (cl_node (bz_cluster B) 0)) = Some ''1''"
proof -
  obtain B where B: "demo_at B demo_overlap" "bz_answers B =
     [\<lparr>pa_handler = demo_handler2 ''2'', pa_resp = new_response, pa_at = 4\<rparr>,
      \<lparr>pa_handler = demo_handler2 ''1'', pa_resp = new_response, pa_at = 4\<rparr>]"
    using demo_overlap_run by blast
  have r: "demo_busy_reach demo_busy B" using B(1) by (simp add: demo_at_def)
  note all = posts_in_flight [OF r demo_idle demo_libs]
  let ?s = "cl_node (bz_cluster B) 0"
  have lead: "demo_leads ?s demo_overlap" using B(1) by (simp add: demo_at_def)
  have len: "length (entries dr_log ?s) = 4" using lead by (simp add: demo_leads_def entries_def demo_overlap_def)
  have "cluster_reach (\<lambda>_. demo_senv utc) (\<lambda>_. {demo_venv}) dr_log demo_meaning demo_cluster (bz_cluster B)"
    using all by (simp add: demo_busy_def)
  from cluster_reach_inv [OF this demo_fresh_cluster]
  have "node_reach (demo_senv utc) {demo_venv} dr_log (cl_node demo_cluster 0) ?s" by (simp add: cluster_inv_def)
  moreover have "raft_keeps (demo_senv utc) dr_log demo_meaning (map fst (demo_sets demo_overlap)) ?s ?s"
    using demo_leads_keeps [of ?s demo_overlap ?s "[]"] lead by simp
  moreover have "fresh_node dr_log (cl_node demo_cluster 0)" using demo_fresh_cluster by (simp add: fresh_cluster_def)
  ultimately have "Get k (sv_Store ?s) = value_at demo_meaning (map fst (demo_sets demo_overlap)) 4 k" for k
    using node_value_at [OF _ demo_keeps_log] len by metis
  moreover have "value_at demo_meaning (map fst (demo_sets demo_overlap)) 4 k =
      kv_lookup [KSet ''a'' ''1'', KSet ''a'' ''2'', KSet ''b'' ''2'', KSet ''b'' ''1''] Map.empty k" for k
    unfolding value_at_def demo_overlap_meaning [symmetric] by (simp add: demo_overlap_def)
  moreover have "status_of (pa_resp a) = 200" if "a \<in> set (bz_answers B)" for a
  proof -
    have "status_of (pa_resp a) = (if ph_todo (pa_handler a) = [] then 200 else 500)"
      using all that unfolding Let_def by blast
    moreover have "ph_todo (pa_handler a) = []" using that B(2) by (auto simp: demo_handler2_def)
    ultimately show ?thesis by simp
  qed
  ultimately show ?thesis
    using r B(2) by (intro exI [of _ B]) (simp add: demo_handler2_def kv_lookup_def)
qed

theorem posted_keys_seen_witness:
  "\<exists>B a rd. demo_busy_reach demo_busy B \<and> a \<in> set (bz_answers B) \<and> ph_map (pa_handler a) ''a'' = Some ''2'' \<and>
     rd \<in> set (cl_hist (bz_cluster B)) \<and> an_resp rd = kv_answer demo_venv ''a'' (Some ''2'')"
proof -
  let ?a = "\<lparr>pa_handler = demo_handler2 ''2'', pa_resp = new_response, pa_at = 4\<rparr>"
  have 4: "length demo_overlap = 4" by (simp add: demo_overlap_def)
  obtain B rd where B: "demo_at B demo_overlap" "?a \<in> set (bz_answers B)" "rd \<in> set (cl_hist (bz_cluster B))"
      "an_req rd = get_request ''a''" "an_at rd = 4"
    using demo_overlap_run demo_at_reads unfolding 4 [symmetric] by fastforce
  let ?G = "cl_log (bz_cluster B)"
  have r: "demo_busy_reach demo_busy B" and G: "?G = map fst (demo_sets demo_overlap)"
    using B(1) by (simp_all add: demo_at_def)
  have "status_of (pa_resp ?a) = 200" "ph_map (pa_handler ?a) ''a'' = Some ''2''"
    by (simp_all add: demo_handler2_def new_response_def status_of_def)
  from posted_keys_seen [OF r demo_idle demo_libs B(2) this] obtain n t where
    n: "n < 4" "log_Data (?G ! n) = enc_Command (set_cmd utc t ''a'' ''2'')"
    and seen: "\<forall>rd \<in> set (cl_hist (bz_cluster B)). reads_key ''a'' (an_req rd) \<longrightarrow> 4 \<le> an_at rd \<longrightarrow>
       demo_meaning (?G ! n) = KSet ''a'' ''2'' \<longrightarrow>
       (\<forall>p. n < p \<and> p < an_at rd \<longrightarrow> kv_key (demo_meaning (?G ! p)) \<noteq> Some ''a'') \<longrightarrow>
       (\<exists>V \<in> {demo_venv}. an_resp rd = kv_answer V ''a'' (Some ''2''))"
    by auto
  have ops: "demo_meaning (?G ! p) = [KSet ''a'' ''1'', KSet ''a'' ''2'', KSet ''b'' ''2'', KSet ''b'' ''1''] ! p" if "p < 4" for p
    using that arg_cong [OF demo_overlap_meaning, of "\<lambda>xs. xs ! p"] 4 by (simp add: G)
  have "set_cmd utc demo_t (fst (demo_overlap ! n)) (snd (demo_overlap ! n)) = set_cmd utc t ''a'' ''2''"
  proof -
    have "enc_Command (set_cmd utc demo_t (fst (demo_overlap ! n)) (snd (demo_overlap ! n))) =
        enc_Command (set_cmd utc t ''a'' ''2'')"
      using n 4 by (simp add: G demo_sets_def nth_enumerate_eq demo_entry_of_def)
    from arg_cong [OF this, of dec_Command] show ?thesis by simp
  qed
  then have "demo_overlap ! n = (''a'', ''2'')" by (auto simp: set_cmd_def prod_eq_iff)
  then have n1: "n = 1"
    using n(1) by (auto simp: demo_overlap_def less_Suc_eq numeral_eq_Suc)
  have "kv_key (demo_meaning (?G ! p)) \<noteq> Some ''a''" if "n < p" "p < 4" for p
    using that n1 ops [OF that(2)] by (auto simp: less_Suc_eq numeral_eq_Suc)
  moreover have "demo_meaning (?G ! n) = KSet ''a'' ''2''" using ops [of 1] by (simp add: n1)
  moreover have "reads_key ''a'' (an_req rd)" by (simp add: B(4) reads_key_def get_request_def)
  ultimately have "an_resp rd = kv_answer demo_venv ''a'' (Some ''2'')" using seen B(3,5) by auto
  with r B(2,3) show ?thesis
    by (intro exI [of _ B] exI [of _ ?a] exI [of _ rd]) (simp add: demo_handler2_def)
qed

end
