(* ===== verification/Store_Mutex.thy ===== *)
theory Store_Mutex
  imports Store_KV Fair_Runs
begin

text \<open>
  The store at the grain of its mutex. The handlers of HTTP requests call \<open>Get\<close>, each on a goroutine
  of its own; Raft calls \<open>Apply\<close>, \<open>Snapshot\<close> and \<open>Restore\<close> one after the other on a goroutine of its
  own, and writes snapshots to disk (\<open>Persist\<close>) on others. They share Go maps, which are references:
  the field \<open>s.m\<close> holds the address of the current map, a snapshot the address of its clone.
  \<open>lockApplyOp\<close> takes the mutex around each access of \<open>Get\<close>, \<open>Apply\<close> and \<open>Snapshot\<close>, but \<open>Restore\<close> replaces
  \<open>s.m\<close> without it.

  The theory shows that every interleaving looks like a sequence of whole calls, the way the other
  theories treat them, and finds the one access that is not protected.
\<close>

section \<open>The goroutines\<close>

datatype who = Fsm | Reader nat | Persister nat

text \<open>
  A call of \<open>Get\<close>: waiting for the mutex; inside; with the address of the map read from \<open>s.m\<close>; with the
  result, about to unlock; returned. The numbers (ghosts) count the calls of Raft that had taken
  effect when the call began and when it returned.
\<close>

datatype reader =
    RWants string nat
  | RInside string nat
  | RMap string nat nat
  | RHas string nat "string option"
  | RDone string nat nat "string option"

text \<open>
  Raft's goroutine: in \<open>Apply\<close> before the mutex, inside and after the write; in \<open>Snapshot\<close> before the
  mutex, inside, while \<open>CloneMap\<close> copies to the map at an address with some keys to go; in \<open>Restore\<close>
  with the decoded map at an address.
\<close>

datatype fsm =
    FIdle
  | FWants raft_log int kv_op
  | FInside raft_log int kv_op
  | FWritten
  | SWants
  | SInside
  | SCloning nat "string list"
  | RDecoded nat string

text \<open>The calls of Raft that change the map, as the ghost \<open>mx_done\<close> lists them when they take effect.\<close>

datatype fsm_call = CApply raft_log int | CRestore string

record mx =
  mx_heap :: "nat \<Rightarrow> (string \<rightharpoonup> string)"
  mx_next :: nat
  mx_m :: nat
  mx_lock :: "who option"
  mx_rd :: "reader list"
  mx_fsm :: fsm
  mx_snaps :: "(nat \<times> nat) list"
  mx_done :: "fsm_call list"

text \<open>\<open>lockApplyOp\<close>: lock, the function, and the deferred unlock.\<close>

definition Lock :: "who \<Rightarrow> mx \<Rightarrow> mx option" where
  "Lock t c = (if mx_lock c = None then Some (c\<lparr>mx_lock := Some t\<rparr>) else None)"

definition Unlock :: "who \<Rightarrow> mx \<Rightarrow> mx option" where
  "Unlock t c = (if mx_lock c = Some t then Some (c\<lparr>mx_lock := None\<rparr>) else None)"

definition set_rd :: "nat \<Rightarrow> reader \<Rightarrow> mx \<Rightarrow> mx" where
  "set_rd i r c = c\<lparr>mx_rd := (mx_rd c)[i := r]\<rparr>"

definition rd_at :: "nat \<Rightarrow> mx \<Rightarrow> reader option" where
  "rd_at i c = (if i < length (mx_rd c) then Some (mx_rd c ! i) else None)"

text \<open>One step of the call of \<open>Get\<close> on the goroutine \<open>i\<close>.\<close>

definition get_step :: "nat \<Rightarrow> mx \<Rightarrow> mx option" where
  "get_step i c =
     (case rd_at i c of
        Some (RWants k n) \<Rightarrow> map_option (set_rd i (RInside k n)) (Lock (Reader i) c)
      | Some (RInside k n) \<Rightarrow> Some (set_rd i (RMap k n (mx_m c)) c)
      | Some (RMap k n a) \<Rightarrow> Some (set_rd i (RHas k n (mx_heap c a k)) c)
      | Some (RHas k n r) \<Rightarrow> map_option (set_rd i (RDone k n (length (mx_done c)) r)) (Unlock (Reader i) c)
      | _ \<Rightarrow> None)"

text \<open>Raft calls its state machine. \<open>Apply\<close> takes the mutex only for a command that writes to the map.\<close>

definition call_apply ::
    "('r, 'v) store_env \<Rightarrow> ('v, 'w) Arg \<Rightarrow> raft_log \<Rightarrow> int \<Rightarrow> mx \<Rightarrow> mx option" where
  "call_apply E a l now c =
     (if mx_fsm c \<noteq> FIdle then None
      else case entry_op E a (l, now) of
        None \<Rightarrow> None
      | Some KNop \<Rightarrow> Some (c\<lparr>mx_done := mx_done c @ [CApply l now]\<rparr>)
      | Some op \<Rightarrow> Some (c\<lparr>mx_fsm := FWants l now op\<rparr>))"

definition call_restore :: "json_lib \<Rightarrow> string \<Rightarrow> mx \<Rightarrow> mx option" where
  "call_restore js rc c =
     (if mx_fsm c \<noteq> FIdle then None
      else case js_unmap js rc of
        Inl err \<Rightarrow> Some (c\<lparr>mx_done := mx_done c @ [CRestore rc]\<rparr>)
      | Inr o' \<Rightarrow> Some (c\<lparr>mx_heap := (mx_heap c)(mx_next c := o'), mx_next := Suc (mx_next c),
          mx_fsm := RDecoded (mx_next c) rc\<rparr>))"

text \<open>The locked part of \<open>Apply\<close>: the write to the map.\<close>

definition apply_step :: "mx \<Rightarrow> mx option" where
  "apply_step c =
     (case mx_fsm c of
        FWants l now op \<Rightarrow> map_option (mx_fsm_update (\<lambda>_. FInside l now op)) (Lock Fsm c)
      | FInside l now op \<Rightarrow> Some (c\<lparr>mx_heap := (mx_heap c)(mx_m c := kv_apply op (mx_heap c (mx_m c))),
          mx_fsm := FWritten, mx_done := mx_done c @ [CApply l now]\<rparr>)
      | FWritten \<Rightarrow> map_option (mx_fsm_update (\<lambda>_. FIdle)) (Unlock Fsm c)
      | _ \<Rightarrow> None)"

text \<open>
  Inside \<open>Snapshot\<close>, \<open>CloneMap\<close> makes a new map and ranges over the old one, in the order \<open>ks\<close>; the
  snapshot with the clone is returned to Raft.
\<close>

definition snapshot_step :: "string list \<Rightarrow> mx \<Rightarrow> mx option" where
  "snapshot_step ks c =
     (case mx_fsm c of
        SWants \<Rightarrow> map_option (mx_fsm_update (\<lambda>_. SInside)) (Lock Fsm c)
      | SInside \<Rightarrow>
          if set ks = dom (mx_heap c (mx_m c)) \<and> distinct ks
          then Some (c\<lparr>mx_heap := (mx_heap c)(mx_next c := Map.empty), mx_next := Suc (mx_next c),
            mx_fsm := SCloning (mx_next c) ks\<rparr>)
          else None
      | SCloning a (k # rest) \<Rightarrow>
          Some (c\<lparr>mx_heap := (mx_heap c)(a := (mx_heap c a)(k := mx_heap c (mx_m c) k)), mx_fsm := SCloning a rest\<rparr>)
      | SCloning a [] \<Rightarrow>
          map_option (\<lambda>c. c\<lparr>mx_fsm := FIdle, mx_snaps := mx_snaps c @ [(a, length (mx_done c))]\<rparr>) (Unlock Fsm c)
      | _ \<Rightarrow> None)"

text \<open>The end of \<open>Restore\<close>: the assignment to \<open>s.m\<close>, without the mutex.\<close>

definition restore_step :: "mx \<Rightarrow> mx option" where
  "restore_step c =
     (case mx_fsm c of
        RDecoded a rc \<Rightarrow> Some (c\<lparr>mx_m := a, mx_fsm := FIdle, mx_done := mx_done c @ [CRestore rc]\<rparr>)
      | _ \<Rightarrow> None)"

text \<open>One step of the call Raft's goroutine is in.\<close>

definition fsm_step :: "string list \<Rightarrow> mx \<Rightarrow> mx option" where
  "fsm_step ks c =
     (case mx_fsm c of
        FIdle \<Rightarrow> None
      | SWants \<Rightarrow> snapshot_step ks c
      | SInside \<Rightarrow> snapshot_step ks c
      | SCloning a rest \<Rightarrow> snapshot_step ks c
      | RDecoded a rc \<Rightarrow> restore_step c
      | _ \<Rightarrow> apply_step c)"

lemmas fsm_step_defs = fsm_step_def apply_step_def snapshot_step_def restore_step_def

datatype mx_action =
    Call string
  | GetStep nat
  | CallApply raft_log int
  | CallSnapshot
  | CallRestore string
  | FsmStep "string list"

fun mx_act :: "('r, 'v) store_env \<Rightarrow> ('v, 'w) Arg \<Rightarrow> mx_action \<Rightarrow> mx \<Rightarrow> mx option" where
  "mx_act E a (Call k) c = Some (c\<lparr>mx_rd := mx_rd c @ [RWants k (length (mx_done c))]\<rparr>)"
| "mx_act E a (GetStep i) c = get_step i c"
| "mx_act E a (CallApply l now) c = call_apply E a l now c"
| "mx_act E a CallSnapshot c = (if mx_fsm c = FIdle then Some (c\<lparr>mx_fsm := SWants\<rparr>) else None)"
| "mx_act E a (CallRestore rc) c = call_restore (se_js E) rc c"
| "mx_act E a (FsmStep ks) c = fsm_step ks c"

text \<open>A store as \<open>New\<close> makes it, with an empty map.\<close>

definition mx_init :: mx where
  "mx_init = \<lparr>mx_heap = (\<lambda>_. Map.empty), mx_next = 1, mx_m = 0, mx_lock = None, mx_rd = [], mx_fsm = FIdle,
     mx_snaps = [], mx_done = []\<rparr>"

inductive mx_reach :: "('r, 'v) store_env \<Rightarrow> ('v, 'w) Arg \<Rightarrow> mx \<Rightarrow> bool"
  for E :: "('r, 'v) store_env" and a :: "('v, 'w) Arg"
where
  init: "mx_reach E a mx_init"
| step: "mx_reach E a c \<Longrightarrow> mx_act E a x c = Some c' \<Longrightarrow> mx_reach E a c'"

section \<open>The calls in sequence\<close>

text \<open>What whole calls do to a store, and the value of a key after the first \<open>n\<close> of them.\<close>

primrec do_call ::
    "('r, 'v) store_env \<Rightarrow> fsm_call \<Rightarrow> ('r, 'v, 'w) RaftStore \<Rightarrow> ('r, 'v, 'w) RaftStore" where
  "do_call E (CApply l now) s = snd (Apply E now l s)"
| "do_call E (CRestore rc) s = snd (Restore (se_js E) rc s)"

definition do_calls ::
    "('r, 'v) store_env \<Rightarrow> fsm_call list \<Rightarrow> ('r, 'v, 'w) RaftStore \<Rightarrow> ('r, 'v, 'w) RaftStore" where
  "do_calls E cs s = fold (do_call E) cs s"

lemma do_calls_simps [simp]:
  "do_calls E [] s = s"
  "do_calls E (cs @ [c]) s = do_call E c (do_calls E cs s)"
  by (simp_all add: do_calls_def)

lemma do_call_Arg [simp]: "st_Arg (do_call E c s) = st_Arg s"
  by (cases c) (simp_all add: Apply_settings Restore_def case_prod_beta)

lemma do_calls_Arg [simp]: "st_Arg (do_calls E cs s) = st_Arg s"
  by (induction cs rule: rev_induct) simp_all

lemma do_call_apply:
  "entry_op E (st_Arg s) (l, now) = Some op \<Longrightarrow> st_m (do_call E (CApply l now) s) = kv_apply op (st_m s)"
  using Apply_Some [of E s l now op] by auto

section \<open>The invariant\<close>

text \<open>Who is inside the mutex.\<close>

fun inside_rd :: "reader \<Rightarrow> bool" where
  "inside_rd (RInside k n) = True"
| "inside_rd (RMap k n a) = True"
| "inside_rd (RHas k n r) = True"
| "inside_rd _ = False"

fun inside_fsm :: "fsm \<Rightarrow> bool" where
  "inside_fsm (FInside l now op) = True"
| "inside_fsm FWritten = True"
| "inside_fsm SInside = True"
| "inside_fsm (SCloning a ks) = True"
| "inside_fsm _ = False"

definition holds_rd :: "nat \<Rightarrow> mx \<Rightarrow> bool" where
  "holds_rd i c = (case rd_at i c of None \<Rightarrow> False | Some r \<Rightarrow> inside_rd r)"

definition mutex_inv :: "mx \<Rightarrow> bool" where
  "mutex_inv c \<longleftrightarrow>
     (\<forall>i. (mx_lock c = Some (Reader i)) = holds_rd i c) \<and>
     (mx_lock c = Some Fsm) = inside_fsm (mx_fsm c) \<and> (\<forall>j. mx_lock c \<noteq> Some (Persister j))"

text \<open>The addresses in use: the current map, the snapshots, and the map Raft's goroutine is filling.\<close>

definition fresh_map :: "mx \<Rightarrow> nat \<Rightarrow> bool" where
  "fresh_map c a \<longleftrightarrow> a < mx_next c \<and> a \<noteq> mx_m c \<and> a \<notin> fst ` set (mx_snaps c)"

definition addr_inv :: "mx \<Rightarrow> bool" where
  "addr_inv c \<longleftrightarrow> mx_m c < mx_next c \<and> (\<forall>p \<in> set (mx_snaps c). fst p < mx_next c \<and> fst p \<noteq> mx_m c) \<and>
     (\<forall>i k n a. rd_at i c = Some (RMap k n a) \<longrightarrow> a < mx_next c) \<and>
     (case mx_fsm c of SCloning a ks \<Rightarrow> fresh_map c a | RDecoded a rc \<Rightarrow> fresh_map c a | _ \<Rightarrow> True)"

text \<open>What the maps hold: the effect of the calls so far, on a store \<open>s\<close> that starts empty.\<close>

definition snap_ok ::
    "('r, 'v) store_env \<Rightarrow> ('r, 'v, 'w) RaftStore \<Rightarrow> fsm_call list \<Rightarrow> (nat \<Rightarrow> (string \<rightharpoonup> string)) \<Rightarrow> nat \<times> nat \<Rightarrow> bool" where
  "snap_ok E s cs h p \<longleftrightarrow> snd p \<le> length cs \<and> h (fst p) = st_m (do_calls E (take (snd p) cs) s)"

fun fsm_ok ::
    "('r, 'v) store_env \<Rightarrow> ('v, 'w) Arg \<Rightarrow> (nat \<Rightarrow> (string \<rightharpoonup> string)) \<Rightarrow> nat \<Rightarrow> fsm \<Rightarrow> bool" where
  "fsm_ok E a h m (FWants l now op) = (entry_op E a (l, now) = Some op)"
| "fsm_ok E a h m (FInside l now op) = (entry_op E a (l, now) = Some op)"
| "fsm_ok E a h m (SCloning b ks) = ((\<forall>k. h b k = (if k \<in> set ks then None else h m k)) \<and> distinct ks)"
| "fsm_ok E a h m (RDecoded b rc) = (js_unmap (se_js E) rc = Inr (h b))"
| "fsm_ok E a h m _ = True"

definition value_inv :: "('r, 'v) store_env \<Rightarrow> ('r, 'v, 'w) RaftStore \<Rightarrow> mx \<Rightarrow> bool" where
  "value_inv E s c \<longleftrightarrow> mx_heap c (mx_m c) = st_m (do_calls E (mx_done c) s) \<and>
     (\<forall>p \<in> set (mx_snaps c). snap_ok E s (mx_done c) (mx_heap c) p) \<and>
     fsm_ok E (st_Arg s) (mx_heap c) (mx_m c) (mx_fsm c)"

text \<open>A value a reader has, or would look up, was the value of its key at some point since it began.\<close>

definition seen ::
    "('r, 'v) store_env \<Rightarrow> ('r, 'v, 'w) RaftStore \<Rightarrow> fsm_call list \<Rightarrow> string \<Rightarrow> nat \<Rightarrow> nat \<Rightarrow> string option \<Rightarrow> bool" where
  "seen E s cs k n to r \<longleftrightarrow> to \<le> length cs \<and> (\<exists>j. n \<le> j \<and> j \<le> to \<and> r = Get k (do_calls E (take j cs) s))"

fun rd_inv :: "('r, 'v) store_env \<Rightarrow> ('r, 'v, 'w) RaftStore \<Rightarrow> mx \<Rightarrow> reader \<Rightarrow> bool" where
  "rd_inv E s c (RWants k n) = (n \<le> length (mx_done c))"
| "rd_inv E s c (RInside k n) = (n \<le> length (mx_done c))"
| "rd_inv E s c (RMap k n a) = seen E s (mx_done c) k n (length (mx_done c)) (mx_heap c a k)"
| "rd_inv E s c (RHas k n r) = seen E s (mx_done c) k n (length (mx_done c)) r"
| "rd_inv E s c (RDone k n to r) = seen E s (mx_done c) k n to r"

definition mx_inv :: "('r, 'v) store_env \<Rightarrow> ('r, 'v, 'w) RaftStore \<Rightarrow> mx \<Rightarrow> bool" where
  "mx_inv E s c \<longleftrightarrow> mutex_inv c \<and> addr_inv c \<and> value_inv E s c \<and> (\<forall>r \<in> set (mx_rd c). rd_inv E s c r)"

section \<open>Every step keeps the invariant\<close>

lemma rd_at_set_rd [simp]:
  "rd_at j (set_rd i r c) = (if j = i \<and> i < length (mx_rd c) then Some r else rd_at j c)"
  by (auto simp: rd_at_def set_rd_def)

lemma set_rd_simps [simp]:
  "mx_heap (set_rd i r c) = mx_heap c" "mx_next (set_rd i r c) = mx_next c" "mx_m (set_rd i r c) = mx_m c"
  "mx_lock (set_rd i r c) = mx_lock c" "mx_fsm (set_rd i r c) = mx_fsm c" "mx_snaps (set_rd i r c) = mx_snaps c"
  "mx_done (set_rd i r c) = mx_done c" "mx_rd (set_rd i r c) = (mx_rd c)[i := r]"
  by (simp_all add: set_rd_def)

lemma rd_at_Some: "rd_at i c = Some r \<longleftrightarrow> i < length (mx_rd c) \<and> mx_rd c ! i = r"
  by (simp add: rd_at_def)

lemma rd_at_cong: "mx_rd c' = mx_rd c \<Longrightarrow> rd_at i c' = rd_at i c"
  by (simp add: rd_at_def)

lemma lock_simps:
  "Lock t c = Some c' \<longleftrightarrow> mx_lock c = None \<and> c' = c\<lparr>mx_lock := Some t\<rparr>"
  "Unlock t c = Some c' \<longleftrightarrow> mx_lock c = Some t \<and> c' = c\<lparr>mx_lock := None\<rparr>"
  by (auto simp: Lock_def Unlock_def)

text \<open>The steps, one by one.\<close>

lemma get_step_cases:
  assumes "get_step i c = Some c'"
  obtains (lock) k n where "rd_at i c = Some (RWants k n)" "mx_lock c = None"
      "c' = set_rd i (RInside k n) (c\<lparr>mx_lock := Some (Reader i)\<rparr>)"
    | (load) k n where "rd_at i c = Some (RInside k n)" "c' = set_rd i (RMap k n (mx_m c)) c"
    | (look) k n a where "rd_at i c = Some (RMap k n a)" "c' = set_rd i (RHas k n (mx_heap c a k)) c"
    | (unlock) k n r where "rd_at i c = Some (RHas k n r)" "mx_lock c = Some (Reader i)"
      "c' = set_rd i (RDone k n (length (mx_done c)) r) (c\<lparr>mx_lock := None\<rparr>)"
  using assms by (auto simp: get_step_def lock_simps split: option.splits reader.splits)

lemma fsm_step_cases:
  assumes "fsm_step ks c = Some c'"
  obtains (lock) l now op where "mx_fsm c = FWants l now op" "mx_lock c = None"
      "c' = c\<lparr>mx_lock := Some Fsm, mx_fsm := FInside l now op\<rparr>"
    | (writes) l now op where "mx_fsm c = FInside l now op"
      "c' = c\<lparr>mx_heap := (mx_heap c)(mx_m c := kv_apply op (mx_heap c (mx_m c))),
          mx_fsm := FWritten, mx_done := mx_done c @ [CApply l now]\<rparr>"
    | (unlock) "mx_fsm c = FWritten" "mx_lock c = Some Fsm" "c' = c\<lparr>mx_lock := None, mx_fsm := FIdle\<rparr>"
    | (slock) "mx_fsm c = SWants" "mx_lock c = None" "c' = c\<lparr>mx_lock := Some Fsm, mx_fsm := SInside\<rparr>"
    | (make) "mx_fsm c = SInside" "set ks = dom (mx_heap c (mx_m c))" "distinct ks"
      "c' = c\<lparr>mx_heap := (mx_heap c)(mx_next c := Map.empty), mx_next := Suc (mx_next c), mx_fsm := SCloning (mx_next c) ks\<rparr>"
    | (copy) a k rest where "mx_fsm c = SCloning a (k # rest)"
      "c' = c\<lparr>mx_heap := (mx_heap c)(a := (mx_heap c a)(k := mx_heap c (mx_m c) k)), mx_fsm := SCloning a rest\<rparr>"
    | (sunlock) a where "mx_fsm c = SCloning a []" "mx_lock c = Some Fsm"
      "c' = c\<lparr>mx_lock := None, mx_fsm := FIdle, mx_snaps := mx_snaps c @ [(a, length (mx_done c))]\<rparr>"
    | (assign) a rc where "mx_fsm c = RDecoded a rc"
      "c' = c\<lparr>mx_m := a, mx_fsm := FIdle, mx_done := mx_done c @ [CRestore rc]\<rparr>"
  using assms by (auto simp: fsm_step_defs lock_simps split: fsm.splits list.splits if_splits)

lemma call_apply_cases:
  assumes "call_apply E a l now c = Some c'"
  obtains (quiet) "mx_fsm c = FIdle" "entry_op E a (l, now) = Some KNop" "c' = c\<lparr>mx_done := mx_done c @ [CApply l now]\<rparr>"
    | (wants) op where "mx_fsm c = FIdle" "entry_op E a (l, now) = Some op" "c' = c\<lparr>mx_fsm := FWants l now op\<rparr>"
  using assms by (auto simp: call_apply_def split: if_splits option.splits kv_op.splits)

lemma call_restore_cases:
  assumes "call_restore js rc c = Some c'"
  obtains (fails) err where "mx_fsm c = FIdle" "js_unmap js rc = Inl err" "c' = c\<lparr>mx_done := mx_done c @ [CRestore rc]\<rparr>"
    | (decodes) m where "mx_fsm c = FIdle" "js_unmap js rc = Inr m"
      "c' = c\<lparr>mx_heap := (mx_heap c)(mx_next c := m), mx_next := Suc (mx_next c), mx_fsm := RDecoded (mx_next c) rc\<rparr>"
  using assms by (auto simp: call_restore_def split: if_splits sum.splits)

lemma mx_act_cases:
  assumes "mx_act E a x c = Some c'"
  obtains (call) k where "c' = c\<lparr>mx_rd := mx_rd c @ [RWants k (length (mx_done c))]\<rparr>"
    | (get) i where "x = GetStep i" "get_step i c = Some c'"
    | (applies) l now where "call_apply E a l now c = Some c'"
    | (snapshot) "mx_fsm c = FIdle" "c' = c\<lparr>mx_fsm := SWants\<rparr>"
    | (restore) rc where "call_restore (se_js E) rc c = Some c'"
    | (fsm) ks where "x = FsmStep ks" "fsm_step ks c = Some c'"
proof (cases x)
  case (Call k)
  with assms have "c' = c\<lparr>mx_rd := mx_rd c @ [RWants k (length (mx_done c))]\<rparr>" by simp
  then show ?thesis by (rule call)
next
  case (GetStep i)
  with assms show ?thesis by (intro get [of i]) simp_all
next
  case (CallApply l now)
  with assms show ?thesis by (intro applies [of l now]) simp
next
  case CallSnapshot
  with assms show ?thesis by (intro snapshot) (simp_all split: if_splits)
next
  case (CallRestore rc)
  with assms show ?thesis by (intro restore [of rc]) simp
next
  case (FsmStep ks)
  with assms show ?thesis by (intro fsm [of ks]) simp_all
qed

lemma holds_rd_set_rd [simp]:
  "holds_rd j (set_rd i r c) = (if j = i \<and> i < length (mx_rd c) then inside_rd r else holds_rd j c)"
  by (simp add: holds_rd_def)

lemma holds_rd_cong: "mx_rd c' = mx_rd c \<Longrightarrow> holds_rd i c' = holds_rd i c"
  by (simp only: holds_rd_def rd_at_cong [of c' c])

lemma holds_rd_call: "mx_rd c' = mx_rd c @ [RWants k n] \<Longrightarrow> holds_rd i c' = holds_rd i c"
  by (auto simp: holds_rd_def rd_at_def nth_append)

lemma rd_at_length: "rd_at i c = Some r \<Longrightarrow> i < length (mx_rd c)"
  by (simp add: rd_at_Some)

lemma mutex_get:
  assumes "get_step i c = Some c'" "mutex_inv c"
  shows "mutex_inv c'"
  using assms(1)
proof (cases rule: get_step_cases)
  case (lock k n)
  have "holds_rd j (c\<lparr>mx_lock := Some (Reader i)\<rparr>) = holds_rd j c" for j by (rule holds_rd_cong) simp
  with lock assms(2) rd_at_length [OF lock(1)] show ?thesis by (simp add: mutex_inv_def)
next
  case (load k n)
  have "holds_rd i c" by (simp add: holds_rd_def load)
  with load assms(2) rd_at_length [OF load(1)] show ?thesis by (simp add: mutex_inv_def)
next
  case (look k n a)
  have "holds_rd i c" by (simp add: holds_rd_def look)
  with look assms(2) rd_at_length [OF look(1)] show ?thesis by (simp add: mutex_inv_def)
next
  case (unlock k n r)
  have "holds_rd j (c\<lparr>mx_lock := None\<rparr>) = holds_rd j c" for j by (rule holds_rd_cong) simp
  with unlock assms(2) rd_at_length [OF unlock(1)] show ?thesis
    by (simp add: mutex_inv_def) (metis option.inject who.inject(1))
qed

lemma mutex_frame:
  assumes "mutex_inv c" "mx_rd c' = mx_rd c" "mx_lock c' = mx_lock c" "inside_fsm (mx_fsm c') = inside_fsm (mx_fsm c)"
  shows "mutex_inv c'"
  using assms holds_rd_cong [OF assms(2)] by (simp add: mutex_inv_def)

lemma mutex_fsm_lock:
  assumes "mutex_inv c" "mx_rd c' = mx_rd c" "mx_lock c = None" "mx_lock c' = Some Fsm" "inside_fsm (mx_fsm c')"
  shows "mutex_inv c'"
  using assms holds_rd_cong [OF assms(2)] by (simp add: mutex_inv_def)

lemma mutex_fsm_unlock:
  assumes "mutex_inv c" "mx_rd c' = mx_rd c" "mx_lock c = Some Fsm" "mx_lock c' = None" "\<not> inside_fsm (mx_fsm c')"
  shows "mutex_inv c'"
  using assms holds_rd_cong [OF assms(2)] by (simp add: mutex_inv_def)

lemma mutex_step:
  assumes "mx_act E a x c = Some c'" "mutex_inv c"
  shows "mutex_inv c'"
  using assms(1)
proof (cases rule: mx_act_cases)
  case (call k)
  with assms(2) holds_rd_call [of c' c k] show ?thesis by (simp add: mutex_inv_def)
next
  case (get i)
  with assms(2) show ?thesis by (rule_tac mutex_get)
next
  case (applies l now)
  then show ?thesis by (cases rule: call_apply_cases) (auto intro: mutex_frame [OF assms(2)])
next
  case snapshot
  then show ?thesis by (auto intro: mutex_frame [OF assms(2)])
next
  case (restore rc)
  then show ?thesis by (cases rule: call_restore_cases) (auto intro: mutex_frame [OF assms(2)])
next
  case (fsm ks)
  from fsm(2) show ?thesis
    by (cases rule: fsm_step_cases)
      (auto intro: mutex_frame [OF assms(2)] mutex_fsm_lock [OF assms(2)] mutex_fsm_unlock [OF assms(2)])
qed

text \<open>The mutex excludes: nobody else is inside with Raft's goroutine, or with a reader.\<close>

lemma mutex_exclusive:
  assumes "mutex_inv c" "holds_rd i c"
  shows "\<not> inside_fsm (mx_fsm c)" and "holds_rd j c \<Longrightarrow> j = i"
  using assms by (auto simp: mutex_inv_def) (metis option.inject who.inject(1))+

lemma rd_at_frame [simp]:
  "rd_at i (c\<lparr>mx_heap := h\<rparr>) = rd_at i c" "rd_at i (c\<lparr>mx_next := n\<rparr>) = rd_at i c"
  "rd_at i (c\<lparr>mx_m := n\<rparr>) = rd_at i c" "rd_at i (c\<lparr>mx_lock := l\<rparr>) = rd_at i c"
  "rd_at i (c\<lparr>mx_fsm := f\<rparr>) = rd_at i c" "rd_at i (c\<lparr>mx_snaps := p\<rparr>) = rd_at i c"
  "rd_at i (c\<lparr>mx_done := d\<rparr>) = rd_at i c"
  by (simp_all add: rd_at_def)

lemma addr_get:
  assumes "get_step i c = Some c'" "addr_inv c"
  shows "addr_inv c'"
  using assms(1)
proof (cases rule: get_step_cases)
qed (use assms(2) in \<open>simp_all add: addr_inv_def fresh_map_def split: fsm.splits\<close>)

lemma rd_at_call:
  "rd_at i (c\<lparr>mx_rd := mx_rd c @ [r]\<rparr>) = (if i = length (mx_rd c) then Some r else rd_at i c)"
  by (auto simp: rd_at_def nth_append)

lemma addr_fsm:
  assumes "fsm_step ks c = Some c'" "addr_inv c"
  shows "addr_inv c'"
  using assms(1)
proof (cases rule: fsm_step_cases)
  case make
  with assms(2) show ?thesis by (fastforce simp: addr_inv_def fresh_map_def)
next
  case (sunlock a)
  with assms(2) show ?thesis by (auto simp: addr_inv_def fresh_map_def)
next
  case (assign a rc)
  with assms(2) show ?thesis by (auto simp: addr_inv_def fresh_map_def)
qed (use assms(2) in \<open>simp_all add: addr_inv_def fresh_map_def\<close>)

lemma addr_step:
  assumes "mx_act E a x c = Some c'" "addr_inv c"
  shows "addr_inv c'"
  using assms(1)
proof (cases rule: mx_act_cases)
  case (call k)
  with assms(2) show ?thesis by (simp add: addr_inv_def fresh_map_def rd_at_call split: fsm.splits)
next
  case (get i)
  from addr_get [OF get(2) assms(2)] show ?thesis .
next
  case (applies l now)
  then show ?thesis
    by (cases rule: call_apply_cases) (use assms(2) in \<open>simp_all add: addr_inv_def fresh_map_def\<close>)
next
  case snapshot
  with assms(2) show ?thesis by (simp add: addr_inv_def)
next
  case (restore rc)
  then show ?thesis
  proof (cases rule: call_restore_cases)
    case (decodes m)
    with assms(2) show ?thesis by (fastforce simp: addr_inv_def fresh_map_def)
  qed (use assms(2) in \<open>simp_all add: addr_inv_def\<close>)
next
  case (fsm ks)
  from addr_fsm [OF fsm(2) assms(2)] show ?thesis .
qed

text \<open>The values.\<close>

lemma value_frame:
  assumes "value_inv E s c" "mx_heap c' = mx_heap c" "mx_m c' = mx_m c" "mx_done c' = mx_done c"
    "mx_snaps c' = mx_snaps c" "mx_fsm c' = mx_fsm c"
  shows "value_inv E s c'"
  using assms by (simp add: value_inv_def)

text \<open>A call takes effect: the current map becomes what the call makes of it, the snapshots stay.\<close>

lemma snap_ok_grow: "snap_ok E s cs h p \<Longrightarrow> h' (fst p) = h (fst p) \<Longrightarrow> snap_ok E s (cs @ ds) h' p"
  by (simp add: snap_ok_def)

lemma value_done:
  assumes "value_inv E s c" "mx_heap c' (mx_m c') = st_m (do_call E d (do_calls E (mx_done c) s))"
    and "mx_done c' = mx_done c @ [d]" "mx_snaps c' = mx_snaps c" "mx_fsm c' = FIdle \<or> mx_fsm c' = FWritten"
    and "\<And>p. p \<in> set (mx_snaps c) \<Longrightarrow> mx_heap c' (fst p) = mx_heap c (fst p)"
  shows "value_inv E s c'"
  using assms(1-5) snap_ok_grow [of E s "mx_done c" "mx_heap c" _ "mx_heap c'" "[d]"] assms(6)
  by (auto simp: value_inv_def)

text \<open>Something is written to a map that is neither the current one nor a snapshot.\<close>

lemma value_fresh:
  assumes "value_inv E s c" "mx_heap c' = (mx_heap c)(b := m)" "b \<noteq> mx_m c" "b \<notin> fst ` set (mx_snaps c)"
    and "mx_m c' = mx_m c" "mx_done c' = mx_done c" "mx_snaps c' = mx_snaps c"
    and "fsm_ok E (st_Arg s) (mx_heap c') (mx_m c) (mx_fsm c')"
  shows "value_inv E s c'"
proof -
  have "snap_ok E s (mx_done c) (mx_heap c') p" if "p \<in> set (mx_snaps c)" for p
    using snap_ok_grow [of E s "mx_done c" "mx_heap c" p "mx_heap c'" "[]"] assms(1,2,4) that
    by (auto simp: value_inv_def image_iff)
  with assms(1-3,5-8) show ?thesis by (simp add: value_inv_def)
qed

lemma value_fsm:
  assumes "fsm_step ks c = Some c'" "addr_inv c" "value_inv E s c"
  shows "value_inv E s c'"
  using assms(1)
proof (cases rule: fsm_step_cases)
  case (writes l now op)
  have "entry_op E (st_Arg (do_calls E (mx_done c) s)) (l, now) = Some op"
    using assms(3) writes(1) by (simp add: value_inv_def)
  from do_call_apply [OF this] show ?thesis
    using assms(2,3) writes by (intro value_done [OF assms(3)]) (auto simp: value_inv_def addr_inv_def)
next
  case make
  then show ?thesis
    using assms(2,3) by (intro value_fresh [OF assms(3), where b = "mx_next c"]) (auto simp: addr_inv_def)
next
  case (copy a k rest)
  have "a \<noteq> mx_m c" "a \<notin> fst ` set (mx_snaps c)"
    using assms(2) copy(1) by (simp_all add: addr_inv_def fresh_map_def)
  moreover have "\<forall>k'. mx_heap c a k' = (if k' \<in> set (k # rest) then None else mx_heap c (mx_m c) k')" "distinct (k # rest)"
    using assms(3) copy(1) by (simp_all add: value_inv_def)
  ultimately show ?thesis
    using copy(2) by (intro value_fresh [OF assms(3), where b = a]) auto
next
  case (sunlock a)
  have "\<forall>k. mx_heap c a k = mx_heap c (mx_m c) k" using assms(3) sunlock(1) by (simp add: value_inv_def)
  then have "mx_heap c a = mx_heap c (mx_m c)" by (simp add: fun_eq_iff)
  with assms(3) sunlock(3) show ?thesis by (auto simp: value_inv_def snap_ok_def)
next
  case (assign a rc)
  have "js_unmap (se_js E) rc = Inr (mx_heap c a)" using assms(3) assign(1) by (simp add: value_inv_def)
  with assign show ?thesis
    by (intro value_done [OF assms(3)]) (simp_all add: Restore_def restore_map_def)
qed (use assms(3) in \<open>simp_all add: value_inv_def\<close>)

lemma value_step:
  assumes "mx_act E (st_Arg s) x c = Some c'" "addr_inv c" "value_inv E s c"
  shows "value_inv E s c'"
  using assms(1)
proof (cases rule: mx_act_cases)
  case (call k)
  with assms(3) show ?thesis by (simp add: value_inv_def)
next
  case (get i)
  from get(2) show ?thesis
    by (cases rule: get_step_cases) (use assms(3) in \<open>simp_all add: value_inv_def\<close>)
next
  case (applies l now)
  then show ?thesis
  proof (cases rule: call_apply_cases)
    case quiet
    have "entry_op E (st_Arg (do_calls E (mx_done c) s)) (l, now) = Some KNop" using quiet(2) by simp
    from do_call_apply [OF this] show ?thesis
      using quiet assms(3) by (intro value_done [OF assms(3)]) (simp_all add: value_inv_def)
  qed (use assms(3) in \<open>simp_all add: value_inv_def\<close>)
next
  case snapshot
  with assms(3) show ?thesis by (simp add: value_inv_def)
next
  case (restore rc)
  then show ?thesis
  proof (cases rule: call_restore_cases)
    case (fails err)
    then show ?thesis
      using assms(3) by (intro value_done [OF assms(3)]) (simp_all add: value_inv_def Restore_def restore_map_def)
  next
    case (decodes m)
    then show ?thesis
      using assms(2) by (intro value_fresh [OF assms(3), where b = "mx_next c"]) (auto simp: addr_inv_def)
  qed
next
  case (fsm ks)
  from value_fsm [OF fsm(2) assms(2,3)] show ?thesis .
qed

text \<open>What the readers know.\<close>

lemma seen_grow: "seen E s cs k n to r \<Longrightarrow> seen E s (cs @ ds) k n to r"
  by (fastforce simp: seen_def)

lemma seen_later: "seen E s cs k n to r \<Longrightarrow> to \<le> to' \<Longrightarrow> to' \<le> length cs \<Longrightarrow> seen E s cs k n to' r"
  by (fastforce simp: seen_def)

lemma seen_end: "seen E s cs k n to r \<Longrightarrow> seen E s (cs @ ds) k n (length (cs @ ds)) r"
  by (rule seen_later [OF seen_grow]) (auto simp: seen_def)

lemma seen_now: "n \<le> length cs \<Longrightarrow> seen E s cs k n (length cs) (Get k (do_calls E cs s))"
  by (auto simp: seen_def)

lemma rd_inv_grow:
  assumes "rd_inv E s c r" "mx_done c' = mx_done c @ ds"
    and "\<And>k n a. r = RMap k n a \<Longrightarrow> mx_heap c' a k = mx_heap c a k"
  shows "rd_inv E s c' r"
  using assms seen_grow seen_end [of E s "mx_done c"] by (cases r) fastforce+

lemma rd_inv_frame:
  "rd_inv E s c r \<Longrightarrow> mx_done c' = mx_done c \<Longrightarrow> mx_heap c' = mx_heap c \<Longrightarrow> rd_inv E s c' r"
  by (rule rd_inv_grow [where ds = "[]"]) simp_all

text \<open>A reader that is about to look a key up is inside the mutex, so Raft's goroutine is not.\<close>

lemma reading_alone:
  assumes "mutex_inv c" "RMap k n a \<in> set (mx_rd c)"
  shows "\<not> inside_fsm (mx_fsm c)"
proof -
  obtain i where "rd_at i c = Some (RMap k n a)" using assms(2) by (auto simp: in_set_conv_nth rd_at_Some)
  then have "holds_rd i c" by (simp add: holds_rd_def)
  from mutex_exclusive(1) [OF assms(1) this] show ?thesis .
qed

lemma reading_old:
  assumes "addr_inv c" "RMap k n a \<in> set (mx_rd c)"
  shows "a < mx_next c"
proof -
  obtain i where "rd_at i c = Some (RMap k n a)" using assms(2) by (auto simp: in_set_conv_nth rd_at_Some)
  with assms(1) show ?thesis unfolding addr_inv_def by blast
qed

lemma rd_get:
  assumes "get_step i c = Some c'" "value_inv E s c" "\<forall>r \<in> set (mx_rd c). rd_inv E s c r"
  shows "\<forall>r \<in> set (mx_rd c'). rd_inv E s c' r"
proof -
  have own: "rd_inv E s c r" if "rd_at i c = Some r" for r using assms(3) that by (auto simp: rd_at_Some)
  have cur: "mx_heap c (mx_m c) k = Get k (do_calls E (mx_done c) s)" for k
    using assms(2) by (simp add: value_inv_def Get_def)
  have new: "\<exists>r. mx_rd c' = (mx_rd c)[i := r] \<and> rd_inv E s c' r"
    using assms(1)
  proof (cases rule: get_step_cases)
    case (lock k n)
    with own [OF lock(1)] show ?thesis by auto
  next
    case (load k n)
    with own [OF load(1)] seen_now [of n "mx_done c" E s k] show ?thesis by (auto simp: cur)
  next
    case (look k n a)
    with own [OF look(1)] show ?thesis by auto
  next
    case (unlock k n r)
    with own [OF unlock(1)] show ?thesis by auto
  qed
  have same: "mx_done c' = mx_done c" "mx_heap c' = mx_heap c"
    using assms(1) by (cases rule: get_step_cases; simp)+
  obtain r' where r': "mx_rd c' = (mx_rd c)[i := r']" "rd_inv E s c' r'" using new by blast
  show ?thesis
  proof
    fix r assume "r \<in> set (mx_rd c')"
    then consider "r = r'" | "r \<in> set (mx_rd c)" using r'(1) set_update_subset_insert [of "mx_rd c" i r'] by auto
    then show "rd_inv E s c' r"
      by cases (use r'(2) rd_inv_frame [OF _ same] assms(3) in auto)
  qed
qed

lemma rd_step:
  assumes "mx_act E (st_Arg s) x c = Some c'" "mutex_inv c" "addr_inv c" "value_inv E s c"
    and "\<forall>r \<in> set (mx_rd c). rd_inv E s c r"
  shows "\<forall>r \<in> set (mx_rd c'). rd_inv E s c' r"
  using assms(1)
proof (cases rule: mx_act_cases)
  case (call k)
  have "rd_inv E s c' r" if "r \<in> set (mx_rd c)" for r
    using rd_inv_frame [of E s c r c'] assms(5) that call by simp
  with call show ?thesis by auto
next
  case (get i)
  from rd_get [OF get(2) assms(4,5)] show ?thesis .
next
  case (applies l now)
  then obtain ds where "mx_done c' = mx_done c @ ds" "mx_heap c' = mx_heap c" "mx_rd c' = mx_rd c"
    by (cases rule: call_apply_cases) fastforce+
  then show ?thesis using rd_inv_grow [of E s c _ c' ds] assms(5) by simp
next
  case snapshot
  then show ?thesis using rd_inv_frame [of E s c _ c'] assms(5) by simp
next
  case (restore rc)
  then obtain ds where c': "mx_done c' = mx_done c @ ds" "mx_rd c' = mx_rd c" "\<forall>a < mx_next c. mx_heap c' a = mx_heap c a"
    by (cases rule: call_restore_cases) fastforce+
  show ?thesis
  proof
    fix r assume "r \<in> set (mx_rd c')"
    then have r: "r \<in> set (mx_rd c)" "rd_inv E s c r" using c'(2) assms(5) by simp_all
    show "rd_inv E s c' r"
      by (rule rd_inv_grow [OF r(2) c'(1)]) (use reading_old [OF assms(3)] r(1) c'(3) in auto)
  qed
next
  case (fsm ks)
  have c': "\<exists>ds. mx_done c' = mx_done c @ ds" "mx_rd c' = mx_rd c" "inside_fsm (mx_fsm c) \<or> mx_heap c' = mx_heap c"
    using fsm(2) by (cases rule: fsm_step_cases; auto)+
  then obtain ds where ds: "mx_done c' = mx_done c @ ds" by blast
  show ?thesis
  proof
    fix r assume "r \<in> set (mx_rd c')"
    then have r: "r \<in> set (mx_rd c)" "rd_inv E s c r" using c'(2) assms(5) by simp_all
    show "rd_inv E s c' r"
      by (rule rd_inv_grow [OF r(2) ds]) (use reading_alone [OF assms(2)] r(1) c'(3) in auto)
  qed
qed

lemma mx_inv_init:
  assumes "st_m s = Map.empty"
  shows "mx_inv E s mx_init"
  using assms by (simp add: mx_inv_def mx_init_def mutex_inv_def addr_inv_def value_inv_def holds_rd_def rd_at_def)

lemma mx_inv_step:
  "mx_act E (st_Arg s) x c = Some c' \<Longrightarrow> mx_inv E s c \<Longrightarrow> mx_inv E s c'"
  using mutex_step [of E "st_Arg s" x c c'] addr_step [of E "st_Arg s" x c c'] value_step [of E s x c c']
    rd_step [of E s x c c']
  unfolding mx_inv_def by blast

lemma mx_reach_inv:
  assumes "mx_reach E (st_Arg s) c" "st_m s = Map.empty"
  shows "mx_inv E s c"
  using assms
proof (induction rule: mx_reach.induct)
  case init
  then show ?case by (rule mx_inv_init)
next
  case (step c x c')
  then show ?case by (blast intro: mx_inv_step)
qed

lemma mx_reach_some:
  fixes E :: "('r, 'v) store_env" and a :: "('v, 'w) Arg"
  assumes "mx_reach E a c"
  shows "\<exists>s :: ('r, 'v, 'w) RaftStore. mx_inv E s c \<and> st_Arg s = a \<and> st_m s = Map.empty"
proof -
  obtain s0 :: "('r, 'v, 'w) RaftStore" where "s0 = s0" by simp
  let ?s = "s0\<lparr>st_m := Map.empty, st_Arg := a\<rparr>"
  have "mx_inv E ?s c" by (rule mx_reach_inv) (use assms in simp_all)
  then show ?thesis by (intro exI [of _ ?s]) simp
qed

section \<open>Data races\<close>

text \<open>
  What the next step of a goroutine reads or writes besides the mutex: the field \<open>s.m\<close>, or the map at
  an address. A goroutine that persists a snapshot may read its map at any time.
\<close>

datatype place = AtField | AtMap nat

fun rd_access :: "reader \<Rightarrow> nat \<Rightarrow> (place \<times> bool) set" where
  "rd_access (RInside k n) m = {(AtField, False)}"
| "rd_access (RMap k n a) m = {(AtMap a, False)}"
| "rd_access _ m = {}"

fun fsm_access :: "fsm \<Rightarrow> nat \<Rightarrow> (place \<times> bool) set" where
  "fsm_access (FInside l now op) m = {(AtField, False), (AtMap m, True)}"
| "fsm_access SInside m = {(AtField, False), (AtMap m, False)}"
| "fsm_access (SCloning a ks) m = {(AtMap m, False), (AtMap a, True)}"
| "fsm_access (RDecoded a rc) m = {(AtField, True)}"
| "fsm_access _ m = {}"

fun access :: "mx \<Rightarrow> who \<Rightarrow> (place \<times> bool) set" where
  "access c Fsm = fsm_access (mx_fsm c) (mx_m c)"
| "access c (Reader i) = (case rd_at i c of None \<Rightarrow> {} | Some r \<Rightarrow> rd_access r (mx_m c))"
| "access c (Persister j) = (if j < length (mx_snaps c) then {(AtMap (fst (mx_snaps c ! j)), False)} else {})"

text \<open>Two goroutines race when both are about to touch the same place and one of them writes.\<close>

definition race :: "mx \<Rightarrow> who \<Rightarrow> who \<Rightarrow> place \<Rightarrow> bool" where
  "race c t u p \<longleftrightarrow> t \<noteq> u \<and> (\<exists>w. (p, True) \<in> access c t \<and> (p, w) \<in> access c u)"

lemma rd_access_reads: "(p, w) \<in> rd_access r m \<Longrightarrow> \<not> w \<and> inside_rd r \<and> (p = AtField \<or> (\<exists>k n. \<exists>a. r = RMap k n a \<and> p = AtMap a))"
  by (cases r) auto

lemma fsm_writes:
  "(p, True) \<in> fsm_access f m \<Longrightarrow>
    (\<exists>l now op. f = FInside l now op \<and> p = AtMap m) \<or> (\<exists>a ks. f = SCloning a ks \<and> p = AtMap a) \<or> (\<exists>a rc. f = RDecoded a rc \<and> p = AtField)"
  by (cases f) auto

section \<open>Progress\<close>

text \<open>The steps the calls in progress still have to take, when the current map has \<open>N\<close> keys.\<close>

fun work_rd :: "reader \<Rightarrow> nat" where
  "work_rd (RWants k n) = 4"
| "work_rd (RInside k n) = 3"
| "work_rd (RMap k n a) = 2"
| "work_rd (RHas k n r) = 1"
| "work_rd (RDone k n to r) = 0"

fun work_fsm :: "fsm \<Rightarrow> nat \<Rightarrow> nat" where
  "work_fsm FIdle N = 0"
| "work_fsm (FWants l now op) N = 3"
| "work_fsm (FInside l now op) N = 2"
| "work_fsm FWritten N = 1"
| "work_fsm SWants N = N + 3"
| "work_fsm SInside N = N + 2"
| "work_fsm (SCloning a ks) N = length ks + 1"
| "work_fsm (RDecoded a rc) N = 1"

lemma work_rd_0: "work_rd r = 0 \<Longrightarrow> \<exists>k n to v. r = RDone k n to v"
  by (cases r) simp_all

definition work :: "mx \<Rightarrow> nat" where
  "work c = sum_list (map work_rd (mx_rd c)) + work_fsm (mx_fsm c) (card (dom (mx_heap c (mx_m c))))"

text \<open>The actions that carry calls on, rather than begin new ones.\<close>

fun carries_on :: "mx_action \<Rightarrow> bool" where
  "carries_on (GetStep i) = True"
| "carries_on (FsmStep ks) = True"
| "carries_on _ = False"

lemma sum_list_work_update:
  "i < length rs \<Longrightarrow> work_rd (rs ! i) = Suc (work_rd r) \<Longrightarrow>
    sum_list (map work_rd rs) = Suc (sum_list (map work_rd (rs[i := r])))"
proof (induction rs arbitrary: i)
  case (Cons x rs)
  then show ?case by (cases i) auto
qed simp

lemma work_get:
  assumes "get_step i c = Some c'"
  shows "work c = Suc (work c')"
  using assms
proof (cases rule: get_step_cases)
qed (simp_all add: work_def sum_list_work_update rd_at_Some)

lemma work_fsm_step:
  assumes "fsm_step ks c = Some c'" "addr_inv c" "value_inv E s c"
  shows "work c = Suc (work c')"
  using assms(1)
proof (cases rule: fsm_step_cases)
  case make
  then have "card (dom (mx_heap c (mx_m c))) = length ks" by (metis distinct_card)
  with make show ?thesis by (simp add: work_def)
qed (simp_all add: work_def)

text \<open>Go maps are finite, and so is what a decoder returns.\<close>

definition finite_maps :: "json_lib \<Rightarrow> bool" where
  "finite_maps js \<longleftrightarrow> (\<forall>rc m. js_unmap js rc = Inr m \<longrightarrow> finite (dom m))"

lemma do_calls_finite:
  assumes "finite_maps (se_js E)" "finite (dom (st_m s))"
  shows "finite (dom (st_m (do_calls E cs s)))"
proof (induction cs rule: rev_induct)
  case (snoc d cs)
  let ?s = "do_calls E cs s"
  show ?case
  proof (cases d)
    case (CApply l now)
    show ?thesis
    proof (cases "entry_op E (st_Arg ?s) (l, now)")
      case None
      from Apply_None [OF this] snoc CApply show ?thesis by auto
    next
      case (Some op)
      have "finite (dom (kv_apply op (st_m ?s)))" using snoc by (cases op) simp_all
      with Apply_Some [OF Some] CApply show ?thesis by auto
    qed
  next
    case (CRestore rc)
    with snoc assms(1) show ?thesis
      by (auto simp: Restore_def restore_map_def finite_maps_def split: sum.splits)
  qed
qed (simp add: assms(2))

text \<open>As long as a call is in progress, somebody can go on.\<close>

lemma can_carry_on:
  assumes "mx_inv E s c" "finite (dom (mx_heap c (mx_m c)))" "work c \<noteq> 0"
  shows "\<exists>x c'. carries_on x \<and> mx_act E a x c = Some c'"
proof (cases "mx_lock c")
  case None
  obtain ks where ks: "set ks = dom (mx_heap c (mx_m c))" "distinct ks"
    using finite_distinct_list [OF assms(2)] by blast
  have out: "\<not> inside_fsm (mx_fsm c)" "\<And>i. \<not> holds_rd i c"
    using assms(1) None by (simp_all add: mx_inv_def mutex_inv_def)
  show ?thesis
  proof (cases "mx_fsm c = FIdle")
    case True
    then obtain r where "r \<in> set (mx_rd c)" "work_rd r \<noteq> 0" using assms(3) by (auto simp: work_def)
    then obtain i where i: "rd_at i c = Some r" by (auto simp: in_set_conv_nth rd_at_Some)
    with out(2) [of i] \<open>work_rd r \<noteq> 0\<close> have "\<exists>k n. r = RWants k n" by (cases r) (auto simp: holds_rd_def)
    with i None show ?thesis by (intro exI [of _ "GetStep i"]) (auto simp: get_step_def Lock_def)
  next
    case False
    with out(1) None show ?thesis
      by (intro exI [of _ "FsmStep ks"]) (cases "mx_fsm c"; simp add: fsm_step_defs Lock_def)
  qed
next
  case (Some t)
  show ?thesis
  proof (cases t)
    case (Reader i)
    have "holds_rd i c" using assms(1) Some Reader by (auto simp: mx_inv_def mutex_inv_def)
    then obtain r where "rd_at i c = Some r" "inside_rd r" by (auto simp: holds_rd_def split: option.splits)
    with Some Reader show ?thesis
      by (intro exI [of _ "GetStep i"]) (cases r; simp add: get_step_def Unlock_def)
  next
    case Fsm
    obtain ks where ks: "set ks = dom (mx_heap c (mx_m c))" "distinct ks"
      using finite_distinct_list [OF assms(2)] by blast
    have "inside_fsm (mx_fsm c)" using assms(1) Some Fsm by (simp add: mx_inv_def mutex_inv_def)
    with Some Fsm ks show ?thesis
      by (intro exI [of _ "FsmStep ks"]) (cases "mx_fsm c"; auto simp: fsm_step_defs Unlock_def split: list.split)
  next
    case (Persister j)
    with assms(1) Some show ?thesis by (simp add: mx_inv_def mutex_inv_def)
  qed
qed

lemma exec_work:
  assumes "exec (mx_act E (st_Arg s)) xs c = Some c'" "list_all carries_on xs" "mx_inv E s c"
  shows "length xs + work c' = work c \<and> mx_inv E s c'"
  using assms
proof (induction xs arbitrary: c)
  case (Cons x xs)
  then obtain c1 where c1: "mx_act E (st_Arg s) x c = Some c1" "exec (mx_act E (st_Arg s)) xs c1 = Some c'"
    by (auto split: option.splits)
  have "work c = Suc (work c1)"
    using c1(1) Cons.prems(2,3) work_get work_fsm_step [of _ c c1 E s] by (cases x) (auto simp: mx_inv_def)
  with Cons.IH [OF c1(2) _ mx_inv_step [OF c1(1) Cons.prems(3)]] Cons.prems(2) show ?case by simp
qed simp

section \<open>Properties\<close>

text \<open>
  C9. The mutex makes calls look whole: take any state of the store, with any number of goroutines in
  the middle of \<open>Get\<close> and Raft's goroutine in the middle of \<open>Apply\<close>, \<open>Snapshot\<close> or \<open>Restore\<close>. The map of
  the store is what the calls of Raft that have taken effect make of it, one after the other, and
  every \<open>Get\<close> that has returned gave the value its key had after some number of those calls, at
  least as many as when it was called and at most as many as when it returned. The unlocked
  assignment of \<open>Restore\<close> does not break this.
\<close>

theorem calls_linearizable:
  assumes "mx_reach E (st_Arg s) c" "st_m s = Map.empty"
  shows "mx_heap c (mx_m c) = st_m (do_calls E (mx_done c) s) \<and>
    (\<forall>i k n to r. rd_at i c = Some (RDone k n to r) \<longrightarrow>
       to \<le> length (mx_done c) \<and> (\<exists>j. n \<le> j \<and> j \<le> to \<and> r = Get k (do_calls E (take j (mx_done c)) s)))"
proof -
  have inv: "mx_inv E s c" by (rule mx_reach_inv [OF assms])
  have "seen E s (mx_done c) k n to r" if "rd_at i c = Some (RDone k n to r)" for i k n to r
  proof -
    have "RDone k n to r \<in> set (mx_rd c)" using that nth_mem [of i "mx_rd c"] by (simp add: rd_at_Some)
    with inv show ?thesis by (auto simp: mx_inv_def)
  qed
  with inv show ?thesis by (auto simp: mx_inv_def value_inv_def seen_def)
qed

text \<open>
  A schedule: a \<open>Get\<close> begins before a value is set and ends after it, a snapshot is taken, the key is
  deleted, and a second \<open>Get\<close> is inside the mutex when Raft restores another map.
\<close>

lemma mx_reach_exec: "exec (mx_act E a) xs c = Some c' \<Longrightarrow> mx_reach E a c \<Longrightarrow> mx_reach E a c'"
  by (induction xs arbitrary: c) (auto split: option.splits intro: mx_reach.step)

definition set_log :: raft_log where
  "set_log = demo_log (set_cmd utc demo_t ''a'' ''1'')"

definition del_log :: raft_log where
  "del_log = demo_log (delete_cmd utc demo_t ''a'')"

definition demo_sched :: "mx_action list" where
  "demo_sched =
     [Call ''a'', CallApply set_log demo_t, FsmStep [], FsmStep [], FsmStep [],
      GetStep 0, GetStep 0, GetStep 0, GetStep 0,
      CallSnapshot, FsmStep [], FsmStep [''a''], FsmStep [], FsmStep [],
      CallApply del_log demo_t, FsmStep [], FsmStep [], FsmStep [],
      Call ''a'', GetStep 1, CallRestore (enc_list [''a'', ''2''])]"

lemma demo_ops:
  "entry_op (demo_senv utc) (st_Arg demo_store) (set_log, demo_t) = Some (KSet ''a'' ''1'')"
  "entry_op (demo_senv utc) (st_Arg demo_store) (del_log, demo_t) = Some (KDel ''a'')"
  by (simp_all add: set_log_def del_log_def demo_entry_op [OF refl] cmd_op_set [OF demo_fresh] cmd_op_delete)

lemma demo_store_m: "st_m demo_store = Map.empty"
  by (simp add: demo_store_def New_def)

lemma demo_unmap: "js_unmap demo_json (enc_list [''a'', ''2'']) = Inr [''a'' \<mapsto> ''2'']"
  by (simp add: demo_json_def dec_map_def)

lemmas mx_step_defs = get_step_def rd_at_def set_rd_def Lock_def Unlock_def call_apply_def call_restore_def fsm_step_defs

lemma demo_mx_run:
  "\<exists>c. mx_reach (demo_senv utc) (st_Arg demo_store) c \<and> rd_at 0 c = Some (RDone ''a'' 0 1 (Some ''1'')) \<and>
     mx_snaps c = [(1, 1)] \<and> mx_done c = [CApply set_log demo_t, CApply del_log demo_t] \<and>
     race c Fsm (Reader 1) AtField \<and> work c = 4 \<and>
     (\<exists>c'. exec (mx_act (demo_senv utc) (st_Arg demo_store)) [FsmStep [], GetStep 1, GetStep 1, GetStep 1] c = Some c' \<and>
       mx_rd c' = [RDone ''a'' 0 1 (Some ''1''), RDone ''a'' 2 3 (Some ''2'')])"
proof -
  let ?c = "\<lparr>mx_heap = ((\<lambda>_. Map.empty)(1 := [''a'' \<mapsto> ''1'']))(2 := [''a'' \<mapsto> ''2'']), mx_next = 3, mx_m = 0,
    mx_lock = Some (Reader 1), mx_rd = [RDone ''a'' 0 1 (Some ''1''), RInside ''a'' 2],
    mx_fsm = RDecoded 2 (enc_list [''a'', ''2'']), mx_snaps = [(1, 1)],
    mx_done = [CApply set_log demo_t, CApply del_log demo_t]\<rparr>"
  have "exec (mx_act (demo_senv utc) (st_Arg demo_store)) demo_sched mx_init = Some ?c"
    by (simp add: demo_sched_def mx_init_def mx_step_defs demo_ops demo_unmap fun_eq_iff numeral_2_eq_2 numeral_3_eq_3)
  then have reach: "mx_reach (demo_senv utc) (st_Arg demo_store) ?c" using mx_reach_exec mx_reach.init by blast
  have race: "race ?c Fsm (Reader 1) AtField" unfolding race_def by (intro conjI exI [of _ False]) (simp_all add: rd_at_def)
  have ex: "exec (mx_act (demo_senv utc) (st_Arg demo_store)) [FsmStep [], GetStep 1, GetStep 1, GetStep 1] ?c =
      Some (?c\<lparr>mx_m := 2, mx_lock := None, mx_rd := [RDone ''a'' 0 1 (Some ''1''), RDone ''a'' 2 3 (Some ''2'')],
        mx_fsm := FIdle, mx_done := mx_done ?c @ [CRestore (enc_list [''a'', ''2''])]\<rparr>)"
    by (simp add: mx_step_defs numeral_3_eq_3)
  have "rd_at 0 ?c = Some (RDone ''a'' 0 1 (Some ''1''))" "work ?c = 4" by (simp_all add: rd_at_def work_def)
  note now = reach race ex this
  obtain c where "c = ?c" by simp
  note now = now [folded this] and fields = this
  obtain c' where "exec (mx_act (demo_senv utc) (st_Arg demo_store)) [FsmStep [], GetStep 1, GetStep 1, GetStep 1] c = Some c'"
      "mx_rd c' = [RDone ''a'' 0 1 (Some ''1''), RDone ''a'' 2 3 (Some ''2'')]"
    using now(3) by simp
  moreover have "mx_snaps c = [(1, 1)]" "mx_done c = [CApply set_log demo_t, CApply del_log demo_t]"
    by (simp_all add: fields)
  ultimately show ?thesis using now(1,2,4,5) by blast
qed

theorem calls_linearizable_witness:
  "\<exists>c. mx_reach (demo_senv utc) (st_Arg demo_store) c \<and> rd_at 0 c = Some (RDone ''a'' 0 1 (Some ''1'')) \<and>
     (\<exists>j \<le> 1. Some ''1'' = Get ''a'' (do_calls (demo_senv utc) (take j (mx_done c)) demo_store))"
proof -
  obtain c where c: "mx_reach (demo_senv utc) (st_Arg demo_store) c" "rd_at 0 c = Some (RDone ''a'' 0 1 (Some ''1''))"
    using demo_mx_run by blast
  from calls_linearizable [OF c(1) demo_store_m] c show ?thesis by blast
qed

text \<open>
  C10. Snapshots are isolated: a snapshot that \<open>Snapshot\<close> has returned to Raft can be persisted at any
  later time, while the store goes on, and what is written is what a snapshot taken at that point
  of the sequence of calls holds, whatever was applied or restored since. \<open>CloneMap\<close> makes the
  clone a map of its own.
\<close>

theorem snapshots_isolated:
  assumes "mx_reach E (st_Arg s) c" "st_m s = Map.empty" "(a, n) \<in> set (mx_snaps c)"
    and "set ks = dom (st_m (do_calls E (take n (mx_done c)) s))"
  shows "n \<le> length (mx_done c) \<and>
    Persist js api \<lparr>snap_store = mx_heap c a\<rparr> sink = Persist js api (fst (Snapshot ks (do_calls E (take n (mx_done c)) s))) sink"
  using mx_reach_inv [OF assms(1,2)] assms(3,4)
  by (auto simp: mx_inv_def value_inv_def snap_ok_def Snapshot_def CloneMap_id dest!: bspec)

theorem snapshots_isolated_witness:
  "\<exists>c a. mx_reach (demo_senv utc) (st_Arg demo_store) c \<and> (a, 1) \<in> set (mx_snaps c) \<and> length (mx_done c) = 2 \<and>
     Persist demo_json demo_sink \<lparr>snap_store = mx_heap c a\<rparr> ([], False) =
       Persist demo_json demo_sink (fst (Snapshot [''a''] (do_calls (demo_senv utc) [CApply set_log demo_t] demo_store))) ([], False)"
proof -
  obtain c where c: "mx_reach (demo_senv utc) (st_Arg demo_store) c" "(1, 1) \<in> set (mx_snaps c)"
      "mx_done c = [CApply set_log demo_t, CApply del_log demo_t]"
    using demo_mx_run by auto
  have "st_m (do_calls (demo_senv utc) [CApply set_log demo_t] demo_store) = [''a'' \<mapsto> ''1'']"
    using do_call_apply [OF demo_ops(1)] by (simp add: do_calls_def demo_store_m)
  then have "set [''a''] = dom (st_m (do_calls (demo_senv utc) (take 1 (mx_done c)) demo_store))"
    by (simp add: c(3))
  from snapshots_isolated [OF c(1) demo_store_m c(2) this, of demo_json demo_sink "([], False)"] c(1,2)
  show ?thesis by (intro exI [of _ c] exI [of _ 1]) (simp add: c(3))
qed

text \<open>
  C11. The only data race: two goroutines of the store are never about to access the same Go map with
  one of them writing, so the runtime never stops the program for a concurrent map access. The
  only conflicting accesses there are concern the field \<open>s.m\<close>: \<open>Restore\<close> assigns it without the mutex
  while a handler, inside the mutex, reads it. The comment in \<open>Restore\<close> says that no lock is
  required; that is true of the calls of Raft, not of \<open>Get\<close>.
\<close>

theorem only_Restore_races:
  fixes E :: "('r, 'v) store_env" and a :: "('v, 'w) Arg"
  assumes "mx_reach E a c" "race c t u p"
  shows "p = AtField \<and> t = Fsm \<and> (\<exists>b rc. mx_fsm c = RDecoded b rc) \<and>
    (\<exists>i k n. u = Reader i \<and> rd_at i c = Some (RInside k n))"
proof -
  obtain s :: "('r, 'v, 'w) RaftStore" where inv: "mx_inv E s c" using mx_reach_some [OF assms(1)] by blast
  obtain w where acc: "t \<noteq> u" "(p, True) \<in> access c t" "(p, w) \<in> access c u" using assms(2) by (auto simp: race_def)
  have t: "t = Fsm"
    using acc(2) rd_access_reads [of p True] by (cases t) (auto split: option.splits if_splits)
  have w: "(p, True) \<in> fsm_access (mx_fsm c) (mx_m c)" using acc(2) t by simp
  show ?thesis
  proof (cases u)
    case (Reader i)
    then obtain r where r: "rd_at i c = Some r" "(p, w) \<in> rd_access r (mx_m c)"
      using acc(3) by (auto split: option.splits)
    then have "holds_rd i c" using rd_access_reads by (auto simp: holds_rd_def)
    then have out: "\<not> inside_fsm (mx_fsm c)" using mutex_exclusive(1) inv by (auto simp: mx_inv_def)
    then obtain a rc where f: "mx_fsm c = RDecoded a rc" "p = AtField" using fsm_writes [OF w] by auto
    with r(2) have "\<exists>k n. r = RInside k n" by (cases r) auto
    with f t r(1) Reader show ?thesis by auto
  next
    case (Persister j)
    then have "p = AtMap (fst (mx_snaps c ! j))" "mx_snaps c ! j \<in> set (mx_snaps c)"
      using acc(3) by (auto split: if_splits)
    then have "\<exists>q \<in> set (mx_snaps c). p = AtMap (fst q)" by blast
    then obtain q where q: "q \<in> set (mx_snaps c)" "p = AtMap (fst q)" by blast
    then have "fst q \<noteq> mx_m c" using inv by (auto simp: mx_inv_def addr_inv_def)
    with fsm_writes [OF w] q(2) obtain b ks where "mx_fsm c = SCloning b ks" "b = fst q" by auto
    then have "fst q \<notin> fst ` set (mx_snaps c)" using inv by (simp add: mx_inv_def addr_inv_def fresh_map_def)
    with q(1) show ?thesis by blast
  qed (use acc(1) t in simp)
qed

theorem only_Restore_races_witness:
  "\<exists>c. mx_reach (demo_senv utc) (st_Arg demo_store) c \<and> race c Fsm (Reader 1) AtField \<and>
     (\<exists>b rc. mx_fsm c = RDecoded b rc)"
proof -
  obtain c where c: "mx_reach (demo_senv utc) (st_Arg demo_store) c" "race c Fsm (Reader 1) AtField"
    using demo_mx_run by blast
  from only_Restore_races [OF this] c show ?thesis by blast
qed

text \<open>
  C12. No deadlock, and every call returns: from any state of the store, if no new call begins, the
  goroutines can only take a bounded number of steps, whatever the scheduler does; a schedule that
  cannot be continued has taken exactly that many, every \<open>Get\<close> has returned and Raft's goroutine is
  free. The hypothesis is that decoded maps are finite.
\<close>

theorem calls_return:
  assumes "mx_reach E a c" "finite_maps (se_js E)" "exec (mx_act E a) xs c = Some c'" "list_all carries_on xs"
  shows "length xs \<le> work c \<and>
    ((\<forall>x. carries_on x \<longrightarrow> mx_act E a x c' = None) \<longrightarrow>
      length xs = work c \<and> mx_fsm c' = FIdle \<and> (\<forall>r \<in> set (mx_rd c'). \<exists>k n to v. r = RDone k n to v))"
proof -
  obtain s where s: "mx_inv E s c" "st_Arg s = a" "st_m s = Map.empty" using mx_reach_some [OF assms(1)] by blast
  have w: "length xs + work c' = work c" "mx_inv E s c'"
    using exec_work [OF _ assms(4) s(1), of c'] assms(3) s(2) by auto
  have "finite (dom (mx_heap c' (mx_m c')))"
    using w(2) do_calls_finite [OF assms(2), of s] s(3) by (simp add: mx_inv_def value_inv_def)
  from can_carry_on [OF w(2) this, of a]
  have stuck: "work c' = 0" if "\<forall>x. carries_on x \<longrightarrow> mx_act E a x c' = None" using that by fastforce
  have "mx_fsm c' = FIdle \<and> (\<forall>r \<in> set (mx_rd c'). \<exists>k n to v. r = RDone k n to v)" if "work c' = 0"
  proof
    show "mx_fsm c' = FIdle" using that by (cases "mx_fsm c'") (auto simp: work_def)
    have "work_rd r = 0" if "r \<in> set (mx_rd c')" for r using \<open>work c' = 0\<close> that by (simp add: work_def)
    then show "\<forall>r \<in> set (mx_rd c'). \<exists>k n to v. r = RDone k n to v"
      by (meson work_rd_0)
  qed
  with w(1) stuck show ?thesis by auto
qed

lemma demo_finite_maps: "finite_maps (se_js (demo_senv utc))"
  by (auto simp: finite_maps_def demo_json_def dec_map_def finite_dom_map_of)

theorem calls_return_witness:
  "\<exists>c c'. mx_reach (demo_senv utc) (st_Arg demo_store) c \<and> work c = 4 \<and>
     exec (mx_act (demo_senv utc) (st_Arg demo_store)) [FsmStep [], GetStep 1, GetStep 1, GetStep 1] c = Some c' \<and>
     length [FsmStep [], GetStep 1, GetStep 1, GetStep 1] \<le> work c"
proof -
  obtain c c' where c: "mx_reach (demo_senv utc) (st_Arg demo_store) c" "work c = 4"
      "exec (mx_act (demo_senv utc) (st_Arg demo_store)) [FsmStep [], GetStep 1, GetStep 1, GetStep 1] c = Some c'"
    using demo_mx_run by blast
  have "list_all carries_on [FsmStep [], GetStep 1, GetStep 1, GetStep 1]" by simp
  from calls_return [OF c(1) demo_finite_maps c(3) this] c show ?thesis by blast
qed

end
