(* ===== verification/Distributor_Runs.thy ===== *)
theory Distributor_Runs
  imports Distributor
begin

text \<open>
  The distributor over a sequence of calls, as its user makes them: from time to time with the items of
  the moment and the peers that are alive at the moment. Peers join, leave and come back, items
  appear and disappear; the sticky map is what one call leaves to the next.
\<close>

section \<open>Rounds\<close>

text \<open>A round: the peers and the items. The receiver of the caller records the node and the item.\<close>

type_synonym 'i round = "Peer list \<times> 'i list"

definition round_call ::
    "(go_type \<Rightarrow> string \<Rightarrow> bool) \<Rightarrow> ('i \<Rightarrow> string) \<Rightarrow> go_type \<Rightarrow> go_type \<Rightarrow> 'i round \<Rightarrow> Distributor \<Rightarrow>
     (NodeID \<times> 'i) list outcome \<times> Distributor" where
  "round_call implements ident e recv r d =
     Distribute implements ident (\<lambda>_. Pair) (fst r) (Some (TSlice e, snd r)) (Some recv) d"

fun rounds ::
    "('i round \<Rightarrow> Distributor \<Rightarrow> 'o \<times> Distributor) \<Rightarrow> 'i round list \<Rightarrow> Distributor \<Rightarrow> 'o list \<times> Distributor" where
  "rounds f [] d = ([], d)"
| "rounds f (r # rs) d =
     (case f r d of (out, d') \<Rightarrow> case rounds f rs d' of (outs, d'') \<Rightarrow> (out # outs, d''))"

lemma length_rounds [simp]: "length (fst (rounds f rs d)) = length rs"
  by (induction rs arbitrary: d) (simp_all add: case_prod_beta)

lemma rounds_nth:
  "q < length rs \<Longrightarrow> fst (rounds f rs d) ! q = fst (f (rs ! q) (snd (rounds f (take q rs) d)))"
proof (induction rs arbitrary: q d)
  case (Cons r rs)
  then show ?case by (cases q) (simp_all add: case_prod_beta)
qed simp

lemma rounds_snoc: "snd (rounds f (rs @ [r]) d) = snd (f r (snd (rounds f rs d)))"
  by (induction rs arbitrary: d) (simp_all add: case_prod_beta)

lemma rounds_take_Suc:
  "j < length rs \<Longrightarrow> snd (rounds f (take (Suc j) rs) d) = snd (f (rs ! j) (snd (rounds f (take j rs) d)))"
  by (simp add: take_Suc_conv_app_nth rounds_snoc)

text \<open>Rounds as they should be: some peers, all with an ID, and items with IDs of their own.\<close>

definition good_round :: "('i \<Rightarrow> string) \<Rightarrow> 'i round \<Rightarrow> bool" where
  "good_round ident r \<longleftrightarrow> fst r \<noteq> [] \<and> [] \<notin> peer_IDs (fst r) \<and> distinct (map ident (snd r))"

definition types_ok :: "(go_type \<Rightarrow> string \<Rightarrow> bool) \<Rightarrow> go_type \<Rightarrow> go_type \<Rightarrow> bool" where
  "types_ok implements e recv \<longleftrightarrow> implements e ''Identifier'' \<and> (\<exists>rt. checkReceiverType implements (Some recv) = Ret rt)"

section \<open>One round\<close>

lemma round_call_eq:
  assumes "types_ok implements e recv" "good_round ident r"
  shows "round_call implements ident e recv r d =
    (Ret (distribute_asg ident (fst r) (snd r) d), distribute_state ident (fst r) (snd r) d)"
proof -
  obtain rt where "checkReceiverType implements (Some recv) = Ret rt" using assms(1) by (auto simp: types_ok_def)
  moreover have "checkDataType implements (Some (TSlice e, snd r)) = Ret (snd r)"
    using assms(1) by (simp add: types_ok_def checkDataType_def)
  ultimately show ?thesis
    using assms(2) Distribute_eq [of implements "Some recv" rt "Some (TSlice e, snd r)" "snd r" "fst r" ident "\<lambda>_. Pair" d]
    by (simp add: round_call_def distribute_state_def good_round_def)
qed

text \<open>What a round hands out is recorded; a record whose node is a peer is kept, and followed.\<close>

lemma round_records:
  assumes "good_round ident r" "(n, i) \<in> set (distribute_asg ident (fst r) (snd r) d)"
  shows "sticky_get (distribute_state ident (fst r) (snd r) d) (ident i) = n \<and> n \<in> peer_IDs (fst r)"
  using assms distribute_asg_state [of ident "snd r" "fst r" n i d] distribute_asg_peers [of ident "fst r" "snd r" d]
  by (force simp: good_round_def)

lemma round_keeps:
  assumes "good_round ident r" "sticky_get d x = n" "n \<noteq> []" "n \<in> peer_IDs (fst r)"
  shows "sticky_get (distribute_state ident (fst r) (snd r) d) x = n"
proof -
  let ?new = "distribute_new ident (fst r) (snd r) d"
  have x: "sticky_get (cleanKeysNotIn (fst r) d) x = n" using assms(2-4) by (simp add: sticky_get_clean)
  have "x \<notin> ident ` snd ` set ?new"
  proof
    assume "x \<in> ident ` snd ` set ?new"
    then obtain i where i: "x = ident i" "i \<in> set (map snd ?new)" by auto
    have "fst r \<noteq> []" using assms(1) by (simp add: good_round_def)
    from i(2) have "\<not> is_sticky ident (cleanKeysNotIn (fst r) d) i"
      unfolding distribute_new_items [OF \<open>fst r \<noteq> []\<close>] by simp
    with x i(1) assms(3) show False by simp
  qed
  from sticky_get_put_all_other [OF this] x show ?thesis by (simp add: distribute_state_def)
qed

lemma round_follows:
  assumes "sticky_get d (ident i) = n" "n \<noteq> []" "n \<in> peer_IDs (fst r)" "i \<in> set (snd r)"
  shows "(n, i) \<in> set (distribute_asg ident (fst r) (snd r) d)"
proof -
  have "sticky_get (cleanKeysNotIn (fst r) d) (ident i) = n" using assms(1-3) by (simp add: sticky_get_clean)
  with assms(2,4) show ?thesis by (auto simp: distribute_asg_def sticky_asg_def)
qed

text \<open>The assignments of a round are what is recorded after it; with all records kept, also before it.\<close>

lemma round_asg:
  assumes "good_round ident r"
  shows "mset (distribute_asg ident (fst r) (snd r) d) =
    image_mset (\<lambda>i. (sticky_get (distribute_state ident (fst r) (snd r) d) (ident i), i)) (mset (snd r))"
proof -
  let ?asg = "distribute_asg ident (fst r) (snd r) d"
  let ?g = "\<lambda>i. (sticky_get (distribute_state ident (fst r) (snd r) d) (ident i), i)"
  have id: "map (?g \<circ> snd) ?asg = ?asg"
  proof (rule map_idI)
    fix a assume a: "a \<in> set ?asg"
    obtain n i where ni: "a = (n, i)" by fastforce
    from round_records [OF assms a [unfolded ni]] show "(?g \<circ> snd) a = a" unfolding ni comp_apply snd_conv by blast
  qed
  have "mset ?asg = image_mset ?g (mset (map snd ?asg))"
    by (subst id [symmetric]) (simp only: mset_map list.map_comp multiset.map_comp)
  also have "mset (map snd ?asg) = mset (snd r)" using assms by (intro mset_distribute_asg) (simp add: good_round_def)
  finally show ?thesis .
qed

lemma round_all_kept:
  assumes "good_round ident r" "\<forall>i \<in> set (snd r). sticky_get d (ident i) \<in> peer_IDs (fst r)"
  shows "distribute_asg ident (fst r) (snd r) d = map (\<lambda>i. (sticky_get d (ident i), i)) (snd r)"
proof -
  have "sticky_get (cleanKeysNotIn (fst r) d) (ident i) = sticky_get d (ident i) \<and> sticky_get d (ident i) \<noteq> []"
    if "i \<in> set (snd r)" for i
    using assms that by (auto simp: sticky_get_clean good_round_def simp del: image_iff) (metis (no_types))+
  then show ?thesis
    by (simp add: distribute_asg_def sticky_asg_def distribute_new_def Let_def filter_id_conv filter_empty_conv)
qed

section \<open>Many rounds\<close>

definition state_at ::
    "('i round \<Rightarrow> Distributor \<Rightarrow> 'o \<times> Distributor) \<Rightarrow> 'i round list \<Rightarrow> nat \<Rightarrow> Distributor \<Rightarrow> Distributor" where
  "state_at f rs j d = snd (rounds f (take j rs) d)"

lemma rounds_out:
  assumes "types_ok implements e recv" "\<forall>r \<in> set rs. good_round ident r" "q < length rs"
  shows "fst (rounds (round_call implements ident e recv) rs d) ! q =
    Ret (distribute_asg ident (fst (rs ! q)) (snd (rs ! q)) (state_at (round_call implements ident e recv) rs q d))"
  using assms round_call_eq [of implements e recv ident "rs ! q"] by (simp add: rounds_nth state_at_def)

lemma state_at_Suc:
  assumes "types_ok implements e recv" "\<forall>r \<in> set rs. good_round ident r" "j < length rs"
  shows "state_at (round_call implements ident e recv) rs (Suc j) d =
    distribute_state ident (fst (rs ! j)) (snd (rs ! j)) (state_at (round_call implements ident e recv) rs j d)"
  using assms round_call_eq [of implements e recv ident "rs ! j"] by (simp add: state_at_def rounds_take_Suc)

text \<open>A record lasts as long as its node is a peer.\<close>

lemma record_lasts:
  assumes "types_ok implements e recv" "\<forall>r \<in> set rs. good_round ident r" "p \<le> q" "q \<le> length rs"
    and "sticky_get (state_at (round_call implements ident e recv) rs p d) x = n" "n \<noteq> []"
    and "\<And>j. p \<le> j \<Longrightarrow> j < q \<Longrightarrow> n \<in> peer_IDs (fst (rs ! j))"
  shows "sticky_get (state_at (round_call implements ident e recv) rs q d) x = n"
  using assms(3,4,7)
proof (induction q rule: dec_induct)
  case (step j)
  then have "sticky_get (state_at (round_call implements ident e recv) rs j d) x = n" by simp
  with round_keeps [of ident "rs ! j" _ x n] step.hyps step.prems assms(2,6) state_at_Suc [OF assms(1,2), of j d]
  show ?case by simp
qed (simp add: assms(5))

text \<open>What a round handed out is what its successor finds recorded, and what a later round still finds.\<close>

lemma handed_lasts:
  assumes "types_ok implements e recv" "\<forall>r \<in> set rs. good_round ident r" "p < q" "q < length rs"
    and "fst (rounds (round_call implements ident e recv) rs d) ! p = Ret asg" "(n, i) \<in> set asg"
    and "\<And>j. p \<le> j \<Longrightarrow> j \<le> q \<Longrightarrow> n \<in> peer_IDs (fst (rs ! j))"
  shows "sticky_get (state_at (round_call implements ident e recv) rs q d) (ident i) = n \<and> n \<noteq> []"
proof -
  let ?f = "round_call implements ident e recv"
  have len: "p < length rs" using assms(3,4) by simp
  have good: "good_round ident (rs ! p)" using assms(2) len by simp
  have "asg = distribute_asg ident (fst (rs ! p)) (snd (rs ! p)) (state_at ?f rs p d)"
    using assms(5) rounds_out [OF assms(1,2) len, of d] by simp
  then have "sticky_get (state_at ?f rs (Suc p) d) (ident i) = n" "n \<noteq> []"
    using round_records [OF good] assms(6) good state_at_Suc [OF assms(1,2) len, of d] by (auto simp: good_round_def)
  with record_lasts [OF assms(1,2), of "Suc p" q d "ident i" n] assms(3,4,7) show ?thesis by simp
qed

lemma nothing_moves:
  assumes "types_ok implements e recv" "\<forall>r \<in> set rs. good_round ident r" "p < q" "q < length rs"
    and "fst (rounds (round_call implements ident e recv) rs d) ! p = Ret asg" "snd (rs ! q) = snd (rs ! p)"
    and stay: "\<And>j. p \<le> j \<Longrightarrow> j \<le> q \<Longrightarrow> peer_IDs (fst (rs ! p)) \<subseteq> peer_IDs (fst (rs ! j))"
  shows "mset (distribute_asg ident (fst (rs ! q)) (snd (rs ! q))
    (state_at (round_call implements ident e recv) rs q d)) = mset asg"
proof -
  let ?f = "round_call implements ident e recv" and ?P = "fst (rs ! q)" and ?I = "snd (rs ! q)"
  let ?s = "state_at ?f rs q d" and ?s1 = "state_at ?f rs (Suc p) d"
  have len: "p < length rs" using assms(3,4) by simp
  have good: "good_round ident (rs ! p)" "good_round ident (rs ! q)" using assms(2,4) len by simp_all
  have asg: "asg = distribute_asg ident (fst (rs ! p)) (snd (rs ! p)) (state_at ?f rs p d)"
    using assms(5) rounds_out [OF assms(1,2) len, of d] by simp
  have asg_map: "mset asg = image_mset (\<lambda>i. (sticky_get ?s1 (ident i), i)) (mset ?I)"
    using round_asg [OF good(1), of "state_at ?f rs p d"] state_at_Suc [OF assms(1,2) len, of d] by (simp add: asg assms(6))
  have all: "sticky_get ?s (ident i) = sticky_get ?s1 (ident i) \<and> sticky_get ?s (ident i) \<in> peer_IDs ?P"
    if "i \<in> set ?I" for i
  proof -
    have "(sticky_get ?s1 (ident i), i) \<in># mset asg" using that by (simp add: asg_map)
    then have a: "(sticky_get ?s1 (ident i), i) \<in> set asg" by simp
    then have "sticky_get ?s1 (ident i) \<in> peer_IDs (fst (rs ! p))"
      using round_records [OF good(1), of "sticky_get ?s1 (ident i)" i "state_at ?f rs p d"] by (simp add: asg)
    then have n: "sticky_get ?s1 (ident i) \<in> peer_IDs (fst (rs ! j))" if "p \<le> j" "j \<le> q" for j
      using stay [OF that] by blast
    from handed_lasts [OF assms(1-5) a n] n [of q] assms(3) show ?thesis by simp
  qed
  have "image_mset (\<lambda>i. (sticky_get ?s (ident i), i)) (mset ?I) = mset asg"
    unfolding asg_map by (rule image_mset_cong) (simp add: all)
  moreover have "\<forall>i \<in> set ?I. sticky_get ?s (ident i) \<in> peer_IDs ?P" using all by blast
  ultimately show ?thesis by (simp add: round_all_kept [OF good(2)])
qed

section \<open>Properties\<close>

text \<open>
  C22. An item moves only when its node has left. Over any sequence of calls, with peers and items that
  change from call to call: once an item is handed to a node, every later call whose data has the
  item hands it to the same node, and to no other, as long as the node has been among the peers
  of every call since, whatever happened to the quotas and to the item in between. In
  particular nothing is rebalanced: when all the nodes of a round are still there, a later round
  with the same items hands out the same assignment, and a peer that has joined gets nothing.
\<close>

theorem moves_only_when_left:
  assumes "types_ok implements e recv" "\<forall>r \<in> set rs. good_round ident r" "p < q" "q < length rs"
    and "fst (rounds (round_call implements ident e recv) rs d) ! p = Ret asg"
  shows "\<exists>asg'. fst (rounds (round_call implements ident e recv) rs d) ! q = Ret asg' \<and>
    (\<forall>n i i'. (n, i) \<in> set asg \<longrightarrow> ident i' = ident i \<longrightarrow> i' \<in> set (snd (rs ! q)) \<longrightarrow>
       (\<forall>j. p \<le> j \<and> j \<le> q \<longrightarrow> n \<in> peer_IDs (fst (rs ! j))) \<longrightarrow>
       (n, i') \<in> set asg' \<and> (\<forall>m. (m, i') \<in> set asg' \<longrightarrow> m = n)) \<and>
    (snd (rs ! q) = snd (rs ! p) \<longrightarrow>
       (\<forall>j. p \<le> j \<and> j \<le> q \<longrightarrow> peer_IDs (fst (rs ! p)) \<subseteq> peer_IDs (fst (rs ! j))) \<longrightarrow> mset asg' = mset asg)"
proof -
  let ?f = "round_call implements ident e recv" and ?P = "fst (rs ! q)" and ?I = "snd (rs ! q)"
  let ?s = "state_at ?f rs q d"
  have good: "good_round ident (rs ! q)" using assms(2,4) by simp
  have keep: "(n, i') \<in> set (distribute_asg ident ?P ?I ?s) \<and> (\<forall>m. (m, i') \<in> set (distribute_asg ident ?P ?I ?s) \<longrightarrow> m = n)"
    if "(n, i) \<in> set asg" "ident i' = ident i" "i' \<in> set ?I"
      "\<And>j. p \<le> j \<Longrightarrow> j \<le> q \<Longrightarrow> n \<in> peer_IDs (fst (rs ! j))" for n i i'
  proof -
    have n: "sticky_get ?s (ident i') = n" "n \<noteq> []" "n \<in> peer_IDs ?P"
      using handed_lasts [OF assms that(1,4)] that(2) that(4) [of q] assms(3) by simp_all
    have "m = n" if "(m, i') \<in> set (distribute_asg ident ?P ?I ?s)" for m
      using round_records [OF good that] round_keeps [OF good n] by simp
    with round_follows [of ?s ident i' n "rs ! q"] n that(3) show ?thesis by blast
  qed
  show ?thesis using rounds_out [OF assms(1,2,4), of d] keep nothing_moves [OF assms] by blast
qed

text \<open>Three rounds: a peer leaves, and another one comes.\<close>

definition demo_rounds :: "string round list" where
  "demo_rounds =
     [(demo_peers, [''a'', ''b'', ''c'']),
      (filter (\<lambda>p. peer_ID p \<noteq> ''3'') demo_peers, [''a'', ''c'']),
      (zero_Peer\<lparr>peer_ID := ''4''\<rparr> # demo_peers, [''c'', ''b'', ''a''])]"

lemma demo_rounds_good: "\<forall>r \<in> set demo_rounds. good_round (\<lambda>i. i) r"
  by (auto simp: demo_rounds_def good_round_def demo_peers_def zero_Peer_def)

theorem moves_only_when_left_witness:
  "\<exists>asg asg'. fst (rounds (round_call (\<lambda>_ _. True) (\<lambda>i. i) (TNamed ''dataItem'') (TNamed ''dataItemWrap'')) demo_rounds NewDistributor) ! 2 =
      Ret asg' \<and> (''2'', ''b'') \<in> set asg'"
proof -
  let ?f = "round_call (\<lambda>_ _. True) (\<lambda>i. i) (TNamed ''dataItem'') (TNamed ''dataItemWrap'')"
  have types: "types_ok (\<lambda>_ _. True) (TNamed ''dataItem'') (TNamed ''dataItemWrap'')"
    by (simp add: types_ok_def checkReceiverType_def)
  have len: "0 < length demo_rounds" by (simp add: demo_rounds_def)
  have "fst (?f (demo_peers, [''a'', ''b'', ''c'']) NewDistributor) = Ret [(''1'', ''a''), (''2'', ''b''), (''3'', ''c'')]"
    by (simp add: round_call_def Distribute_def checkReceiverType_def checkDataType_def demo_peers_def
        NewDistributor_def cleanKeysNotIn_def makePeersMap_def sticky_get_def Put_def zero_Peer_def Let_def upt_rec)
  then have first: "fst (rounds ?f demo_rounds NewDistributor) ! 0 = Ret [(''1'', ''a''), (''2'', ''b''), (''3'', ''c'')]"
    unfolding rounds_nth [OF len] by (simp only: take_0 rounds.simps snd_conv) (simp only: demo_rounds_def nth_Cons_0)
  have "\<forall>j. 0 \<le> j \<and> j \<le> 2 \<longrightarrow> ''2'' \<in> peer_IDs (fst (demo_rounds ! j))"
    by (auto simp: demo_rounds_def demo_peers_def zero_Peer_def le_Suc_eq numeral_2_eq_2 image_iff)
  moreover have b: "''b'' \<in> set (snd (demo_rounds ! 2))" "2 < length demo_rounds" by (simp_all add: demo_rounds_def)
  moreover have "(''2'', ''b'') \<in> set [(''1'', ''a''), (''2'', ''b''), (''3'', ''c'')]" by simp
  ultimately show ?thesis
    using moves_only_when_left [OF types demo_rounds_good _ b(2) first] by (metis zero_less_numeral)
qed

end
