(* ===== verification/Http_Server.thy ===== *)
theory Http_Server
  imports Startup
begin

text \<open>
  The goroutine that serves HTTP (\<open>GoStartHTTP\<close> of \<open>service.go\<close>), the listener with \<open>Close\<close> and \<open>Addr\<close>,
  and the process around it, which waits for an interrupt (\<open>WaitInterrupt\<close> of \<open>util.go\<close>). Of \<open>net/http\<close> the
  code uses that \<open>http.Handle\<close> panics when the pattern is registered already, that \<open>Serve\<close> returns, with
  an error, only when the listener fails for good, and that it goes on after a temporary error and
  after a handler that panicked. A panic on a goroutine ends the process.
\<close>

section \<open>The listener\<close>

record listener =
  ln_Addr :: string
  ln_closed :: bool

definition err_closed :: go_error where
  "err_closed = Err ''use of closed network connection''"

text \<open>\<open>Ln\<close> is nil before \<open>GoStartHTTP\<close> has opened it.\<close>

definition svc_Close :: "listener option \<Rightarrow> go_error option outcome \<times> listener option" where
  "svc_Close ln =
     (case ln of
        None \<Rightarrow> (Panic nil_panic, None)
      | Some l \<Rightarrow> (Ret (if ln_closed l then Some err_closed else None), Some (l\<lparr>ln_closed := True\<rparr>)))"

definition svc_Addr :: "listener option \<Rightarrow> string outcome" where
  "svc_Addr ln = (case ln of None \<Rightarrow> Panic nil_panic | Some l \<Rightarrow> Ret (ln_Addr l))"

section \<open>Serving\<close>

text \<open>
  What happens to the process: a request arrives, accepting fails for a moment or for good, the program
  calls \<open>Close\<close>, the user interrupts it.
\<close>

datatype ('w, 'j) net_event =
    Incoming "('w, 'j) svc_env" "string \<Rightarrow> int" http_request
  | Temporary
  | Broken go_error
  | CallClose
  | Interrupt

text \<open>\<open>http.Handle\<close> on the multiplexer that belongs to the process.\<close>

definition http_Handle :: "string \<Rightarrow> string set \<Rightarrow> string set outcome" where
  "http_Handle pattern mux =
     (if pattern \<in> mux then Panic (''http: multiple registrations for '' @ pattern) else Ret (insert pattern mux))"

text \<open>\<open>server.Serve\<close>: the error it returned, if it did, and the service after the events.\<close>

fun Serve ::
    "('r, 'v) store_env \<Rightarrow> ('w, 'j) net_event list \<Rightarrow> listener \<Rightarrow> ('r, 'v, 'w) Service \<Rightarrow>
     go_error option \<times> ('r, 'v, 'w) Service" where
  "Serve E [] l s = (None, s)"
| "Serve E (Incoming V clk rq # evs) l s =
     (if ln_closed l then (Some err_closed, s)
      else Serve E evs l (fst (snd (ServeHTTP E V clk rq (s, new_response)))))"
| "Serve E (Temporary # evs) l s = Serve E evs l s"
| "Serve E (Broken err # evs) l s = (Some err, s)"
| "Serve E (CallClose # evs) l s =
     (case svc_Close (Some l) of (_, Some l') \<Rightarrow> (Some err_closed, s) | (_, None) \<Rightarrow> (None, s))"
| "Serve E (Interrupt # evs) l s = Serve E evs l s"

text \<open>The goroutine: \<^term>\<open>None\<close> while it serves.\<close>

definition http_goroutine ::
    "('r, 'v) store_env \<Rightarrow> string set \<Rightarrow> ('w, 'j) net_event list \<Rightarrow> listener \<Rightarrow> ('r, 'v, 'w) Service \<Rightarrow>
     unit outcome option \<times> ('r, 'v, 'w) Service" where
  "http_goroutine E mux evs l s =
     (case http_Handle ''/'' mux of
        Panic msg \<Rightarrow> (Some (Panic msg), s)
      | Ret mux' \<Rightarrow>
          (case Serve E evs l s of
             (None, s') \<Rightarrow> (None, s')
           | (Some err, s') \<Rightarrow> (Some (Panic (''HTTP serve: '' @ err_Error err)), s')))"

text \<open>\<open>WaitInterrupt\<close>: what has happened when it returns; \<^term>\<open>None\<close> while it waits.\<close>

fun WaitInterrupt :: "('w, 'j) net_event list \<Rightarrow> ('w, 'j) net_event list option" where
  "WaitInterrupt [] = None"
| "WaitInterrupt (Interrupt # evs) = Some []"
| "WaitInterrupt (ev # evs) = map_option (Cons ev) (WaitInterrupt evs)"

text \<open>The process: it runs, \<open>main\<close> has returned after an interrupt, or a panic ended it.\<close>

datatype process = Runs | Exits | Crashes string

definition run_process ::
    "('r, 'v) store_env \<Rightarrow> string set \<Rightarrow> ('w, 'j) net_event list \<Rightarrow> listener \<Rightarrow> ('r, 'v, 'w) Service \<Rightarrow> process" where
  "run_process E mux evs l s =
     (case WaitInterrupt evs of
        None \<Rightarrow> (case http_goroutine E mux evs l s of (Some (Panic msg), _) \<Rightarrow> Crashes msg | _ \<Rightarrow> Runs)
      | Some before \<Rightarrow> (case http_goroutine E mux before l s of (Some (Panic msg), _) \<Rightarrow> Crashes msg | _ \<Rightarrow> Exits))"

section \<open>Properties\<close>

text \<open>The events up to the first one that ends \<open>Serve\<close>.\<close>

fun ends_Serve :: "('w, 'j) net_event \<Rightarrow> go_error option" where
  "ends_Serve (Broken err) = Some err"
| "ends_Serve CallClose = Some err_closed"
| "ends_Serve _ = None"

lemma Serve_ends:
  "\<not> ln_closed l \<Longrightarrow> fst (Serve E evs l s) = Option.bind (find (\<lambda>ev. ends_Serve ev \<noteq> None) evs) ends_Serve"
  by (induction E evs l s rule: Serve.induct) (simp_all add: svc_Close_def)

lemma WaitInterrupt_takeWhile:
  "WaitInterrupt evs = (if Interrupt \<in> set evs then Some (takeWhile (\<lambda>ev. ev \<noteq> Interrupt) evs) else None)"
  by (induction evs rule: WaitInterrupt.induct) auto

lemma run_process_eq:
  assumes "''/'' \<notin> mux" "\<not> ln_closed l"
  shows "run_process E mux evs l s =
    (case Option.bind (find (\<lambda>ev. ends_Serve ev \<noteq> None) (takeWhile (\<lambda>ev. ev \<noteq> Interrupt) evs)) ends_Serve of
       Some err \<Rightarrow> Crashes (''HTTP serve: '' @ err_Error err)
     | None \<Rightarrow> if Interrupt \<in> set evs then Exits else Runs)"
proof -
  have ends: "(case http_goroutine E mux evs' l s of (Some (Panic msg), _) \<Rightarrow> Crashes msg | _ \<Rightarrow> x) =
      (case Option.bind (find (\<lambda>ev. ends_Serve ev \<noteq> None) evs') ends_Serve of
         Some err \<Rightarrow> Crashes (''HTTP serve: '' @ err_Error err) | None \<Rightarrow> x)" for evs' and x
    using assms Serve_ends [of l E evs' s]
    by (cases "Serve E evs' l s") (auto simp: http_goroutine_def http_Handle_def split: option.splits)
  show ?thesis
  proof (cases "Interrupt \<in> set evs")
    case False
    then have "takeWhile (\<lambda>ev. ev \<noteq> Interrupt) evs = evs" by (subst takeWhile_eq_all_conv) auto
    with False show ?thesis by (simp only: run_process_def WaitInterrupt_takeWhile ends if_False option.case)
  qed (simp add: run_process_def WaitInterrupt_takeWhile ends)
qed

lemma first_end:
  "(case Option.bind (find (\<lambda>ev. ends_Serve ev \<noteq> None) (takeWhile (\<lambda>ev. ev \<noteq> Interrupt) evs)) ends_Serve of
      Some err \<Rightarrow> Crashes (''HTTP serve: '' @ err_Error err)
    | None \<Rightarrow> if Interrupt \<in> set evs then Exits else Runs) =
   (case find (\<lambda>ev. ends_Serve ev \<noteq> None \<or> ev = Interrupt) evs of
      None \<Rightarrow> Runs
    | Some Interrupt \<Rightarrow> Exits
    | Some (Broken err) \<Rightarrow> Crashes (''HTTP serve: '' @ err_Error err)
    | Some _ \<Rightarrow> Crashes ''HTTP serve: use of closed network connection'')"
proof (induction evs)
  case (Cons ev evs)
  then show ?case by (cases ev) (simp_all add: err_closed_def cong: option.case_cong split del: if_split)
qed simp

text \<open>
  C35. The goroutine that serves HTTP can only end in a panic that takes the process with it. A process
  that is not interrupted first crashes as soon as its listener fails for good, and equally when
  the program itself calls \<open>Close\<close> on its service: \<open>Serve\<close> returns an error then too, and the code does
  not tell this error from others. A second service started in the same process crashes it before
  it has served a request, as both register the pattern \<open>/\<close> on the multiplexer of the process. As long
  as neither happens, the process serves until it is interrupted, whatever the handlers do.
\<close>

theorem serving_ends_in_panic:
  assumes "\<not> ln_closed l"
  shows "run_process E mux evs l s =
    (if ''/'' \<in> mux then Crashes ''http: multiple registrations for /''
     else case find (\<lambda>ev. ends_Serve ev \<noteq> None \<or> ev = Interrupt) evs of
         None \<Rightarrow> Runs
       | Some Interrupt \<Rightarrow> Exits
       | Some (Broken err) \<Rightarrow> Crashes (''HTTP serve: '' @ err_Error err)
       | Some _ \<Rightarrow> Crashes ''HTTP serve: use of closed network connection'')"
proof (cases "''/'' \<in> mux")
  case True
  then show ?thesis by (simp add: run_process_def http_goroutine_def http_Handle_def split: option.splits)
next
  case False
  then show ?thesis by (simp only: run_process_eq [OF False assms] first_end if_False)
qed

theorem serving_ends_in_panic_witness:
  "\<forall>E s. run_process E {} [Temporary, CallClose, Interrupt] \<lparr>ln_Addr = ''[::]:11000'', ln_closed = False\<rparr> s =
     Crashes ''HTTP serve: use of closed network connection'' \<and>
   run_process E {} [Temporary, Interrupt, CallClose] \<lparr>ln_Addr = ''[::]:11000'', ln_closed = False\<rparr> s = Exits \<and>
   run_process E {''/''} [Temporary] \<lparr>ln_Addr = ''[::]:11000'', ln_closed = False\<rparr> s =
     Crashes ''http: multiple registrations for /''"
  by (simp add: serving_ends_in_panic)

end
