(* ===== verification/Body_Helpers.thy ===== *)
theory Body_Helpers
  imports Service
begin

text \<open>
  The helpers of \<open>util.go\<close> that read a body and encode a value. Both drop the error of the library:
  a body that breaks off looks like a shorter one, and a value that cannot be encoded like
  the empty text. \<open>parseRSP\<close> of \<open>http.go\<close> and \<open>WriteAsJSON\<close> are built on them; the theories above them see the text
  they give.
\<close>

section \<open>Reading\<close>

text \<open>A reader: the pieces that arrive, and the error after them unless the body ends there.\<close>

record reader =
  rd_pieces :: "string list"
  rd_Err :: "go_error option"
  rd_Closed :: bool

fun ReadFrom :: "string list \<Rightarrow> go_error option \<Rightarrow> string \<Rightarrow> string \<times> go_error option" where
  "ReadFrom [] err buf = (buf, err)"
| "ReadFrom (p # ps) err buf = ReadFrom ps err (buf @ p)"

definition ReadBytes :: "reader \<Rightarrow> string \<times> reader" where
  "ReadBytes r = (case ReadFrom (rd_pieces r) (rd_Err r) [] of (buf, _) \<Rightarrow> (buf, r\<lparr>rd_pieces := [], rd_Closed := True\<rparr>))"

definition ReadString :: "reader \<Rightarrow> string \<times> reader" where
  "ReadString r = ReadBytes r"

section \<open>Encoding\<close>

text \<open>The library, \<open>jsoniter\<close>, is the argument; next to an error it returns the empty text (\<open>nil\<close> for bytes).\<close>

definition Jsonify :: "('a \<Rightarrow> go_error + string) \<Rightarrow> 'a \<Rightarrow> string" where
  "Jsonify marshal v = (case marshal v of Inl _ \<Rightarrow> [] | Inr b \<Rightarrow> b)"

definition JsonifyBytes :: "('a \<Rightarrow> go_error + string) \<Rightarrow> 'a \<Rightarrow> string" where
  "JsonifyBytes marshal v = (case marshal v of Inl _ \<Rightarrow> [] | Inr b \<Rightarrow> b)"

section \<open>What is lost\<close>

lemma ReadFrom_eq: "ReadFrom ps err buf = (buf @ concat ps, err)"
  by (induction ps err buf rule: ReadFrom.induct) simp_all

text \<open>However the body is cut into pieces, and whether it ends or breaks off, the text is what arrived.\<close>

lemma ReadString_eq: "ReadString r = (concat (rd_pieces r), r\<lparr>rd_pieces := [], rd_Closed := True\<rparr>)"
  by (simp add: ReadString_def ReadBytes_def ReadFrom_eq)

text \<open>An answer that breaks off is decoded like a complete answer of the part that arrived.\<close>

lemma cut_answer:
  assumes "concat ps = concat qs"
  shows "parseRSP dec (code, fst (ReadString \<lparr>rd_pieces = ps, rd_Err = Some err, rd_Closed = False\<rparr>)) =
    parseRSP dec (code, fst (ReadString \<lparr>rd_pieces = qs, rd_Err = None, rd_Closed = False\<rparr>))"
  using assms by (simp add: parseRSP_def ReadString_eq)

text \<open>A handler that answers with a value that cannot be encoded answers with status 200 and no body.\<close>

lemma unencodable_answer:
  assumes "marshal v = Inl err"
  shows "rs_Body (WriteAsJSON (JsonifyBytes marshal v) new_response) = [] \<and>
    status_of (WriteAsJSON (JsonifyBytes marshal v) new_response) = 200"
  using assms by (simp add: JsonifyBytes_def WriteAsJSON_def Write_def new_response_def status_of_def)

end
