(* ===== verification/Member_Changes.thy ===== *)
theory Member_Changes
  imports Store_Members
begin

text \<open>
  Joins and removals that overlap. Each request runs on a goroutine of its own, and \<open>Join\<close> and \<open>Remove\<close> of
  \<open>store.go\<close> take no lock: \<open>Join\<close> reads the configuration once, goes over what it read, calls Raft for each server
  in its way, then \<open>AddVoter\<close>, and at the end reads the configuration again and writes the peers file. Here each
  call of Raft and the write are one step, and any number of calls take their steps in any order.

  Changes that do not concern the same servers go through as if each were alone. Others need not: a
  join that works on an outdated configuration can remove a server that has just been let in, and
  the peers file can be left without a server.
\<close>

section \<open>The calls\<close>

datatype change = Join_of NodeID string | Remove_of NodeID

text \<open>
  Where a call is: before the question for the leader; past it; with the servers of the configuration it still
  has to look at; before \<open>AddVoter\<close>; before it reads the configuration to save it; before it writes the file;
  returned.
\<close>

datatype phase =
    Begins
  | Leads
  | Walks "Server list"
  | Adds
  | Reads
  | Writes "ConfigEntry list"
  | Returned "go_error option"

text \<open>\<open>writeConfigEntries\<close>, whose error both callers ignore.\<close>

definition save_call ::
    "('r, 'v) store_env \<Rightarrow> phase \<Rightarrow> ('r, 'v, 'w) RaftStore \<Rightarrow> (phase \<times> ('r, 'v, 'w) RaftStore) option" where
  "save_call E ph s =
     (case ph of
        Reads \<Rightarrow> Some (Writes (map config_entry (snd (ra_GetConfiguration (se_api E) (st_raft s)))), s)
      | Writes es \<Rightarrow> Some (Returned None, snd (writePeersJSON (se_js E) es s))
      | _ \<Rightarrow> None)"

definition join_call ::
    "('r, 'v) store_env \<Rightarrow> NodeID \<Rightarrow> string \<Rightarrow> phase \<Rightarrow> ('r, 'v, 'w) RaftStore \<Rightarrow>
     (phase \<times> ('r, 'v, 'w) RaftStore) option" where
  "join_call E nodeID addr ph s =
     (case ph of
        Begins \<Rightarrow> Some (if ra_State (se_api E) (st_raft s) \<noteq> Leader then Returned (Some ErrNotLeader) else Leads, s)
      | Leads \<Rightarrow>
          (case ra_GetConfiguration (se_api E) (st_raft s) of
             (Some err, _) \<Rightarrow> Some (Returned (Some (ErrWrap ''failed to get raft configuration: '' err)), s)
           | (None, srvs) \<Rightarrow> Some (Walks srvs, s))
      | Walks [] \<Rightarrow> Some (Adds, s)
      | Walks (srv # srvs) \<Rightarrow>
          (case join_server (se_api E) nodeID addr srv (False, st_raft s) of
             (Inl err, _, r) \<Rightarrow> Some (Returned (Some (ErrWrap ''failed to invoke walk fn: '' err)), s\<lparr>st_raft := r\<rparr>)
           | (Inr cont, _, r) \<Rightarrow> Some (if cont then Walks srvs else Returned None, s\<lparr>st_raft := r\<rparr>))
      | Adds \<Rightarrow>
          (case ra_AddVoter (se_api E) nodeID addr (st_raft s) of
             (Some err, r) \<Rightarrow>
               Some (Returned (Some (ErrWrap (''node '' @ nodeID @ '' at '' @ addr @ '' joined error '') err)), s\<lparr>st_raft := r\<rparr>)
           | (None, r) \<Rightarrow> Some (Reads, s\<lparr>st_raft := r\<rparr>))
      | _ \<Rightarrow> save_call E ph s)"

definition remove_call ::
    "('r, 'v) store_env \<Rightarrow> NodeID \<Rightarrow> phase \<Rightarrow> ('r, 'v, 'w) RaftStore \<Rightarrow> (phase \<times> ('r, 'v, 'w) RaftStore) option" where
  "remove_call E nodeID ph s =
     (case ph of
        Begins \<Rightarrow> Some (if ra_State (se_api E) (st_raft s) \<noteq> Leader then Returned (Some ErrNotLeader) else Leads, s)
      | Leads \<Rightarrow>
          (case ra_RemoveServer (se_api E) nodeID (st_raft s) of
             (Some err, r) \<Rightarrow> Some (Returned (Some err), s\<lparr>st_raft := r\<rparr>)
           | (None, r) \<Rightarrow> Some (Reads, s\<lparr>st_raft := r\<rparr>))
      | Walks srvs \<Rightarrow> None
      | Adds \<Rightarrow> None
      | _ \<Rightarrow> save_call E ph s)"

definition change_call ::
    "('r, 'v) store_env \<Rightarrow> change \<Rightarrow> phase \<Rightarrow> ('r, 'v, 'w) RaftStore \<Rightarrow> (phase \<times> ('r, 'v, 'w) RaftStore) option" where
  "change_call E ch ph s =
     (case ch of Join_of nodeID addr \<Rightarrow> join_call E nodeID addr ph s | Remove_of nodeID \<Rightarrow> remove_call E nodeID ph s)"

text \<open>
  A store with calls under way. New calls begin at any time, and Raft may change as long as it leaves the configuration alone
  (the leadership may go).
\<close>

record ('r, 'v, 'w) changing =
  mc_store :: "('r, 'v, 'w) RaftStore"
  mc_calls :: "(change \<times> phase) list"

inductive change_step :: "('r, 'v) store_env \<Rightarrow> ('r, 'v, 'w) changing \<Rightarrow> ('r, 'v, 'w) changing \<Rightarrow> bool"
  for E :: "('r, 'v) store_env"
where
  begins: "change_step E c (c\<lparr>mc_calls := mc_calls c @ [(ch, Begins)]\<rparr>)"
| call: "i < length (mc_calls c) \<Longrightarrow> mc_calls c ! i = (ch, ph) \<Longrightarrow>
    change_call E ch ph (mc_store c) = Some (ph', s') \<Longrightarrow>
    change_step E c (c\<lparr>mc_store := s', mc_calls := (mc_calls c)[i := (ch, ph')]\<rparr>)"
| raft: "ra_GetConfiguration (se_api E) r = ra_GetConfiguration (se_api E) (st_raft (mc_store c)) \<Longrightarrow>
    change_step E c (c\<lparr>mc_store := (mc_store c)\<lparr>st_raft := r\<rparr>\<rparr>)"

inductive change_reach :: "('r, 'v) store_env \<Rightarrow> ('r, 'v, 'w) changing \<Rightarrow> ('r, 'v, 'w) changing \<Rightarrow> bool"
  for E :: "('r, 'v) store_env" and c0 :: "('r, 'v, 'w) changing"
where
  init: "change_reach E c0 c0"
| step: "change_reach E c0 c \<Longrightarrow> change_step E c c' \<Longrightarrow> change_reach E c0 c'"

abbreviation mc_members :: "('r, 'v) store_env \<Rightarrow> ('r, 'v, 'w) changing \<Rightarrow> Server list" where
  "mc_members E c \<equiv> members (se_api E) (st_raft (mc_store c))"

section \<open>A call on its own\<close>

text \<open>Steps of one call with nothing in between.\<close>

inductive calls_to ::
    "('r, 'v) store_env \<Rightarrow> change \<Rightarrow> phase \<times> ('r, 'v, 'w) RaftStore \<Rightarrow> phase \<times> ('r, 'v, 'w) RaftStore \<Rightarrow> bool"
  for E :: "('r, 'v) store_env" and ch :: change
where
  here: "calls_to E ch x x"
| on: "change_call E ch ph s = Some y \<Longrightarrow> calls_to E ch y z \<Longrightarrow> calls_to E ch (ph, s) z"

lemma calls_to_save:
  "change_call E ch Reads s = save_call E Reads s"
  "change_call E ch (Writes es) s = save_call E (Writes es) s"
  by (simp_all add: change_call_def join_call_def remove_call_def split: change.split)

lemma saves_alone: "calls_to E ch (Reads, s) (Returned None, snd (writeConfigEntries E s))"
  by (rule calls_to.on, simp add: calls_to_save save_call_def, rule calls_to.on,
      simp add: calls_to_save save_call_def, simp add: writeConfigEntries_def calls_to.here)

lemma walks_alone:
  assumes "walk_loop (join_server (se_api E) nodeID addr) srvs (False, st_raft s) = (err, joined, r)"
  shows "calls_to E (Join_of nodeID addr) (Walks srvs, s)
    (case err of Some e \<Rightarrow> Returned (Some e) | None \<Rightarrow> if joined then Returned None else Adds, s\<lparr>st_raft := r\<rparr>)"
  using assms
proof (induction srvs arbitrary: s)
  case Nil
  have "change_call E (Join_of nodeID addr) (Walks []) s = Some (Adds, s)" by (simp add: change_call_def join_call_def)
  from calls_to.on [OF this calls_to.here] Nil show ?case by auto
next
  case (Cons srv srvs)
  obtain res b r1 where j: "join_server (se_api E) nodeID addr srv (False, st_raft s) = (res, b, r1)"
    using prod_cases3 by blast
  consider (stops) e where "res = Inl e" | (found) "res = Inr False" "b" | (goes) "res = Inr True" "\<not> b"
    using j by (auto simp: join_server_def Let_def split: if_splits prod.splits option.splits)
  then show ?case
  proof cases
    case stops
    with Cons.prems j have x: "err = Some (ErrWrap ''failed to invoke walk fn: '' e)" "r = r1" by auto
    show ?thesis
      unfolding x by (rule calls_to.on, simp add: change_call_def join_call_def j stops, simp add: calls_to.here)
  next
    case found
    with Cons.prems j have x: "err = None" "joined" "r = r1" by auto
    show ?thesis
      unfolding x(1,3) by (rule calls_to.on, simp add: change_call_def join_call_def j found, simp add: calls_to.here x(2))
  next
    case goes
    then have "walk_loop (join_server (se_api E) nodeID addr) srvs (False, st_raft (s\<lparr>st_raft := r1\<rparr>)) = (err, joined, r)"
      using Cons.prems j by simp
    from Cons.IH [OF this] show ?thesis
      by (intro calls_to.on [of E "Join_of nodeID addr" "Walks (srv # srvs)" s "(Walks srvs, s\<lparr>st_raft := r1\<rparr>)"])
        (simp_all add: change_call_def join_call_def j goes)
  qed
qed

lemma calls_to_trans: "calls_to E ch x y \<Longrightarrow> calls_to E ch y z \<Longrightarrow> calls_to E ch x z"
  by (induction rule: calls_to.induct) (blast intro: calls_to.intros)+

text \<open>Alone, the steps of a call are the method.\<close>

lemma join_alone:
  assumes "RaftStore_Join E nodeID addr s = (x, s')"
  shows "calls_to E (Join_of nodeID addr) (Begins, s) (Returned x, s')"
proof (cases "ra_State (se_api E) (st_raft s) = Leader")
  case False
  with assms show ?thesis
    by (intro calls_to.on [OF _ calls_to.here]) (simp add: change_call_def join_call_def RaftStore_Join_def)
next
  case True
  let ?J = "Join_of nodeID addr"
  have 1: "calls_to E ?J (Begins, s) (Leads, s)"
    using True by (intro calls_to.on [OF _ calls_to.here]) (simp add: change_call_def join_call_def)
  obtain err srvs where conf: "ra_GetConfiguration (se_api E) (st_raft s) = (err, srvs)" by fastforce
  show ?thesis
  proof (cases err)
    case (Some e)
    have "calls_to E ?J (Leads, s) (Returned x, s')"
      using assms True conf Some
      by (intro calls_to.on [OF _ calls_to.here])
        (simp add: change_call_def join_call_def RaftStore_Join_def walkRaftServers_def)
    then show ?thesis by (rule calls_to_trans [OF 1])
  next
    case None
    have 2: "calls_to E ?J (Leads, s) (Walks srvs, s)"
      using conf None by (intro calls_to.on [OF _ calls_to.here]) (simp add: change_call_def join_call_def)
    obtain e joined r where w: "walk_loop (join_server (se_api E) nodeID addr) srvs (False, st_raft s) = (e, joined, r)"
      using prod_cases3 by blast
    note 3 = calls_to_trans [OF 1 calls_to_trans [OF 2 walks_alone [OF w]]]
    have J: "RaftStore_Join E nodeID addr s =
      (case (e, joined, r) of
         (Some err, _, r) \<Rightarrow> (Some err, s\<lparr>st_raft := r\<rparr>)
       | (None, True, r) \<Rightarrow> (None, s\<lparr>st_raft := r\<rparr>)
       | (None, False, r) \<Rightarrow>
           (case ra_AddVoter (se_api E) nodeID addr r of
              (Some err, r') \<Rightarrow> (Some (ErrWrap (''node '' @ nodeID @ '' at '' @ addr @ '' joined error '') err), s\<lparr>st_raft := r'\<rparr>)
            | (None, r') \<Rightarrow> (None, snd (writeConfigEntries E (s\<lparr>st_raft := r'\<rparr>)))))"
      using True by (simp add: RaftStore_Join_def walkRaftServers_def conf None w)
    show ?thesis
    proof (cases "e = None \<and> \<not> joined")
      case False
      with 3 J assms show ?thesis by (cases e; cases joined) auto
    next
      case adds: True
      obtain aerr r' where a: "ra_AddVoter (se_api E) nodeID addr r = (aerr, r')" by fastforce
      have 4: "calls_to E ?J (Begins, s) (Adds, s\<lparr>st_raft := r\<rparr>)" using 3 adds by simp
      show ?thesis
      proof (cases aerr)
        case (Some ae)
        have "calls_to E ?J (Adds, s\<lparr>st_raft := r\<rparr>) (Returned x, s')"
          using assms J adds a Some
          by (intro calls_to.on [OF _ calls_to.here]) (auto simp: change_call_def join_call_def)
        then show ?thesis by (rule calls_to_trans [OF 4])
      next
        case None
        have "calls_to E ?J (Adds, s\<lparr>st_raft := r\<rparr>) (Reads, s\<lparr>st_raft := r'\<rparr>)"
          using a None by (intro calls_to.on [OF _ calls_to.here]) (simp add: change_call_def join_call_def)
        moreover have "x = None" "s' = snd (writeConfigEntries E (s\<lparr>st_raft := r'\<rparr>))"
          using assms J adds a None by auto
        ultimately show ?thesis using calls_to_trans [OF 4] calls_to_trans saves_alone by metis
      qed
    qed
  qed
qed


section \<open>Changes that do not concern the same servers\<close>

text \<open>The servers a change is about: those it takes out, or finds.\<close>

fun affects :: "change \<Rightarrow> Server \<Rightarrow> bool" where
  "affects (Join_of nodeID addr) srv = conflicts nodeID addr srv"
| "affects (Remove_of nodeID) srv = (srv_ID srv = nodeID)"

text \<open>Two changes with the same ID or address.\<close>

fun clash :: "change \<Rightarrow> change \<Rightarrow> bool" where
  "clash (Join_of a x) (Join_of b y) = (a = b \<or> x = y)"
| "clash (Join_of a x) (Remove_of b) = (a = b)"
| "clash (Remove_of a) (Join_of b y) = (a = b)"
| "clash (Remove_of a) (Remove_of b) = (a = b)"

definition separate :: "Server list \<Rightarrow> change list \<Rightarrow> bool" where
  "separate srvs chs \<longleftrightarrow>
     (\<forall>i j. i < length chs \<longrightarrow> j < length chs \<longrightarrow> i \<noteq> j \<longrightarrow>
        \<not> clash (chs ! i) (chs ! j) \<and> (\<forall>srv \<in> set srvs. \<not> (affects (chs ! i) srv \<and> affects (chs ! j) srv)))"

fun added :: "phase \<Rightarrow> bool" where
  "added Reads = True"
| "added (Writes es) = True"
| "added (Returned None) = True"
| "added _ = False"

text \<open>The calls that have asked Raft for their change, whatever came of it.\<close>

fun tried :: "phase \<Rightarrow> bool" where
  "tried Reads = True"
| "tried (Writes es) = True"
| "tried (Returned x) = True"
| "tried _ = False"

text \<open>What a call in a phase knows of the configuration \<open>M\<close>; \<open>M0\<close> is the one at the beginning.\<close>

definition call_inv :: "Server list \<Rightarrow> Server list \<Rightarrow> change \<Rightarrow> phase \<Rightarrow> bool" where
  "call_inv M0 M ch ph \<longleftrightarrow>
     (added ph \<longrightarrow> (case ch of Join_of nodeID addr \<Rightarrow> joined_in nodeID addr M
       | Remove_of nodeID \<Rightarrow> \<forall>m \<in> set M. srv_ID m \<noteq> nodeID)) \<and>
     (case ph of
        Walks srvs \<Rightarrow> distinct srvs \<and> (\<forall>m \<in> set M. affects ch m \<longrightarrow> m \<in> set srvs) \<and>
          (\<forall>srv \<in> set srvs. affects ch srv \<longrightarrow> srv \<in> set M \<and> srv \<in> set M0)
      | Adds \<Rightarrow> \<forall>m \<in> set M. \<not> affects ch m
      | _ \<Rightarrow> True)"

definition newcomer :: "(change \<times> phase) list \<Rightarrow> Server \<Rightarrow> bool" where
  "newcomer calls m \<longleftrightarrow> srv_Suffrage m = Voter \<and>
     (\<exists>ph. (Join_of (srv_ID m) (srv_Address m), ph) \<in> set calls \<and> tried ph)"

definition changes_inv :: "('r, 'v) store_env \<Rightarrow> Server list \<Rightarrow> ('r, 'v, 'w) changing \<Rightarrow> bool" where
  "changes_inv E M0 c \<longleftrightarrow>
     config_ok (mc_members E c) \<and>
     (\<forall>m \<in> set (mc_members E c). m \<in> set M0 \<or> newcomer (mc_calls c) m) \<and>
     (\<forall>m \<in> set M0. (\<forall>x \<in> set (mc_calls c). \<not> affects (fst x) m) \<longrightarrow> m \<in> set (mc_members E c)) \<and>
     (\<forall>x \<in> set (mc_calls c). call_inv M0 (mc_members E c) (fst x) (snd x))"

lemma affects_newcomer: "affects ch m \<longleftrightarrow> clash ch (Join_of (srv_ID m) (srv_Address m))"
  by (cases ch) (auto simp: conflicts_def)

lemma call_inv_other:
  assumes "call_inv M0 M ch ph" "\<forall>m \<in> set M'. m \<in> set M \<or> \<not> affects ch m"
    and "\<forall>m \<in> set M. affects ch m \<longrightarrow> m \<in> set M'"
  shows "call_inv M0 M' ch ph"
proof -
  have "case ch of Join_of nodeID addr \<Rightarrow> joined_in nodeID addr M' | Remove_of nodeID \<Rightarrow> \<forall>m \<in> set M'. srv_ID m \<noteq> nodeID"
    if "added ph"
  proof (cases ch)
    case (Join_of nodeID addr)
    with assms(1) that obtain m where "m \<in> set M" "srv_ID m = nodeID" "srv_Address m = addr"
      by (auto simp: call_inv_def joined_in_def)
    with assms(3) Join_of show ?thesis by (auto simp: joined_in_def conflicts_def)
  next
    case (Remove_of nodeID)
    with assms(1,2) that show ?thesis by (auto simp: call_inv_def)
  qed
  moreover have "case ph of
        Walks srvs \<Rightarrow> distinct srvs \<and> (\<forall>m \<in> set M'. affects ch m \<longrightarrow> m \<in> set srvs) \<and>
          (\<forall>srv \<in> set srvs. affects ch srv \<longrightarrow> srv \<in> set M' \<and> srv \<in> set M0)
      | Adds \<Rightarrow> \<forall>m \<in> set M'. \<not> affects ch m
      | _ \<Rightarrow> True"
    using assms by (cases ph) (auto simp: call_inv_def)
  ultimately show ?thesis unfolding call_inv_def by blast
qed

text \<open>A step of one call, seen from the configuration.\<close>

lemma changes_inv_call:
  assumes "changes_inv E M0 c" "i < length (mc_calls c)" "mc_calls c ! i = (ch, ph)"
    and "config_ok (members (se_api E) (st_raft s'))" "tried ph \<longrightarrow> tried ph'"
    and "\<forall>m \<in> set (members (se_api E) (st_raft s')). m \<in> set (mc_members E c) \<or>
      (tried ph' \<and> srv_Suffrage m = Voter \<and> ch = Join_of (srv_ID m) (srv_Address m))"
    and "\<forall>m \<in> set (mc_members E c). m \<in> set (members (se_api E) (st_raft s')) \<or> affects ch m"
    and "\<And>j. j < length (mc_calls c) \<Longrightarrow> j \<noteq> i \<Longrightarrow>
      (\<forall>m \<in> set (members (se_api E) (st_raft s')). m \<in> set (mc_members E c) \<or> \<not> affects (fst (mc_calls c ! j)) m) \<and>
      (\<forall>m \<in> set (mc_members E c). affects (fst (mc_calls c ! j)) m \<longrightarrow> m \<in> set (members (se_api E) (st_raft s')))"
    and "call_inv M0 (members (se_api E) (st_raft s')) ch ph'"
  shows "changes_inv E M0 (c\<lparr>mc_store := s', mc_calls := (mc_calls c)[i := (ch, ph')]\<rparr>)"
proof -
  let ?M' = "members (se_api E) (st_raft s')" and ?calls = "(mc_calls c)[i := (ch, ph')]"
  have new: "(ch, ph') \<in> set ?calls" using assms(2) by (rule set_update_memI)
  have still: "newcomer ?calls m" if m: "newcomer (mc_calls c) m" for m
  proof -
    obtain p j where p: "tried p" "j < length (mc_calls c)" "mc_calls c ! j = (Join_of (srv_ID m) (srv_Address m), p)"
      using m by (auto simp: newcomer_def in_set_conv_nth)
    show ?thesis
    proof (cases "j = i")
      case True
      with p assms(3,5) new m show ?thesis by (auto simp: newcomer_def)
    next
      case False
      then have "?calls ! j = mc_calls c ! j" "j < length ?calls" using p(2) by simp_all
      then have "(Join_of (srv_ID m) (srv_Address m), p) \<in> set ?calls" using p(3) by (metis nth_mem)
      with p(1) m show ?thesis by (auto simp: newcomer_def)
    qed
  qed
  have "m \<in> set M0 \<or> newcomer ?calls m" if "m \<in> set ?M'" for m
    using assms(1,6) that still new by (fastforce simp: changes_inv_def newcomer_def)
  moreover have "m \<in> set ?M'" if m0: "m \<in> set M0" and none: "\<forall>x \<in> set ?calls. \<not> affects (fst x) m" for m
  proof -
    have ch: "\<not> affects ch m" using none new by fastforce
    have "\<not> affects (fst x) m" if x: "x \<in> set (mc_calls c)" for x
    proof -
      obtain j where j: "j < length (mc_calls c)" "x = mc_calls c ! j" using x by (auto simp: in_set_conv_nth)
      show ?thesis
      proof (cases "j = i")
        case False
        then have "x \<in> set ?calls" using j by (metis length_list_update nth_list_update_neq nth_mem)
        with none show ?thesis by blast
      qed (use j ch assms(3) in simp)
    qed
    with assms(1) m0 have "m \<in> set (mc_members E c)" by (auto simp: changes_inv_def)
    with assms(7) ch show ?thesis by blast
  qed
  moreover have "call_inv M0 ?M' (fst x) (snd x)" if "x \<in> set ?calls" for x
  proof -
    have "\<exists>j. j < length ?calls \<and> ?calls ! j = x" using that by (simp only: in_set_conv_nth)
    then obtain j where "j < length ?calls" "?calls ! j = x" by (elim exE conjE)
    then have j: "j < length (mc_calls c)" "x = ?calls ! j" by simp_all
    show ?thesis
    proof (cases "j = i")
      case False
      then have x: "x = mc_calls c ! j" using j by simp
      then have "call_inv M0 (mc_members E c) (fst x) (snd x)"
        using assms(1) j(1) nth_mem by (auto simp: changes_inv_def)
      with call_inv_other assms(8) [OF j(1) False] x show ?thesis by blast
    qed (use j assms(2,9) in simp)
  qed
  ultimately show ?thesis using assms(4) by (simp add: changes_inv_def)
qed


text \<open>
  What is assumed of Raft: the laws of \<open>members_ok\<close>, and that a change it reports as failed has been made
  or not made (a leader that loses its place may report a failure for a change that goes through).
\<close>

definition changes_ok :: "'r raft_api \<Rightarrow> bool" where
  "changes_ok api \<longleftrightarrow> members_ok api \<and>
     (\<forall>sid r e r'. ra_RemoveServer api sid r = (e, r') \<longrightarrow> members api r' = members api r \<or>
        members api r' = filter (\<lambda>srv. srv_ID srv \<noteq> sid) (members api r)) \<and>
     (\<forall>sid addr r e r'. ra_AddVoter api sid addr r = (e, r') \<longrightarrow> members api r' = members api r \<or>
        members api r' = add_voter sid addr (members api r))"

lemma separate_other:
  assumes "separate M0 (map fst calls)" "i < length calls" "j < length calls" "i \<noteq> j"
  shows "\<not> clash (fst (calls ! i)) (fst (calls ! j))"
    and "srv \<in> set M0 \<Longrightarrow> affects (fst (calls ! i)) srv \<Longrightarrow> \<not> affects (fst (calls ! j)) srv"
  using assms by (auto simp: separate_def)

lemma config_ok_filter: "config_ok srvs \<Longrightarrow> config_ok (filter P srvs)"
  by (auto simp: config_ok_def distinct_map_filter)

lemma config_ok_snoc:
  "config_ok srvs \<Longrightarrow> \<forall>m \<in> set srvs. \<not> conflicts a x m \<Longrightarrow>
    config_ok (srvs @ [\<lparr>srv_Suffrage = v, srv_ID = a, srv_Address = x\<rparr>])"
  by (auto simp: config_ok_def conflicts_def)

lemma inv_keeps:
  assumes "changes_inv E M0 c" "i < length (mc_calls c)" "mc_calls c ! i = (ch, ph)"
    and "members (se_api E) (st_raft s') = mc_members E c" "tried ph \<longrightarrow> tried ph'"
    and "call_inv M0 (mc_members E c) ch ph'"
  shows "changes_inv E M0 (c\<lparr>mc_store := s', mc_calls := (mc_calls c)[i := (ch, ph')]\<rparr>)"
  by (rule changes_inv_call [OF assms(1-3)]) (use assms in \<open>simp_all add: changes_inv_def\<close>)

lemma inv_removes:
  assumes "changes_inv E M0 c" "i < length (mc_calls c)" "mc_calls c ! i = (ch, ph)" "separate M0 (map fst (mc_calls c))"
    and "members (se_api E) (st_raft s') = filter (\<lambda>srv. srv_ID srv \<noteq> sid) (mc_members E c)" "tried ph \<longrightarrow> tried ph'"
    and gone: "\<forall>m \<in> set (mc_members E c). srv_ID m = sid \<longrightarrow> m \<in> set M0 \<and> affects ch m"
    and "call_inv M0 (filter (\<lambda>srv. srv_ID srv \<noteq> sid) (mc_members E c)) ch ph'"
  shows "changes_inv E M0 (c\<lparr>mc_store := s', mc_calls := (mc_calls c)[i := (ch, ph')]\<rparr>)"
proof (rule changes_inv_call [OF assms(1-3) _ assms(6)])
  fix j
  assume j: "j < length (mc_calls c)" "j \<noteq> i"
  have "\<not> affects (fst (mc_calls c ! j)) m" if "m \<in> set (mc_members E c)" "srv_ID m = sid" for m
    using separate_other(2) [OF assms(4,2) j(1) j(2) [symmetric], of m] gone that assms(3) by simp
  then show "(\<forall>m \<in> set (members (se_api E) (st_raft s')). m \<in> set (mc_members E c) \<or> \<not> affects (fst (mc_calls c ! j)) m) \<and>
      (\<forall>m \<in> set (mc_members E c). affects (fst (mc_calls c ! j)) m \<longrightarrow> m \<in> set (members (se_api E) (st_raft s')))"
    by (auto simp: assms(5))
qed (use assms in \<open>auto simp: changes_inv_def config_ok_filter\<close>)

lemma inv_adds:
  assumes "changes_inv E M0 c" "i < length (mc_calls c)" "mc_calls c ! i = (Join_of a x, ph)"
    and "separate M0 (map fst (mc_calls c))"
    and "members (se_api E) (st_raft s') = mc_members E c @ [\<lparr>srv_Suffrage = Voter, srv_ID = a, srv_Address = x\<rparr>]"
    and "tried ph'" "\<forall>m \<in> set (mc_members E c). \<not> conflicts a x m"
    and "call_inv M0 (mc_members E c @ [\<lparr>srv_Suffrage = Voter, srv_ID = a, srv_Address = x\<rparr>]) (Join_of a x) ph'"
  shows "changes_inv E M0 (c\<lparr>mc_store := s', mc_calls := (mc_calls c)[i := (Join_of a x, ph')]\<rparr>)"
proof (rule changes_inv_call [OF assms(1-3)])
  fix j
  assume j: "j < length (mc_calls c)" "j \<noteq> i"
  have "\<not> clash (fst (mc_calls c ! j)) (Join_of a x)"
    using separate_other(1) [OF assms(4) j(1) assms(2) j(2)] assms(3) by simp
  then show "(\<forall>m \<in> set (members (se_api E) (st_raft s')). m \<in> set (mc_members E c) \<or> \<not> affects (fst (mc_calls c ! j)) m) \<and>
      (\<forall>m \<in> set (mc_members E c). affects (fst (mc_calls c ! j)) m \<longrightarrow> m \<in> set (members (se_api E) (st_raft s')))"
    by (auto simp: assms(5) affects_newcomer)
qed (use assms in \<open>auto simp: changes_inv_def config_ok_snoc\<close>)

text \<open>A member a call has yet to deal with was there at the beginning.\<close>

lemma affected_initial:
  assumes "changes_inv E M0 c" "i < length (mc_calls c)" "mc_calls c ! i = (ch, ph)" "separate M0 (map fst (mc_calls c))"
    and "\<not> tried ph" "m \<in> set (mc_members E c)" "affects ch m"
  shows "m \<in> set M0"
proof (rule ccontr)
  assume "m \<notin> set M0"
  with assms(1,6) have "newcomer (mc_calls c) m" by (auto simp: changes_inv_def)
  then obtain p j where p: "tried p" "j < length (mc_calls c)" "mc_calls c ! j = (Join_of (srv_ID m) (srv_Address m), p)"
      "srv_Suffrage m = Voter"
    by (auto simp: newcomer_def in_set_conv_nth)
  then have "j \<noteq> i" using assms(3,5) by auto
  then have "\<not> clash ch (Join_of (srv_ID m) (srv_Address m))"
    using separate_other(1) [OF assms(4,2) p(2)] p(3) assms(3) by auto
  then show False using assms(7) by (simp add: affects_newcomer)
qed


lemma remove_effect:
  assumes "changes_ok api" "ra_RemoveServer api sid r = (e, r')"
  shows "e = None \<Longrightarrow> members api r' = filter (\<lambda>srv. srv_ID srv \<noteq> sid) (members api r)"
    and "members api r' = members api r \<or> members api r' = filter (\<lambda>srv. srv_ID srv \<noteq> sid) (members api r)"
  using assms members_ok_members(1) [of api sid r r'] by (auto simp: changes_ok_def)

lemma add_effect:
  assumes "changes_ok api" "ra_AddVoter api a x r = (e, r')" "\<forall>m \<in> set (members api r). \<not> conflicts a x m"
  shows "e = None \<Longrightarrow> members api r' = members api r @ [\<lparr>srv_Suffrage = Voter, srv_ID = a, srv_Address = x\<rparr>]"
    and "members api r' = members api r \<or>
      members api r' = members api r @ [\<lparr>srv_Suffrage = Voter, srv_ID = a, srv_Address = x\<rparr>]"
proof -
  have "a \<notin> srv_ID ` set (members api r)" using assms(3) by (auto simp: conflicts_def)
  note add_voter_new [OF this, of x]
  with assms(1,2) members_ok_members(2) [of api a x r r']
  show "e = None \<Longrightarrow> members api r' = members api r @ [\<lparr>srv_Suffrage = Voter, srv_ID = a, srv_Address = x\<rparr>]"
    and "members api r' = members api r \<or>
      members api r' = members api r @ [\<lparr>srv_Suffrage = Voter, srv_ID = a, srv_Address = x\<rparr>]"
    by (fastforce simp: changes_ok_def)+
qed

lemma st_raft_writePeersJSON [simp]: "st_raft (snd (writePeersJSON js es s)) = st_raft s"
  by (simp add: writePeersJSON_def Let_def case_prod_beta)

lemma save_call_inv:
  assumes "save_call E ph s = Some (ph', s')" "call_inv M0 M ch ph"
  shows "st_raft s' = st_raft s \<and> tried ph' \<and> call_inv M0 M ch ph'"
  using assms by (cases ph) (auto simp: save_call_def call_inv_def)

lemma same_ID: "config_ok srvs \<Longrightarrow> m \<in> set srvs \<Longrightarrow> n \<in> set srvs \<Longrightarrow> srv_ID m = srv_ID n \<Longrightarrow> m = n"
  by (auto simp: config_ok_def distinct_map dest: inj_onD)

lemma walk_step_inv:
  assumes ok: "changes_ok (se_api E)" and inv: "changes_inv E M0 c" and i: "i < length (mc_calls c)"
    and now: "mc_calls c ! i = (Join_of a x, Walks (srv # srvs))" and sep: "separate M0 (map fst (mc_calls c))"
    and step: "join_call E a x (Walks (srv # srvs)) (mc_store c) = Some (ph', s')"
  shows "changes_inv E M0 (c\<lparr>mc_store := s', mc_calls := (mc_calls c)[i := (Join_of a x, ph')]\<rparr>)"
proof -
  let ?M = "mc_members E c" and ?ch = "Join_of a x" and ?r = "st_raft (mc_store c)"
  have conf: "config_ok ?M" using inv by (simp add: changes_inv_def)
  have "call_inv M0 ?M ?ch (Walks (srv # srvs))" using inv i now nth_mem [OF i] by (auto simp: changes_inv_def)
  then have w: "srv \<notin> set srvs" "distinct srvs" "\<And>m. m \<in> set ?M \<Longrightarrow> conflicts a x m \<Longrightarrow> m = srv \<or> m \<in> set srvs"
      "conflicts a x srv \<Longrightarrow> srv \<in> set ?M \<and> srv \<in> set M0"
      "\<And>m. m \<in> set srvs \<Longrightarrow> conflicts a x m \<Longrightarrow> m \<in> set ?M \<and> m \<in> set M0"
    by (auto simp: call_inv_def)
  consider (skip) "\<not> conflicts a x srv" | (same) "srv_ID srv = a" "srv_Address srv = x"
    | (takes) "conflicts a x srv" "\<not> (srv_ID srv = a \<and> srv_Address srv = x)"
    by blast
  then show ?thesis
  proof cases
    case skip
    with step have s: "ph' = Walks srvs" "s' = mc_store c" by (auto simp: join_call_def join_server_skip)
    have "call_inv M0 ?M ?ch (Walks srvs)" using w skip by (auto simp: call_inv_def)
    then show ?thesis unfolding s by (intro inv_keeps [OF inv i now]) simp_all
  next
    case same
    with step have s: "ph' = Returned None" "s' = mc_store c" by (auto simp: join_call_def join_server_same)
    have "joined_in a x ?M" using w(4) same by (auto simp: joined_in_def conflicts_def)
    then have "call_inv M0 ?M ?ch (Returned None)" by (simp add: call_inv_def)
    then show ?thesis unfolding s by (intro inv_keeps [OF inv i now]) simp_all
  next
    case takes
    obtain e r' where rm: "ra_RemoveServer (se_api E) (srv_ID srv) ?r = (e, r')" by fastforce
    let ?M' = "filter (\<lambda>m. srv_ID m \<noteq> srv_ID srv) ?M"
    have only: "m = srv" if "m \<in> set ?M" "srv_ID m = srv_ID srv" for m
      using same_ID [OF conf] that w(4) takes(1) by blast
    have gone: "\<forall>m \<in> set ?M. srv_ID m = srv_ID srv \<longrightarrow> m \<in> set M0 \<and> affects ?ch m"
      using only w(4) takes(1) by auto
    have s': "st_raft s' = r'" and ph': "ph' = (case e of None \<Rightarrow> Walks srvs | Some err \<Rightarrow>
        Returned (Some (ErrWrap ''failed to invoke walk fn: '' (ErrWrap (''error removing existing node '' @ a @ '' at '' @ x @ '': '') err))))"
      using step rm by (auto simp: join_call_def join_server_conflict [OF takes] split: option.splits)
    have "srv_ID m \<noteq> srv_ID srv" if "m \<in> set srvs" "conflicts a x m" for m
      using only [of m] w(1,5) that by auto
    then have left: "call_inv M0 ?M' ?ch (Walks srvs)" using w by (auto simp: call_inv_def)
    have failed: "call_inv M0 N ?ch (Returned (Some err))" for N err by (simp add: call_inv_def)
    show ?thesis
    proof (cases "members (se_api E) r' = ?M'")
      case True
      have "call_inv M0 ?M' ?ch ph'" using left failed ph' by (cases e) simp_all
      with True s' show ?thesis by (intro inv_removes [OF inv i now sep _ _ gone]) simp_all
    next
      case False
      with remove_effect [OF ok rm] have m: "members (se_api E) r' = ?M" "e \<noteq> None" by auto
      then have "call_inv M0 ?M ?ch ph'" using failed ph' by (cases e) simp_all
      with m s' show ?thesis by (intro inv_keeps [OF inv i now]) simp_all
    qed
  qed
qed


lemma add_step_inv:
  assumes ok: "changes_ok (se_api E)" and inv: "changes_inv E M0 c" and i: "i < length (mc_calls c)"
    and now: "mc_calls c ! i = (Join_of a x, Adds)" and sep: "separate M0 (map fst (mc_calls c))"
    and step: "join_call E a x Adds (mc_store c) = Some (ph', s')"
  shows "changes_inv E M0 (c\<lparr>mc_store := s', mc_calls := (mc_calls c)[i := (Join_of a x, ph')]\<rparr>)"
proof -
  let ?M = "mc_members E c" and ?ch = "Join_of a x"
  let ?M' = "?M @ [\<lparr>srv_Suffrage = Voter, srv_ID = a, srv_Address = x\<rparr>]"
  have "call_inv M0 ?M ?ch Adds" using inv i now nth_mem [OF i] by (auto simp: changes_inv_def)
  then have none: "\<forall>m \<in> set ?M. \<not> conflicts a x m" by (simp add: call_inv_def)
  obtain e r' where av: "ra_AddVoter (se_api E) a x (st_raft (mc_store c)) = (e, r')" by fastforce
  have s': "st_raft s' = r'" and ph': "ph' = (case e of None \<Rightarrow> Reads | Some err \<Rightarrow>
      Returned (Some (ErrWrap (''node '' @ a @ '' at '' @ x @ '' joined error '') err)))"
    using step av by (auto simp: join_call_def split: option.splits)
  have "call_inv M0 ?M' ?ch Reads" by (simp add: call_inv_def joined_in_def)
  moreover have failed: "call_inv M0 N ?ch (Returned (Some err))" for N err by (simp add: call_inv_def)
  ultimately have M': "call_inv M0 ?M' ?ch ph'" using ph' by (cases e) simp_all
  show ?thesis
  proof (cases "members (se_api E) r' = ?M'")
    case True
    have "tried ph'" using ph' by (cases e) simp_all
    with True s' M' none show ?thesis by (intro inv_adds [OF inv i now sep]) simp_all
  next
    case False
    with add_effect [OF ok av none] have m: "members (se_api E) r' = ?M" "e \<noteq> None" by auto
    then have "call_inv M0 ?M ?ch ph'" using failed ph' by (cases e) simp_all
    with m s' show ?thesis by (intro inv_keeps [OF inv i now]) simp_all
  qed
qed

lemma remove_step_inv:
  assumes ok: "changes_ok (se_api E)" and inv: "changes_inv E M0 c" and i: "i < length (mc_calls c)"
    and now: "mc_calls c ! i = (Remove_of a, Leads)" and sep: "separate M0 (map fst (mc_calls c))"
    and step: "remove_call E a Leads (mc_store c) = Some (ph', s')"
  shows "changes_inv E M0 (c\<lparr>mc_store := s', mc_calls := (mc_calls c)[i := (Remove_of a, ph')]\<rparr>)"
proof -
  let ?M = "mc_members E c" and ?ch = "Remove_of a"
  let ?M' = "filter (\<lambda>m. srv_ID m \<noteq> a) ?M"
  obtain e r' where rm: "ra_RemoveServer (se_api E) a (st_raft (mc_store c)) = (e, r')" by fastforce
  have s': "st_raft s' = r'" and ph': "ph' = (case e of None \<Rightarrow> Reads | Some err \<Rightarrow> Returned (Some err))"
    using step rm by (auto simp: remove_call_def split: option.splits)
  have gone: "\<forall>m \<in> set ?M. srv_ID m = a \<longrightarrow> m \<in> set M0 \<and> affects ?ch m"
    using affected_initial [OF inv i now sep] by auto
  have failed: "call_inv M0 N ?ch (Returned (Some err))" for N err by (simp add: call_inv_def)
  show ?thesis
  proof (cases "members (se_api E) r' = ?M'")
    case True
    have "call_inv M0 ?M' ?ch ph'" using failed ph' by (cases e) (simp_all add: call_inv_def)
    with True s' show ?thesis by (intro inv_removes [OF inv i now sep _ _ gone]) simp_all
  next
    case False
    with remove_effect [OF ok rm] have m: "members (se_api E) r' = ?M" "e \<noteq> None" by auto
    then have "call_inv M0 ?M ?ch ph'" using failed ph' by (cases e) simp_all
    with m s' show ?thesis by (intro inv_keeps [OF inv i now]) simp_all
  qed
qed

lemma change_call_inv:
  assumes ok: "changes_ok (se_api E)" and inv: "changes_inv E M0 c" and i: "i < length (mc_calls c)"
    and now: "mc_calls c ! i = (ch, ph)" and sep: "separate M0 (map fst (mc_calls c))"
    and step: "change_call E ch ph (mc_store c) = Some (ph', s')"
  shows "changes_inv E M0 (c\<lparr>mc_store := s', mc_calls := (mc_calls c)[i := (ch, ph')]\<rparr>)"
proof -
  let ?M = "mc_members E c"
  have conf: "config_ok ?M" using inv by (simp add: changes_inv_def)
  have old: "call_inv M0 ?M ch ph" using inv i now nth_mem [OF i] by (auto simp: changes_inv_def)
  have quiet: ?thesis if "st_raft s' = st_raft (mc_store c)" "tried ph \<longrightarrow> tried ph'" "call_inv M0 ?M ch ph'"
    using that by (intro inv_keeps [OF inv i now]) simp_all
  have saves: ?thesis if "save_call E ph (mc_store c) = Some (ph', s')"
    using save_call_inv [OF that old] quiet by blast
  have failed: "call_inv M0 ?M ch (Returned (Some err))" "call_inv M0 ?M ch Leads" for err
    by (simp_all add: call_inv_def)
  show ?thesis
  proof (cases ch)
    case (Remove_of a)
    note s = step [unfolded change_call_def Remove_of, simplified]
    show ?thesis
    proof (cases ph)
      case Begins
      with s failed show ?thesis by (intro quiet) (auto simp: remove_call_def split: if_splits)
    next
      case Leads
      from remove_step_inv [OF ok inv i now [unfolded Remove_of Leads] sep s [unfolded Leads]] Remove_of show ?thesis by simp
    qed (use s saves in \<open>auto simp: remove_call_def\<close>)
  next
    case (Join_of a x)
    note s = step [unfolded change_call_def Join_of, simplified]
    show ?thesis
    proof (cases ph)
      case Begins
      with s failed show ?thesis by (intro quiet) (auto simp: join_call_def split: if_splits)
    next
      case Leads
      have "distinct ?M" using conf by (simp add: config_ok_def distinct_map)
      moreover have "m \<in> set M0" if "m \<in> set ?M" "affects ch m" for m
        using affected_initial [OF inv i now sep _ that] Leads by simp
      ultimately have "call_inv M0 ?M ch (Walks ?M)" by (simp add: call_inv_def)
      with s Leads failed show ?thesis
        by (intro quiet) (auto simp: join_call_def members_def split: prod.splits option.splits)
    next
      case (Walks srvs)
      show ?thesis
      proof (cases srvs)
        case Nil
        have "call_inv M0 ?M ch Adds" using old Walks Nil by (auto simp: call_inv_def)
        with s Walks Nil show ?thesis by (intro quiet) (auto simp: join_call_def)
      next
        case (Cons srv rest)
        from walk_step_inv [OF ok inv i now [unfolded Join_of Walks Cons] sep s [unfolded Walks Cons]] Join_of
        show ?thesis by simp
      qed
    next
      case Adds
      from add_step_inv [OF ok inv i now [unfolded Join_of Adds] sep s [unfolded Adds]] Join_of show ?thesis by simp
    qed (use s saves in \<open>auto simp: join_call_def\<close>)
  qed
qed

lemma change_step_calls:
  "change_step E c c' \<Longrightarrow> \<exists>rest. map fst (mc_calls c') = map fst (mc_calls c) @ rest"
proof (erule change_step.cases)
  fix c0 i ch ph ph' s'
  assume "c = c0" "c' = c0\<lparr>mc_store := s', mc_calls := (mc_calls c0)[i := (ch, ph')]\<rparr>" "i < length (mc_calls c0)"
    "mc_calls c0 ! i = (ch, ph)"
  then have "map fst (mc_calls c') = (map fst (mc_calls c))[i := map fst (mc_calls c) ! i]" by (simp add: map_update)
  then show "\<exists>rest. map fst (mc_calls c') = map fst (mc_calls c) @ rest" by simp
qed simp_all

lemma separate_append: "separate M0 (chs @ rest) \<Longrightarrow> separate M0 chs"
  unfolding separate_def by (metis length_append nth_append trans_less_add1)

lemma changes_inv_step:
  assumes "change_step E c c'" "changes_inv E M0 c" "separate M0 (map fst (mc_calls c'))" "changes_ok (se_api E)"
  shows "changes_inv E M0 c'"
proof -
  have sep: "separate M0 (map fst (mc_calls c))"
    using change_step_calls [OF assms(1)] assms(3) separate_append by metis
  from assms(1) show ?thesis
  proof cases
    case (begins ch)
    have "call_inv M0 M ch Begins" for M by (simp add: call_inv_def)
    moreover have "newcomer (mc_calls c @ [(ch, Begins)]) m" if "newcomer (mc_calls c) m" for m
      using that by (auto simp: newcomer_def)
    ultimately show ?thesis using assms(2) begins by (auto simp: changes_inv_def)
  next
    case (call i ch ph ph' s')
    from change_call_inv [OF assms(4,2) call(2,3) sep call(4)] call(1) show ?thesis by simp
  next
    case (raft r)
    with assms(2) show ?thesis by (simp add: changes_inv_def members_def)
  qed
qed

lemma change_reach_inv:
  assumes "change_reach E c0 c" "mc_calls c0 = []" "config_ok (mc_members E c0)" "changes_ok (se_api E)"
    and "separate (mc_members E c0) (map fst (mc_calls c))"
  shows "changes_inv E (mc_members E c0) c"
  using assms
proof (induction rule: change_reach.induct)
  case init
  then show ?case by (simp add: changes_inv_def)
next
  case (step c c')
  have "separate (mc_members E c0) (map fst (mc_calls c))"
    using change_step_calls [OF step.hyps(2)] step.prems(4) separate_append by metis
  with step show ?case by (blast intro: changes_inv_step)
qed

section \<open>Properties\<close>

text \<open>
  C18. Changes that do not concern the same servers do not disturb each other. Take any number of joins and
  removals under way at once, none with the ID or the address of another, and none about a server of the
  initial configuration that another is about; their calls of Raft may follow each other in any order, and some may
  fail. No two servers ever share an ID or an address. A server that no change is about stays. After
  a \<open>Join\<close> that reported success the newcomer is a member, after a \<open>Remove\<close> the server is none; and
  every member was there at the beginning or is the newcomer of a join that got as far as \<open>AddVoter\<close>.
\<close>

theorem separate_changes:
  assumes "change_reach E c0 c" "mc_calls c0 = []" "config_ok (mc_members E c0)" "changes_ok (se_api E)"
    and "separate (mc_members E c0) (map fst (mc_calls c))"
  shows "config_ok (mc_members E c) \<and>
    (\<forall>m \<in> set (mc_members E c0). (\<forall>x \<in> set (mc_calls c). \<not> affects (fst x) m) \<longrightarrow> m \<in> set (mc_members E c)) \<and>
    (\<forall>nodeID addr. (Join_of nodeID addr, Returned None) \<in> set (mc_calls c) \<longrightarrow> joined_in nodeID addr (mc_members E c)) \<and>
    (\<forall>nodeID. (Remove_of nodeID, Returned None) \<in> set (mc_calls c) \<longrightarrow> nodeID \<notin> srv_ID ` set (mc_members E c)) \<and>
    (\<forall>m \<in> set (mc_members E c). m \<in> set (mc_members E c0) \<or> newcomer (mc_calls c) m)"
proof -
  have inv: "changes_inv E (mc_members E c0) c" by (rule change_reach_inv [OF assms])
  then have "call_inv (mc_members E c0) (mc_members E c) ch (Returned None)" if "(ch, Returned None) \<in> set (mc_calls c)" for ch
    using that by (fastforce simp: changes_inv_def)
  from this [of "Join_of _ _"] this [of "Remove_of _"] inv show ?thesis
    by (auto simp: changes_inv_def call_inv_def)
qed


section \<open>Schedules\<close>

text \<open>The calls take their steps in the order of the list.\<close>

fun run_calls :: "('r, 'v) store_env \<Rightarrow> nat list \<Rightarrow> ('r, 'v, 'w) changing \<Rightarrow> ('r, 'v, 'w) changing option" where
  "run_calls E [] c = Some c"
| "run_calls E (i # is) c =
     (if i < length (mc_calls c) then
        (case mc_calls c ! i of (ch, ph) \<Rightarrow>
           (case change_call E ch ph (mc_store c) of
              None \<Rightarrow> None
            | Some (ph', s') \<Rightarrow> run_calls E is (c\<lparr>mc_store := s', mc_calls := (mc_calls c)[i := (ch, ph')]\<rparr>)))
      else None)"

lemma run_calls_reach: "run_calls E is c = Some c' \<Longrightarrow> change_reach E c0 c \<Longrightarrow> change_reach E c0 c'"
proof (induction E "is" c rule: run_calls.induct)
  case (2 E i "is" c)
  obtain ch ph where now: "mc_calls c ! i = (ch, ph)" by fastforce
  obtain ph' s' where s: "i < length (mc_calls c)" "change_call E ch ph (mc_store c) = Some (ph', s')"
      "run_calls E is (c\<lparr>mc_store := s', mc_calls := (mc_calls c)[i := (ch, ph')]\<rparr>) = Some c'"
    using 2(2) now by (auto split: if_splits option.splits)
  from 2(1) [OF s(1) now [symmetric] s(2) refl s(3)] change_reach.step [OF 2(3) change_step.call [OF s(1) now s(2)]]
  show ?case by blast
qed simp

lemma two_calls_reach:
  "run_calls E is \<lparr>mc_store = s, mc_calls = [(a, Begins), (b, Begins)]\<rparr> = Some c \<Longrightarrow>
    change_reach E \<lparr>mc_store = s, mc_calls = []\<rparr> c"
proof (rule run_calls_reach)
  let ?c = "\<lparr>mc_store = s, mc_calls = []\<rparr>"
  have "change_reach E ?c (?c\<lparr>mc_calls := [] @ [(a, Begins)]\<rparr>)"
    using change_reach.step [OF change_reach.init change_step.begins, of E ?c a] by simp
  from change_reach.step [OF this change_step.begins, of b]
  show "change_reach E ?c \<lparr>mc_store = s, mc_calls = [(a, Begins), (b, Begins)]\<rparr>" by simp
qed

lemma demo_changes_ok: "changes_ok (se_api (demo_senv utc))"
  using demo_members_ok by (simp add: changes_ok_def) (simp add: demo_api_def members_def)

abbreviation vote :: "string \<Rightarrow> string \<Rightarrow> Server" where
  "vote a x \<equiv> \<lparr>srv_Suffrage = Voter, srv_ID = a, srv_Address = x\<rparr>"

lemma demo_api_simps:
  "ra_State demo_api = dr_State" "ra_GetConfiguration demo_api = (\<lambda>r. (None, dr_servers r))"
  "ra_RemoveServer demo_api = (\<lambda>sid r. (None, r\<lparr>dr_servers := filter (\<lambda>srv. srv_ID srv \<noteq> sid) (dr_servers r)\<rparr>))"
  "ra_AddVoter demo_api = (\<lambda>sid addr r. (None, r\<lparr>dr_servers := add_voter sid addr (dr_servers r)\<rparr>))"
  by (simp_all add: demo_api_def)

lemma demo_store_simps:
  "dr_State demo_raft0 = Leader" "dr_servers demo_raft0 = [demo_server]" "srv_ID demo_server = demo_ID"
  "srv_Address demo_server = ''10.0.0.1:12000''" "demo_ID = ''10.0.0.1:11000,10.0.0.1:12000''"
  "st_fs demo_store = demo_fs" "fs_write_err demo_fs p = None" "fs_files demo_fs = Map.empty"
  by (simp_all add: demo_raft0_def demo_server_def demo_ID_def demo_store_def New_def demo_fs_def)

lemmas call_defs = members_def change_call_def join_call_def remove_call_def save_call_def join_server_def
  conflicts_def writePeersJSON_def WriteFile_def demo_api_simps demo_store_simps

text \<open>Two newcomers, the second one from its beginning to its end between the two halves of the first one's saving.\<close>

definition stale_sched :: "nat list" where
  "stale_sched = [0, 0, 0, 0, 0, 0, 1, 1, 1, 1, 1, 1, 1, 1, 0]"

lemma stale_run:
  "\<exists>c. run_calls (demo_senv utc) stale_sched \<lparr>mc_store = demo_store, mc_calls =
       [(Join_of ''2'' ''x'', Begins), (Join_of ''3'' ''y'', Begins)]\<rparr> = Some c \<and>
     mc_calls c = [(Join_of ''2'' ''x'', Returned None), (Join_of ''3'' ''y'', Returned None)] \<and>
     mc_members (demo_senv utc) c = [demo_server, vote ''2'' ''x'', vote ''3'' ''y''] \<and>
     st_Arg (mc_store c) = st_Arg demo_store \<and>
     st_fs (mc_store c) = demo_fs\<lparr>fs_files := [peers_path (st_Arg demo_store) \<mapsto>
       js_entries demo_json (map config_entry [demo_server, vote ''2'' ''x''])]\<rparr>"
  by (simp add: stale_sched_def call_defs)


text \<open>
  Node \<open>2\<close> has moved from \<open>x\<close> to \<open>y\<close> and joins again while node \<open>3\<close> joins at \<open>x\<close>, which has read the
  configuration before.
\<close>

definition moved_store :: "(demo_raft, string, string) RaftStore" where
  "moved_store = demo_store\<lparr>st_raft := demo_raft0\<lparr>dr_servers := [demo_server, vote ''2'' ''x'']\<rparr>\<rparr>"

definition moved_sched :: "nat list" where
  "moved_sched = [0, 0, 1, 1, 1, 1, 1, 1, 1, 1, 0, 0, 0, 0, 0, 0]"

lemma moved_run:
  "\<exists>c. run_calls (demo_senv utc) moved_sched \<lparr>mc_store = moved_store, mc_calls =
       [(Join_of ''3'' ''x'', Begins), (Join_of ''2'' ''y'', Begins)]\<rparr> = Some c \<and>
     mc_calls c = [(Join_of ''3'' ''x'', Returned None), (Join_of ''2'' ''y'', Returned None)] \<and>
     mc_members (demo_senv utc) c = [demo_server, vote ''3'' ''x'']"
  by (simp add: moved_sched_def moved_store_def call_defs)

lemma moved_in_turn:
  "members demo_api (st_raft (snd (RaftStore_Join (demo_senv utc) ''2'' ''y''
     (snd (RaftStore_Join (demo_senv utc) ''3'' ''x'' moved_store))))) = [demo_server, vote ''3'' ''x'', vote ''2'' ''y'']"
  "members demo_api (st_raft (snd (RaftStore_Join (demo_senv utc) ''3'' ''x''
     (snd (RaftStore_Join (demo_senv utc) ''2'' ''y'' moved_store))))) = [demo_server, vote ''2'' ''y'', vote ''3'' ''x'']"
  by (simp_all add: RaftStore_Join_def walkRaftServers_def writeConfigEntries_def moved_store_def call_defs)


theorem separate_changes_witness:
  "\<exists>c. change_reach (demo_senv utc) \<lparr>mc_store = demo_store, mc_calls = []\<rparr> c \<and> config_ok (mc_members (demo_senv utc) c) \<and>
     (Join_of ''2'' ''x'', Returned None) \<in> set (mc_calls c) \<and> joined_in ''2'' ''x'' (mc_members (demo_senv utc) c)"
proof -
  obtain c where c: "run_calls (demo_senv utc) stale_sched \<lparr>mc_store = demo_store, mc_calls =
       [(Join_of ''2'' ''x'', Begins), (Join_of ''3'' ''y'', Begins)]\<rparr> = Some c"
      "mc_calls c = [(Join_of ''2'' ''x'', Returned None), (Join_of ''3'' ''y'', Returned None)]"
    using stale_run by blast
  let ?c0 = "\<lparr>mc_store = demo_store, mc_calls = []\<rparr> :: (demo_raft, string, string) changing"
  have m0: "mc_members (demo_senv utc) ?c0 = [demo_server]" by simp
  have "separate (mc_members (demo_senv utc) ?c0) (map fst (mc_calls c))"
    by (simp add: m0 c(2) separate_def less_Suc_eq nth_Cons' conflicts_def demo_store_simps)
  moreover have "config_ok (mc_members (demo_senv utc) ?c0)" by (simp add: m0 demo_store_ok)
  moreover note r = two_calls_reach [OF c(1)]
  ultimately show ?thesis
    using separate_changes [OF r _ _ demo_changes_ok] c(2) by (intro exI [of _ c]) simp
qed

text \<open>
  C19. Changes that overlap can undo each other, and the peers file can miss a server. First: node \<open>2\<close> has moved
  from \<open>x\<close> to \<open>y\<close> and joins again, while node \<open>3\<close> joins at the address \<open>x\<close>. Both joins report success, but
  node \<open>2\<close> is not in the configuration: the join of \<open>3\<close> had read the configuration before and removes
  "the server at \<open>x\<close>" by its ID when the server has that address no more. One after the other, in
  either order, the two joins leave both nodes in. Second: two newcomers that have nothing to do with
  each other both get in, but the peers file is left with what the first one read before the second one
  came; the leader would recover without node \<open>3\<close> from it.
\<close>

theorem overlapping_joins_lose:
  "(\<exists>c. change_reach (demo_senv utc) \<lparr>mc_store = moved_store, mc_calls = []\<rparr> c \<and>
     mc_calls c = [(Join_of ''3'' ''x'', Returned None), (Join_of ''2'' ''y'', Returned None)] \<and>
     \<not> joined_in ''2'' ''y'' (mc_members (demo_senv utc) c)) \<and>
   members demo_api (st_raft (snd (RaftStore_Join (demo_senv utc) ''2'' ''y''
     (snd (RaftStore_Join (demo_senv utc) ''3'' ''x'' moved_store))))) = [demo_server, vote ''3'' ''x'', vote ''2'' ''y''] \<and>
   members demo_api (st_raft (snd (RaftStore_Join (demo_senv utc) ''3'' ''x''
     (snd (RaftStore_Join (demo_senv utc) ''2'' ''y'' moved_store))))) = [demo_server, vote ''2'' ''y'', vote ''3'' ''x''] \<and>
   (\<exists>c. change_reach (demo_senv utc) \<lparr>mc_store = demo_store, mc_calls = []\<rparr> c \<and>
     mc_calls c = [(Join_of ''2'' ''x'', Returned None), (Join_of ''3'' ''y'', Returned None)] \<and>
     joined_in ''3'' ''y'' (mc_members (demo_senv utc) c) \<and>
     ReadPeersJSON demo_json (peers_path (st_Arg (mc_store c))) (st_fs (mc_store c)) = Inr [demo_server, vote ''2'' ''x''])"
proof (intro conjI)
  obtain c where c: "run_calls (demo_senv utc) moved_sched \<lparr>mc_store = moved_store, mc_calls =
       [(Join_of ''3'' ''x'', Begins), (Join_of ''2'' ''y'', Begins)]\<rparr> = Some c"
      "mc_calls c = [(Join_of ''3'' ''x'', Returned None), (Join_of ''2'' ''y'', Returned None)]"
      "mc_members (demo_senv utc) c = [demo_server, vote ''3'' ''x'']"
    using moved_run by blast
  have "\<not> joined_in ''2'' ''y'' (mc_members (demo_senv utc) c)"
    unfolding c(3) by (simp add: joined_in_def demo_store_simps)
  with c(2) two_calls_reach [OF c(1)]
  show "\<exists>c. change_reach (demo_senv utc) \<lparr>mc_store = moved_store, mc_calls = []\<rparr> c \<and>
     mc_calls c = [(Join_of ''3'' ''x'', Returned None), (Join_of ''2'' ''y'', Returned None)] \<and>
     \<not> joined_in ''2'' ''y'' (mc_members (demo_senv utc) c)"
    by blast
  show "members demo_api (st_raft (snd (RaftStore_Join (demo_senv utc) ''2'' ''y''
     (snd (RaftStore_Join (demo_senv utc) ''3'' ''x'' moved_store))))) = [demo_server, vote ''3'' ''x'', vote ''2'' ''y'']"
    "members demo_api (st_raft (snd (RaftStore_Join (demo_senv utc) ''3'' ''x''
     (snd (RaftStore_Join (demo_senv utc) ''2'' ''y'' moved_store))))) = [demo_server, vote ''2'' ''y'', vote ''3'' ''x'']"
    by (rule moved_in_turn)+
  obtain c where c: "run_calls (demo_senv utc) stale_sched \<lparr>mc_store = demo_store, mc_calls =
       [(Join_of ''2'' ''x'', Begins), (Join_of ''3'' ''y'', Begins)]\<rparr> = Some c"
      "mc_calls c = [(Join_of ''2'' ''x'', Returned None), (Join_of ''3'' ''y'', Returned None)]"
      "mc_members (demo_senv utc) c = [demo_server, vote ''2'' ''x'', vote ''3'' ''y'']"
      "st_Arg (mc_store c) = st_Arg demo_store"
      "st_fs (mc_store c) = demo_fs\<lparr>fs_files := [peers_path (st_Arg demo_store) \<mapsto>
       js_entries demo_json (map config_entry [demo_server, vote ''2'' ''x''])]\<rparr>"
    using stale_run by blast
  have "list_all utf8_entry (map config_entry [demo_server, vote ''2'' ''x''])"
    using demo_store_ok(2) by (simp add: utf8_config_entry utf8_server_def byte_in_def)
  from json_okD(3) [OF demo_json_ok this]
  have "ReadPeersJSON demo_json (peers_path (st_Arg (mc_store c))) (st_fs (mc_store c)) = Inr [demo_server, vote ''2'' ''x'']"
    using parse_config_entry [of demo_server] parse_config_entry [of "vote ''2'' ''x''"]
    by (simp add: c(4,5) ReadPeersJSON_def ReadFile_def) (simp add: demo_fs_def)
  moreover have "joined_in ''3'' ''y'' (mc_members (demo_senv utc) c)" unfolding c(3) by (simp add: joined_in_def)
  ultimately show "\<exists>c. change_reach (demo_senv utc) \<lparr>mc_store = demo_store, mc_calls = []\<rparr> c \<and>
     mc_calls c = [(Join_of ''2'' ''x'', Returned None), (Join_of ''3'' ''y'', Returned None)] \<and>
     joined_in ''3'' ''y'' (mc_members (demo_senv utc) c) \<and>
     ReadPeersJSON demo_json (peers_path (st_Arg (mc_store c))) (st_fs (mc_store c)) = Inr [demo_server, vote ''2'' ''x'']"
    using c(2) two_calls_reach [OF c(1)] by blast
qed

end
