(* ===== verification/Spec2Isabelle.thy ===== *)
theory Spec2Isabelle
  imports Distributor Dealers Args Http_Client Store_Interface Store_Members Store_Open Service
    Startup Loggers Ticker Demo_Main Node Two_Nodes Join_Protocol Finding_Leader Store_Contract
    Startup_Runs Ticker_Liveness Demo_Program Cluster_History Posts_In_Flight Store_Mutex
    Distributor_Runs Http_Server Body_Helpers Member_Changes
begin

text \<open>
  A verification library for \<^emph>\<open>hraftd\<close>, a key-value store replicated with Raft, written in Go.

  \<^bold>\<open>The program.\<close> A node runs a store (\<open>store.go\<close>) and an HTTP service (\<open>service.go\<close>,
  \<open>service_key.go\<close>, \<open>service_raft.go\<close>, \<open>proxy.go\<close>). Writes become commands in the log of the Raft
  library; Raft hands committed commands to \<open>Apply\<close> on every node. Reads are answered from the
  node's own map. A node that is not the leader forwards writes to the leader, at most once.
  Nodes find and join each other over HTTP (\<open>arg.go\<close>, \<open>http.go\<close>), keep the configuration in
  \<open>peers.json\<close> and bootstrap a cluster when they are its first node. On top of that, jobs and log
  commands are dispatched to registered functions (\<open>job.go\<close>, \<open>logdealer.go\<close>, \<open>peerjob.go\<close>), items
  are shared out among the peers (\<open>distribute.go\<close>), and the demo program (\<open>cmd/hraftd/main.go\<close>)
  drives both from a ticker (\<open>ticker.go\<close>) while its node leads.

  \<^bold>\<open>Theories.\<close>
  \<^item> \<open>Go_Prelude\<close>, \<open>Go_Strings\<close>, \<open>Go_Net\<close>, \<open>Go_Time\<close>, \<open>Go_Reflect\<close>: what the program uses of Go and its
    standard library: panics as values (\<open>outcome\<close>), error values with wrapping, strings as lists of
    bytes, \<open>strconv.Atoi\<close> on 64-bit integers, \<open>net.SplitHostPort\<close> and \<open>net.ParseIP\<close>, the calendar
    with the printing and parsing of the layout of \<open>util.go\<close>, and the shapes of types.
  \<^item> \<open>Hraftd_Model\<close>: the structures of \<open>model.go\<close> as records, node IDs and addresses of \<open>arg.go\<close>.
  \<^item> \<open>Dealers\<close> (\<open>job.go\<close>, \<open>logdealer.go\<close>), \<open>Distributor\<close> (\<open>distribute.go\<close>), \<open>Args\<close> (\<open>arg.go\<close> up to the
    joining), \<open>Http_Client\<close> (\<open>http.go\<close>, \<open>peerjob.go\<close>, the joining in \<open>arg.go\<close>).
  \<^item> \<open>Raft_Store\<close> (state and queries of \<open>store.go\<close>, the peers file, finding a leader), \<open>Store_FSM\<close>
    (\<open>Apply\<close>, \<open>Snapshot\<close>, \<open>Persist\<close>, \<open>Restore\<close>, \<open>Intercept\<close>), \<open>Store_Ops\<close> (\<open>Set\<close>, \<open>Delete\<close>, \<open>Join\<close>,
    \<open>Remove\<close>), \<open>Store_Open\<close> (\<open>Open\<close> and the waits).
  \<^item> \<open>Codec\<close> and \<open>Raft_Instance\<close>: a concrete encoding and a concrete one-node Raft that keep the
    promises assumed of the libraries; the witnesses run on them.
  \<^item> \<open>Store_KV\<close>, \<open>Store_Members\<close>, \<open>Store_Interface\<close>: the properties of the store. \<open>Finding_Leader\<close>: the
    search for a leader and the recovery after a restart. \<open>Store_Contract\<close>: the interface of
    \<open>storei.go\<close> with all its methods, and that \<open>RaftStore\<close> implements it.
    \<open>Store_Mutex\<close>: the store at the grain of its mutex, with Go maps as addresses of a heap; its readers,
    Raft's goroutine and the goroutines that persist snapshots are interleaved step by step.
    \<open>Member_Changes\<close>: joins and removals that overlap, one call of Raft at a time.
  \<^item> \<open>Service\<close> (routing, handlers, forwarding), \<open>Body_Helpers\<close> (reading bodies and encoding answers),
    \<open>Startup\<close> (creating and starting a service), \<open>Http_Server\<close> (the goroutine that serves, \<open>Close\<close>, and the
    process with its interrupt).
  \<^item> \<open>Node\<close>: a whole node as a step relation over requests, own calls, deliveries of Raft, installed
    snapshots and joins. \<open>Two_Nodes\<close>: a write through a follower. \<open>Join_Protocol\<close>: the newcomer's
    \<open>Join\<close> against the leader's handlers, and what \<open>saveCluster\<close> tells the others.
    \<open>Cluster_History\<close>: any number of processes over one committed log, with the history of what they
    answered, changes of leader included. \<open>Posts_In_Flight\<close>: the same cluster with the handlers of POSTs
    under way, one call of \<open>Set\<close> at a time.
  \<^item> \<open>Distributor_Runs\<close>: the distributor over a sequence of calls with changing peers and items.
  \<^item> \<open>Fair_Runs\<close>: infinite runs and the law of progress. \<open>Startup_Runs\<close>: \<open>StartRaft\<close> with its
    goroutines interleaved. \<open>Ticker_Liveness\<close>: what a ticker does in the long run.
  \<^item> \<open>Loggers\<close> (\<open>logger.go\<close>, \<open>logrus.go\<close>, \<open>stdlog.go\<close>, the logger handed to Raft), \<open>Ticker\<close>
    (\<open>ticker.go\<close>), \<open>Demo_Main\<close> and \<open>Demo_Program\<close> (\<open>cmd/hraftd/main.go\<close>: the work of a tick, and the
    wiring of \<open>main\<close> with its handlers).

  \<^bold>\<open>How code becomes definitions.\<close> A struct is a record whose fields carry a prefix of the struct's
  name; a method takes its receiver as the last argument and returns the changed one. A method
  that can panic returns an \<open>outcome\<close>. A node's state is the record \<open>RaftStore\<close>: map, Raft state,
  parameters, files and network; the service adds its dealers and the requests it forwarded.
  In most theories calls run one at a time, and which call comes next is open in \<open>Node\<close>. That the calls
  that share the map may be treated so is shown in \<open>Store_Mutex\<close>, and that POST handlers which overlap
  do nothing new in \<open>Posts_In_Flight\<close>; the goroutines of \<open>StartRaft\<close> and of the ticker are interleaved step by
  step.
  Clock readings are arguments, in nanoseconds, and the zone offset is a function of the instant.
  A Go map is a partial function; where the code ranges over one and the order could matter, the
  order is an argument or a parameter.

  \<^bold>\<open>Parameters.\<close> The Raft library (\<open>raft_api\<close>, \<open>open_env\<close>, \<open>sink_api\<close>), JSON (\<open>json_lib\<close> and the
  encoders of \<open>svc_env\<close>), \<open>logrus\<close>, the flag and viper providers, the name service, other nodes
  (\<open>responder\<close>: an answer may depend on all earlier requests), random numbers and the functions users
  register. What a property needs of them is a hypothesis of the property or a named predicate:
  \<open>json_ok\<close> (decoding an encoding of valid UTF-8 gives the value back), \<open>members_ok\<close> (what
  \<open>RemoveServer\<close> and \<open>AddVoter\<close> do to the configuration), \<open>changes_ok\<close> (the same for changes reported as failed,
  which are made or not made), \<open>prompt\<close> (a future that reports success
  has had its command applied while it was fresh), \<open>sink_keeps\<close>, \<open>keeps_log\<close> (the entries Raft hands
  over in a call are those its log grows by; no other call changes the applied log), \<open>hands_over\<close> (a
  future that reports success has had its command applied), \<open>raft_keeps\<close> (what a process has applied
  is a beginning of the committed log and only grows; every process makes the same write of an
  entry), \<open>ranges_all\<close> (ranging over a map visits its keys), \<open>answers_ok\<close> (the
  client decodes what the handlers encoded), \<open>plain_errors\<close> (decoding never fails with an error value of
  the dealer registry), \<open>finite_maps\<close> (a decoded map is finite), \<open>types_ok\<close> (items and receiver have the methods
  the distributor asks for). Of \<open>net/http\<close> it is used that \<open>Serve\<close> returns only with an error and that a
  pattern can be registered once. Every one of them is met by the concrete instances of the witnesses.

  \<^bold>\<open>Interfaces.\<close> \<open>registry\<close> (a registry of handlers, interpreted on the dealer map), \<open>machine\<close> and
  its extension \<open>fsm\<close> (a deterministic state machine, with snapshots; interpreted on \<open>Apply\<close>,
  \<open>Snapshot\<close> and \<open>Restore\<close>), \<open>kv_store\<close> (what \<open>storei.go\<close> promises of reads after writes;
  interpreted on \<open>Set\<close>, \<open>Delete\<close> and \<open>Get\<close>, used by the POST handler), \<open>leveled\<close> (a levelled logger,
  interpreted on \<open>SLogger\<close>, used for Raft's log output), \<open>leads_to\<close> (an action that stays possible is
  carried out by a fair run; interpreted on the goroutines of the ticker and of \<open>StartRaft\<close>).

  \<^bold>\<open>What is shown.\<close>
  \<^item> Replication: \<open>Apply\<close> on a list of entries refines a list of writes; in every reachable state of a
    node its map is the writes of its log, so nodes with the same log agree as long as their clocks
    give the same verdict on age, and may not otherwise; snapshots with log compaction. Over a cluster:
    an acknowledged write stays in the log, and reads give the value after a beginning of the log,
    on one process never of an earlier one. This holds with POST handlers that overlap, and each answered
    POST has its keys in the log in the order of its loop; a POST is not atomic.
  \<^item> Concurrency: calls of the store are linearizable, snapshots isolated, every call returns; the only
    unprotected access is the assignment of \<open>Restore\<close>. Joins and removals that do not concern the same servers
    do not disturb each other; others can.
  \<^item> The interface \<open>Store\<close>: each method of \<open>RaftStore\<close> keeps what the interface says of it over the view (map,
    servers, state, last log index, statistics, signals): reads, writes, membership, refusal on followers,
    reports and statistics, leadership signals, and exactly when each wait ends and how.
  \<^item> Membership: \<open>Join\<close> and \<open>Remove\<close> against their specification on the configuration, the peers file
    as a round trip; joining over HTTP from end to end, with the errors of Raft; the search for a
    leader as "the first verdict wins"; recovery after a restart; bootstrapping.
  \<^item> Service: what a POST stored a GET returns, on the leader and through a follower; followers never
    write themselves and never forward twice; GET requests change nothing; refusals; a job reaches
    its dealer.
  \<^item> Start: in every fair run \<open>StartRaft\<close> returns and the joining goroutine gets in once an address lets
    it; it ends only when the node is listed. Parameters: which address is derived from
    which, and how; idempotence of \<open>Fix\<close>.
    The goroutine that serves can only end in a panic of the process.
  \<^item> Distribution: complete, balanced, sticky and stable; over any sequence of calls an item moves only
    when its node has left. Dealers: dispatch and first registration.
  \<^item> Logging, ticker and demo: levels and line format, whole rounds, the end of a stopped ticker; what
    \<open>main\<close> wires and starts, configuration items that travel through the log without being stored,
    and the effect of one tick.
  \<^item> Defects found on the way are stated as theorems as well: lost sets west of UTC, divergence by
    clock, the panics of join requests without comma, of \<open>[WARN]\<close> lines and of a second stop, a ticker
    that does not start again, a joined node that reports a failure, the cluster that no peers file
    learns of, joins that overlap and lose a node or leave the peers file behind, the unlocked assignment of \<open>Restore\<close>, the process that ends when its service is closed,
    the port limit, IPv6 hosts, the warning level of \<open>logrus\<close>.

  \<^bold>\<open>Bounds.\<close> Loops over lists are structural recursion. The waits of \<open>Store_Open\<close> are recursion over
  the events of a ticker and a timer, and the theorems show that they return once the timer has
  expired. \<open>itoa\<close> is bounded by the 20 bytes of its buffer. \<open>join_retry\<close> looks at a given number of
  attempts, as the goroutine it models need not end; \<open>Startup_Runs\<close> has it without a bound. Infinite
  runs are functions from \<open>nat\<close>, with weak fairness of the goroutines as a hypothesis.

  \<^bold>\<open>Not modelled.\<close> The transport of the reverse proxy and the profiler (parameters), the creation of
  directories (its result is ignored by the code), parsing the command line, delivery of a signal before
  it is waited for, accessors that only return a writer, tests. Escaping of URL paths is the library's.
  A snapshot that holds the JSON value \<open>null\<close>, which \<open>Persist\<close> never writes, would leave a nil map behind, on
  which the next write panics; the model knows no nil map of keys.
  What Raft itself guarantees between nodes is a hypothesis where it is used.

  \<^bold>\<open>Plan.\<close> Next: the jobs of the demo program in the histories of a cluster, and \<open>WaitForLeader\<close> next to the
  elections of a cluster.
\<close>

end
